(* ===== verification/Prelude.thy ===== *)
theory Prelude
  imports "HOL-Library.Word" "HOL-Library.Multiset" "HOL-Library.AList"
begin

text \<open>
  Shared vocabulary of the development: the fixed-width integers and byte strings of the
  Go sources, results as sums, guard lists (\<open>if c { return err }\<close> in sequence), the
  \<open>encoding/binary\<close> primitives (big-endian, little-endian and uvarint), the stable
  insertion sort that \<open>sort.SliceStable\<close> performs, and reachability of a step
  relation. The interfaces of this theory are the locales \<open>strict_weak_order\<close> (what a
  comparator must satisfy for the sort to be an ordering) and \<open>invariant_system\<close>
  (an invariant of a step relation holds in every reachable state).
\<close>

unbundle bit_operations_syntax

section \<open>Types\<close>

type_synonym byte = "8 word"
type_synonym bytes = "8 word list"
type_synonym u16 = "16 word"
type_synonym u32 = "32 word"
type_synonym u64 = "64 word"

named_theorems result_simps \<open>inversion of results and guard lists\<close>
named_theorems byte_simps \<open>lengths and round trips of byte encodings\<close>

section \<open>Results and guards\<close>

text \<open>
  A Go function returning \<open>(T, error)\<close> is a sum: \<open>Inl\<close> is the error. A function
  returning only an error is an option: \<open>None\<close> is \<open>nil\<close>.
\<close>

definition bind_result :: "'e + 'a \<Rightarrow> ('a \<Rightarrow> 'e + 'b) \<Rightarrow> 'e + 'b" where
  "bind_result r f = (case r of Inl e \<Rightarrow> Inl e | Inr x \<Rightarrow> f x)"

definition guard_result :: "'e option \<Rightarrow> 'e + 'b \<Rightarrow> 'e + 'b" where
  "guard_result g r = (case g of Some e \<Rightarrow> Inl e | None \<Rightarrow> r)"

definition is_ok :: "'e + 'a \<Rightarrow> bool" where
  "is_ok r = (case r of Inl _ \<Rightarrow> False | Inr _ \<Rightarrow> True)"

text \<open>The first violated check of a sequence of early returns.\<close>

fun first_error :: "(bool \<times> 'e) list \<Rightarrow> 'e option" where
  "first_error [] = None"
| "first_error ((violated, e) # rest) = (if violated then Some e else first_error rest)"

text \<open>Composition of two error-returning calls: the second runs when the first is \<open>nil\<close>.\<close>

definition or_else :: "'e option \<Rightarrow> 'e option \<Rightarrow> 'e option" where
  "or_else a b = (case a of Some e \<Rightarrow> Some e | None \<Rightarrow> b)"

lemma bind_result_simps [simp]:
  "bind_result (Inl e) f = Inl e"
  "bind_result (Inr x) f = f x"
  by (simp_all add: bind_result_def)

lemma bind_result_eq_Inr [result_simps]:
  "bind_result r f = Inr y \<longleftrightarrow> (\<exists>x. r = Inr x \<and> f x = Inr y)"
  by (cases r) auto

lemma guard_result_simps [simp]:
  "guard_result (Some e) r = Inl e"
  "guard_result None r = r"
  by (simp_all add: guard_result_def)

lemma guard_result_eq_Inr [result_simps]:
  "guard_result g r = Inr y \<longleftrightarrow> g = None \<and> r = Inr y"
  by (cases g) auto

lemma is_ok_simps [simp]: "is_ok (Inr x)" "\<not> is_ok (Inl e)"
  by (simp_all add: is_ok_def)

lemma is_ok_iff: "is_ok r \<longleftrightarrow> (\<exists>x. r = Inr x)"
  by (cases r) auto

lemma first_error_Cons_None [simp]:
  "first_error ((violated, e) # rest) = None \<longleftrightarrow> \<not> violated \<and> first_error rest = None"
  by simp

lemma first_error_append: "first_error (xs @ ys) = or_else (first_error xs) (first_error ys)"
  by (induction xs rule: first_error.induct) (auto simp: or_else_def)

declare first_error.simps(2) [simp del]

lemma or_else_None_iff [result_simps]: "or_else a b = None \<longleftrightarrow> a = None \<and> b = None"
  by (cases a) (auto simp: or_else_def)

lemma or_else_simps [simp]: "or_else None b = b" "or_else (Some e) b = Some e"
  by (simp_all add: or_else_def)

section \<open>Go integers\<close>

text \<open>
  A Go \<open>int\<close> is a 64-bit two's complement integer; the model keeps it as an \<open>int\<close>
  and wraps where an addition or a subtraction can leave the range.
\<close>

definition int64 :: "int \<Rightarrow> int" where
  "int64 x = signed_take_bit 63 x"

definition in_int64 :: "int \<Rightarrow> bool" where
  "in_int64 x \<longleftrightarrow> - (2 ^ 63) \<le> x \<and> x < 2 ^ 63"

lemma int64_id: "in_int64 x \<Longrightarrow> int64 x = x"
  by (simp add: in_int64_def int64_def signed_take_bit_int_eq_self)

lemma int64_wrap: "2 ^ 63 \<le> x \<Longrightarrow> x < 2 ^ 64 + 2 ^ 63 \<Longrightarrow> int64 x = x - 2 ^ 64"
proof -
  assume "2 ^ 63 \<le> x" and "x < 2 ^ 64 + 2 ^ 63"
  then have "(x + 2 ^ 63) mod 2 ^ 64 = x + 2 ^ 63 - 2 ^ 64"
    using mod_pos_pos_trivial [of "x + 2 ^ 63 - 2 ^ 64" "2 ^ 64"] mod_add_self2 [of "x + 2 ^ 63 - 2 ^ 64" "2 ^ 64"]
    by (simp add: add.commute)
  then show ?thesis
    by (simp add: int64_def signed_take_bit_eq_take_bit_shift take_bit_eq_mod)
qed

lemma int64_range: "in_int64 (int64 x)"
  using signed_take_bit_int_greater_eq_minus_exp [of 63 x] signed_take_bit_int_less_exp [of 63 x]
  by (simp add: in_int64_def int64_def)

section \<open>Big-endian, little-endian and variable-length integers\<close>

text \<open>
  \<open>put_be n v\<close> is \<open>binary.BigEndian.PutUint\<close> for an \<open>8 * n\<close>-bit value: the low
  bytes of \<open>v\<close>, most significant first.
\<close>

fun put_be :: "nat \<Rightarrow> nat \<Rightarrow> bytes" where
  "put_be 0 v = []"
| "put_be (Suc n) v = put_be n (v div 256) @ [word_of_nat v]"

definition get_be :: "bytes \<Rightarrow> nat" where
  "get_be bs = foldl (\<lambda>a b. a * 256 + unat b) 0 bs"

definition put_le :: "nat \<Rightarrow> nat \<Rightarrow> bytes" where
  "put_le n v = rev (put_be n v)"

definition get_le :: "bytes \<Rightarrow> nat" where
  "get_le bs = get_be (rev bs)"

lemma unat_byte_of_nat: "unat (word_of_nat v :: byte) = v mod 256"
  by (simp add: unat_of_nat)

lemma byte_of_nat_mod: "(word_of_nat (v mod 256) :: byte) = word_of_nat v"
  by (rule unsigned_word_eqI [where 'a = nat]) (simp add: unat_of_nat)

lemma unat_byte_less: "unat (b :: byte) < 256"
  using unsigned_less [where w = b and 'a = nat] by simp

lemma get_be_simps [simp]:
  "get_be [] = 0"
  "get_be (bs @ [b]) = get_be bs * 256 + unat b"
  by (simp_all add: get_be_def)

lemma length_put_be [simp, byte_simps]: "length (put_be n v) = n"
  by (induction n arbitrary: v) auto

lemma put_be_numeral:
  "put_be (numeral k) v = put_be (pred_numeral k) (v div 256) @ [word_of_nat v]"
  unfolding numeral_eq_Suc [of k] by (rule put_be.simps)

lemma length_put_le [simp, byte_simps]: "length (put_le n v) = n"
  by (simp add: put_le_def)

lemma get_put_be [byte_simps]: "get_be (put_be n v) = v mod 256 ^ n"
proof (induction n arbitrary: v)
  case 0
  then show ?case by simp
next
  case (Suc n)
  have "v mod (256 * 256 ^ n) = 256 * (v div 256 mod 256 ^ n) + v mod 256"
    by (rule mod_mult2_eq)
  then show ?case by (simp add: Suc.IH unat_byte_of_nat)
qed

lemma get_be_less: "get_be bs < 256 ^ length bs"
proof (induction bs rule: rev_induct)
  case Nil
  then show ?case by simp
next
  case (snoc b bs)
  have "get_be bs + 1 \<le> 256 ^ length bs" using snoc.IH by simp
  then have "(get_be bs + 1) * 256 \<le> 256 ^ length bs * 256" by (rule mult_le_mono1)
  then show ?case using unat_byte_less [of b] by simp
qed

lemma put_get_be [byte_simps]: "length bs = n \<Longrightarrow> put_be n (get_be bs) = bs"
proof (induction bs arbitrary: n rule: rev_induct)
  case Nil
  then show ?case by simp
next
  case (snoc b bs)
  then obtain m where n: "n = Suc m" and m: "length bs = m" by auto
  have "(get_be bs * 256 + unat b) div 256 = get_be bs"
    using unat_byte_less [of b] by simp
  moreover have "(word_of_nat (get_be bs * 256 + unat b) :: byte) = b"
  proof -
    have "(256 :: byte) = 0" by simp
    then show ?thesis by (simp only: of_nat_add of_nat_mult of_nat_numeral) simp
  qed
  ultimately show ?case by (simp add: n snoc.IH [OF m])
qed

lemma get_put_le [byte_simps]: "get_le (put_le n v) = v mod 256 ^ n"
  by (simp add: get_le_def put_le_def get_put_be)

lemma put_get_le [byte_simps]: "length bs = n \<Longrightarrow> put_le n (get_le bs) = bs"
  by (simp add: get_le_def put_le_def put_get_be)

lemma get_put_be_small: "v < 256 ^ n \<Longrightarrow> get_be (put_be n v) = v"
  by (simp add: get_put_be)

lemma unat_max_u64: "unat (- 1 :: u64) = 2 ^ 64 - 1"
  by (simp add: unsigned_minus_1_eq_mask mask_eq_exp_minus_1)

lemma unat_Suc_u64:
  assumes "(e :: u64) \<noteq> - 1"
  shows "unat (e + 1) = unat e + 1"
proof -
  have "unat e \<noteq> 2 ^ 64 - 1"
    using assms by (metis unsigned_word_eqI unat_max_u64)
  moreover have "unat e < 2 ^ 64"
    using unsigned_less [of e] by simp
  ultimately show ?thesis
    by (simp add: unat_word_ariths(1))
qed

lemma get_put_be_u16 [byte_simps]: "word_of_nat (get_be (put_be 2 (unat w))) = (w :: u16)"
  using unsigned_less [where w = w and 'a = nat] by (simp add: get_put_be)

lemma get_put_be_u32 [byte_simps]: "word_of_nat (get_be (put_be 4 (unat w))) = (w :: u32)"
  using unsigned_less [where w = w and 'a = nat] by (simp add: get_put_be)

lemma get_put_be_u64 [byte_simps]: "word_of_nat (get_be (put_be 8 (unat w))) = (w :: u64)"
  using unsigned_less [where w = w and 'a = nat] by (simp add: get_put_be)

lemma get_put_le_u32 [byte_simps]: "word_of_nat (get_le (put_le 4 (unat w))) = (w :: u32)"
  using unsigned_less [where w = w and 'a = nat] by (simp add: get_put_le)

lemma put_be_inj: "put_be n v = put_be n w \<Longrightarrow> v mod 256 ^ n = w mod 256 ^ n"
  by (metis get_put_be)


section \<open>Unsigned varints\<close>

text \<open>
  \<open>binary.PutUvarint\<close> and \<open>binary.Uvarint\<close> on 64-bit values. The decoder returns the
  value and the number of bytes read: 0 when the buffer is too short, negative on overflow.
\<close>

fun put_uvarint :: "nat \<Rightarrow> bytes" where
  "put_uvarint v = (if v < 128 then [word_of_nat v]
     else word_of_nat (v mod 128 + 128) # put_uvarint (v div 128))"

declare put_uvarint.simps [simp del]

fun uvarint_from :: "nat \<Rightarrow> nat \<Rightarrow> bytes \<Rightarrow> nat \<times> int" where
  "uvarint_from i x [] = (0, 0)"
| "uvarint_from i x (b # bs) =
     (if i = 10 then (0, - int (i + 1))
      else if unat b < 128 then
        (if i = 9 \<and> unat b > 1 then (0, - int (i + 1))
         else (x + unat b * 128 ^ i, int (i + 1)))
      else uvarint_from (Suc i) (x + (unat b mod 128) * 128 ^ i) bs)"

definition uvarint :: "bytes \<Rightarrow> nat \<times> int" where
  "uvarint bs = uvarint_from 0 0 bs"

fun uvarint_size :: "nat \<Rightarrow> nat" where
  "uvarint_size v = (if v \<ge> 128 then Suc (uvarint_size (v div 128)) else 1)"

declare uvarint_size.simps [simp del]

lemma length_put_uvarint [byte_simps]: "length (put_uvarint v) = uvarint_size v"
proof (induction v rule: put_uvarint.induct)
  case (1 v)
  show ?case
    by (cases "v < 128")
      (auto simp: put_uvarint.simps [of v] uvarint_size.simps [of v] "1.IH")
qed

lemma put_uvarint_not_Nil [simp]: "put_uvarint v \<noteq> []"
  by (subst put_uvarint.simps) simp

lemma uvarint_size_pos: "0 < uvarint_size v"
  by (subst uvarint_size.simps) simp

lemma uvarint_size_le: "v < 128 ^ n \<Longrightarrow> 0 < n \<Longrightarrow> uvarint_size v \<le> n"
proof (induction v arbitrary: n rule: uvarint_size.induct)
  case (1 v)
  show ?case
  proof (cases "v < 128")
    case True
    then show ?thesis using "1.prems" by (simp add: uvarint_size.simps [of v])
  next
    case False
    obtain m where n: "n = Suc m" using "1.prems"(2) by (cases n) auto
    have m: "0 < m" using "1.prems"(1) False by (cases m) (auto simp: n)
    have "v div 128 < 128 ^ m" using "1.prems" by (simp add: n less_mult_imp_div_less mult.commute)
    then have "uvarint_size (v div 128) \<le> m" using "1.IH" [of m] False m by simp
    then show ?thesis using False by (simp add: uvarint_size.simps [of v] n)
  qed
qed

lemma uvarint_from_put:
  "v < 2 ^ (64 - 7 * i) \<Longrightarrow> i \<le> 9 \<Longrightarrow>
   uvarint_from i x (put_uvarint v @ rest) = (x + v * 128 ^ i, int (i + uvarint_size v))"
proof (induction v arbitrary: i x rule: put_uvarint.induct)
  case (1 v)
  show ?case
  proof (cases "v < 128")
    case True
    then have "unat (word_of_nat v :: byte) = v" by (simp add: unat_byte_of_nat)
    moreover have "\<not> (i = 9 \<and> v > 1)" using "1.prems" by auto
    ultimately show ?thesis
      using True "1.prems"(2)
      by (simp add: put_uvarint.simps [of v] uvarint_size.simps [of v])
  next
    case False
    have i: "i < 9"
    proof (rule ccontr)
      assume "\<not> i < 9"
      then have "i = 9" using "1.prems" by simp
      then show False using "1.prems" False by simp
    qed
    have split: "64 - 7 * i = 7 + (64 - 7 * Suc i)" using i by simp
    have "v < 128 * 2 ^ (64 - 7 * Suc i)"
      using "1.prems"(1) unfolding split power_add by simp
    then have q: "v div 128 < 2 ^ (64 - 7 * Suc i)"
      by (simp add: less_mult_imp_div_less mult.commute)
    have "v mod 128 + 128 < 256" by (simp add: less_diff_conv [symmetric])
    then have b: "unat (word_of_nat (v mod 128 + 128) :: byte) = v mod 128 + 128"
      by (simp add: unat_byte_of_nat del: of_nat_add)
    have ih: "uvarint_from (Suc i) y (put_uvarint (v div 128) @ rest) =
        (y + v div 128 * 128 ^ Suc i, int (Suc i + uvarint_size (v div 128)))" for y
      using "1.IH" [OF False q] i by simp
    have "x + v mod 128 * 128 ^ i + v div 128 * 128 ^ Suc i = x + (v div 128 * 128 + v mod 128) * 128 ^ i"
      by (simp only: distrib_right power_Suc mult.assoc add.assoc)
    then have sum: "x + v mod 128 * 128 ^ i + v div 128 * 128 ^ Suc i = x + v * 128 ^ i"
      by (simp only: div_mult_mod_eq)
    have "uvarint_from i x (put_uvarint v @ rest) =
        uvarint_from (Suc i) (x + v mod 128 * 128 ^ i) (put_uvarint (v div 128) @ rest)"
      using False i b by (simp add: put_uvarint.simps [of v] del: of_nat_add)
    also have "\<dots> = (x + v * 128 ^ i, int (i + uvarint_size v))"
      using False by (simp only: ih sum) (simp add: uvarint_size.simps [of v])
    finally show ?thesis .
  qed
qed

text \<open>Encoding then decoding reads back the value and exactly the bytes written.\<close>

lemma uvarint_put [byte_simps]:
  "v < 2 ^ 64 \<Longrightarrow> uvarint (put_uvarint v @ rest) = (v, int (uvarint_size v))"
  using uvarint_from_put [of v 0 0 rest] by (simp add: uvarint_def)


section \<open>Stable sorting\<close>

text \<open>
  \<open>sort.SliceStable(xs, less)\<close>. Every block of up to 20 elements is sorted by this
  insertion sort: an element moves left past its neighbour while \<open>lt\<close> holds. Longer
  slices merge such blocks, which for a strict weak order gives the same list, since the
  stable sorted permutation is unique. The prefix sorted so far is kept reversed.
\<close>

fun insert_stable :: "('a \<Rightarrow> 'a \<Rightarrow> bool) \<Rightarrow> 'a \<Rightarrow> 'a list \<Rightarrow> 'a list" where
  "insert_stable lt x [] = [x]"
| "insert_stable lt x (y # ys) =
     (if lt x y then y # insert_stable lt x ys else x # y # ys)"

fun insertion_loop :: "('a \<Rightarrow> 'a \<Rightarrow> bool) \<Rightarrow> 'a list \<Rightarrow> 'a list \<Rightarrow> 'a list" where
  "insertion_loop lt sorted_rev [] = sorted_rev"
| "insertion_loop lt sorted_rev (x # xs) =
     insertion_loop lt (insert_stable lt x sorted_rev) xs"

definition slice_stable :: "('a \<Rightarrow> 'a \<Rightarrow> bool) \<Rightarrow> 'a list \<Rightarrow> 'a list" where
  "slice_stable lt xs = rev (insertion_loop lt [] xs)"

lemma mset_insert_stable: "mset (insert_stable lt x ys) = add_mset x (mset ys)"
  by (induction ys) auto

lemma mset_insertion_loop: "mset (insertion_loop lt acc xs) = mset acc + mset xs"
  by (induction xs arbitrary: acc) (auto simp: mset_insert_stable)

lemma mset_slice_stable [simp]: "mset (slice_stable lt xs) = mset xs"
  by (simp add: slice_stable_def mset_insertion_loop)

lemma set_slice_stable [simp]: "set (slice_stable lt xs) = set xs"
  by (metis mset_slice_stable set_mset_mset)

lemma length_slice_stable [simp]: "length (slice_stable lt xs) = length xs"
  by (metis mset_slice_stable size_mset)

lemma slice_stable_Nil [simp]: "slice_stable lt [] = []"
  by (simp add: slice_stable_def)

lemma distinct_slice_stable [simp]: "distinct (slice_stable lt xs) = distinct xs"
  by (metis mset_slice_stable mset_eq_imp_distinct_iff)

text \<open>Only the comparisons of the elements at hand matter.\<close>

lemma insert_stable_cong:
  "(\<And>y. y \<in> set ys \<Longrightarrow> lt x y = lt' x y) \<Longrightarrow> insert_stable lt x ys = insert_stable lt' x ys"
  by (induction ys) auto

lemma insertion_loop_cong:
  assumes "\<And>a b. a \<in> set acc \<union> set xs \<Longrightarrow> b \<in> set acc \<union> set xs \<Longrightarrow> lt a b = lt' a b"
  shows "insertion_loop lt acc xs = insertion_loop lt' acc xs"
  using assms
proof (induction xs arbitrary: acc)
  case Nil
  then show ?case by simp
next
  case (Cons x xs)
  have "set (insert_stable lt' x acc) = insert x (set acc)"
    by (metis mset_insert_stable set_mset_add_mset_insert set_mset_mset)
  moreover have "insert_stable lt x acc = insert_stable lt' x acc"
    using Cons.prems by (intro insert_stable_cong) simp
  ultimately show ?case using Cons.IH [of "insert_stable lt' x acc"] Cons.prems by auto
qed

lemma slice_stable_cong:
  "(\<And>a b. a \<in> set xs \<Longrightarrow> b \<in> set xs \<Longrightarrow> lt a b = lt' a b) \<Longrightarrow>
   slice_stable lt xs = slice_stable lt' xs"
  unfolding slice_stable_def by (intro arg_cong [where f = rev] insertion_loop_cong) auto

text \<open>Elements that \<open>lt\<close> does not separate keep their order, whatever \<open>lt\<close> is.\<close>

lemma filter_insert_stable:
  assumes "\<And>u v. P u \<Longrightarrow> P v \<Longrightarrow> \<not> lt u v"
  shows "filter P (insert_stable lt x ys) = (if P x then x # filter P ys else filter P ys)"
  using assms by (induction ys) auto

lemma filter_insertion_loop:
  assumes "\<And>u v. P u \<Longrightarrow> P v \<Longrightarrow> \<not> lt u v"
  shows "filter P (insertion_loop lt acc xs) = rev (filter P xs) @ filter P acc"
  using assms by (induction xs arbitrary: acc) (auto simp: filter_insert_stable)

lemma slice_stable_stable:
  assumes "\<And>u v. P u \<Longrightarrow> P v \<Longrightarrow> \<not> lt u v"
  shows "filter P (slice_stable lt xs) = filter P xs"
  using assms by (simp add: slice_stable_def filter_insertion_loop flip: rev_filter)

text \<open>A list that already has no inversion is left as it is.\<close>

lemma insertion_loop_sorted:
  assumes "sorted_wrt (\<lambda>a b. \<not> lt b a) (rev acc @ xs)"
  shows "insertion_loop lt acc xs = rev xs @ acc"
  using assms
proof (induction xs arbitrary: acc)
  case Nil
  then show ?case by simp
next
  case (Cons x xs)
  have "\<forall>y \<in> set acc. \<not> lt x y"
    using Cons.prems by (auto simp: sorted_wrt_append)
  then have "insert_stable lt x acc = x # acc" by (cases acc) auto
  then show ?case using Cons.IH [of "x # acc"] Cons.prems by simp
qed

lemma slice_stable_id: "sorted_wrt (\<lambda>a b. \<not> lt b a) xs \<Longrightarrow> slice_stable lt xs = xs"
  using insertion_loop_sorted [of lt "[]" xs] by (simp add: slice_stable_def)

text \<open>What a comparator must satisfy for the result to be ordered.\<close>

locale strict_weak_order =
  fixes lt :: "'a \<Rightarrow> 'a \<Rightarrow> bool"
  assumes less_asym: "lt a b \<Longrightarrow> \<not> lt b a"
    and not_less_trans: "\<not> lt b a \<Longrightarrow> \<not> lt c b \<Longrightarrow> \<not> lt c a"
begin

lemma sorted_insert_stable:
  "sorted_wrt (\<lambda>a b. \<not> lt a b) ys \<Longrightarrow> sorted_wrt (\<lambda>a b. \<not> lt a b) (insert_stable lt x ys)"
proof (induction ys)
  case Nil
  then show ?case by simp
next
  case (Cons y ys)
  have elems: "set (insert_stable lt x ys) = insert x (set ys)"
    by (metis mset_insert_stable set_mset_add_mset_insert set_mset_mset)
  show ?case
  proof (cases "lt x y")
    case True
    then show ?thesis using Cons less_asym by (auto simp: elems)
  next
    case False
    moreover have "\<forall>z \<in> set ys. \<not> lt y z" using Cons.prems by simp
    ultimately have "\<forall>z \<in> set ys. \<not> lt x z" by (metis not_less_trans)
    then show ?thesis using Cons.prems False by simp
  qed
qed

lemma sorted_insertion_loop:
  "sorted_wrt (\<lambda>a b. \<not> lt a b) acc \<Longrightarrow> sorted_wrt (\<lambda>a b. \<not> lt a b) (insertion_loop lt acc xs)"
  by (induction xs arbitrary: acc) (auto intro: sorted_insert_stable)

lemma sorted_slice_stable: "sorted_wrt (\<lambda>a b. \<not> lt b a) (slice_stable lt xs)"
  using sorted_insertion_loop [of "[]" xs] by (simp add: slice_stable_def sorted_wrt_rev)

end

text \<open>Comparators that compare a key in a linear order.\<close>

lemma strict_weak_order_key:
  fixes f :: "'a \<Rightarrow> 'k :: linorder"
  assumes "\<And>a b. lt a b \<longleftrightarrow> f a < f b"
  shows "strict_weak_order lt"
  by unfold_locales (simp_all add: assms)

lemma strict_weak_order_lex:
  fixes f :: "'a \<Rightarrow> 'k :: linorder" and g :: "'a \<Rightarrow> 'j :: linorder"
  assumes "\<And>a b. lt a b \<longleftrightarrow> f a < f b \<or> f a = f b \<and> g a < g b"
  shows "strict_weak_order lt"
proof
  fix a b
  assume "lt a b"
  then show "\<not> lt b a" by (auto simp: assms)
next
  fix a b c
  assume "\<not> lt b a" and "\<not> lt c b"
  then have "f a \<le> f b" "f b \<le> f c" "f a = f b \<longrightarrow> g a \<le> g b" "f b = f c \<longrightarrow> g b \<le> g c"
    by (auto simp: assms not_less)
  then have "f a < f c \<or> f a = f c \<and> g a \<le> g c" by (metis dual_order.trans order_le_less order_antisym)
  then show "\<not> lt c a" by (auto simp: assms)
qed

section \<open>Reachable states\<close>

inductive reach :: "('s \<Rightarrow> bool) \<Rightarrow> ('s \<Rightarrow> 's \<Rightarrow> bool) \<Rightarrow> 's \<Rightarrow> bool"
  for init :: "'s \<Rightarrow> bool" and step :: "'s \<Rightarrow> 's \<Rightarrow> bool" where
  reach_init: "init s \<Longrightarrow> reach init step s"
| reach_step: "reach init step s \<Longrightarrow> step s t \<Longrightarrow> reach init step t"

locale invariant_system =
  fixes init :: "'s \<Rightarrow> bool" and step :: "'s \<Rightarrow> 's \<Rightarrow> bool" and inv :: "'s \<Rightarrow> bool"
  assumes inv_init: "init s \<Longrightarrow> inv s"
    and inv_step: "inv s \<Longrightarrow> step s t \<Longrightarrow> inv t"
begin

lemma reach_inv: "reach init step s \<Longrightarrow> inv s"
  by (induction rule: reach.induct) (auto intro: inv_init inv_step)

end

lemma sort_set_eq: "distinct xs \<Longrightarrow> sort xs = sorted_list_of_set (set xs)"
  by (simp add: sorted_list_of_set_sort_remdups distinct_remdups_id)

section \<open>Association lists as Go maps\<close>

text \<open>
  A Go map whose entries are counted or iterated is an association list with distinct
  keys, updated by \<open>AList.update\<close>.
\<close>

lemma map_of_update [simp]: "map_of (AList.update k v al) = (map_of al)(k \<mapsto> v)"
  by (simp add: update_conv')

lemma update_present:
  assumes "distinct (map fst al)" and "map_of al k = Some u"
  shows "AList.update k v al = map (\<lambda>(j, w). if j = k then (k, v) else (j, w)) al"
  using assms
proof (induction al)
  case Nil
  then show ?case by simp
next
  case (Cons a al)
  obtain j w where a: "a = (j, w)" by (cases a)
  show ?case
  proof (cases "j = k")
    case True
    then have "k \<notin> fst ` set al" using Cons.prems a by simp
    then have "map (\<lambda>(j, w). if j = k then (k, v) else (j, w)) al = al"
      by (intro map_idI) (auto simp: image_iff)
    then show ?thesis using True a by simp
  next
    case False
    then show ?thesis using Cons a by simp
  qed
qed

lemma update_absent:
  "map_of al k = None \<Longrightarrow> AList.update k v al = al @ [(k, v)]"
  by (induction al) (auto split: if_splits)

lemma map_fst_update_present:
  "map_of al k = Some u \<Longrightarrow> map fst (AList.update k v al) = map fst al"
  by (simp add: update_keys map_of_eq_Some_iff weak_map_of_SomeI) (metis domI dom_map_of_conv_image_fst list.set_map)

lemma set_update_cases:
  "(j, w) \<in> set (AList.update k v al) \<Longrightarrow> j = k \<and> w = v \<or> (j, w) \<in> set al"
  by (induction al) (auto split: if_splits)

section \<open>Buffers and strings\<close>

text \<open>
  \<open>copy(buf[pos:], data)\<close>: the bytes of \<open>data\<close> that fit overwrite the buffer from
  \<open>pos\<close> on.
\<close>

definition copy_at :: "nat \<Rightarrow> bytes \<Rightarrow> bytes \<Rightarrow> bytes" where
  "copy_at pos data buf = (let d = take (length buf - pos) data in
     take pos buf @ d @ drop (pos + length d) buf)"

lemma copy_at_append:
  "length a = pos \<Longrightarrow> length old = length data \<Longrightarrow> copy_at pos data (a @ old @ b) = a @ data @ b"
  by (simp add: copy_at_def)

lemma length_copy_at [byte_simps]: "pos \<le> length buf \<Longrightarrow> length (copy_at pos data buf) = length buf"
  by (auto simp: copy_at_def Let_def)

text \<open>A list of sufficient length splits at every position below it.\<close>

lemma split_at: "n \<le> length xs \<Longrightarrow> \<exists>a b. xs = a @ b \<and> length a = n"
  by (metis append_take_drop_id length_take min.absorb2)

text \<open>A Go string is a byte sequence; the model keeps it as a list of characters.\<close>

definition string_bytes :: "string \<Rightarrow> bytes" where
  "string_bytes s = map (\<lambda>c. word_of_nat (of_char c)) s"

definition bytes_string :: "bytes \<Rightarrow> string" where
  "bytes_string bs = map (\<lambda>b. char_of (unat b)) bs"

lemma char_byte_char: "char_of (unat (word_of_nat (of_char c) :: byte)) = c"
  by (simp add: unat_byte_of_nat)

lemma byte_char_byte: "word_of_nat (of_char (char_of (unat b))) = (b :: byte)"
  using unat_byte_less [of b] by simp

lemma bytes_string_bytes [simp]: "bytes_string (string_bytes s) = s"
  by (simp add: bytes_string_def string_bytes_def comp_def char_byte_char)

lemma string_bytes_string [simp]: "string_bytes (bytes_string bs) = bs"
  by (simp add: bytes_string_def string_bytes_def comp_def byte_of_nat_mod)

lemma length_string_bytes [simp]: "length (string_bytes s) = length s"
  by (simp add: string_bytes_def)

lemma length_bytes_string [simp]: "length (bytes_string bs) = length bs"
  by (simp add: bytes_string_def)


section \<open>Codecs\<close>

text \<open>
  The contract of an encoder and its decoder: what was encoded is read back. A canonical
  codec also re-encodes everything it accepts to the same bytes. \<open>valid\<close> is the
  representation invariant of the encoded values.
\<close>

locale byte_codec =
  fixes valid :: "'a \<Rightarrow> bool"
    and enc :: "'a \<Rightarrow> 'e + bytes"
    and dec :: "bytes \<Rightarrow> 'd + 'a"
  assumes dec_enc: "valid x \<Longrightarrow> enc x = Inr b \<Longrightarrow> dec b = Inr x"
begin

lemma enc_injective: "valid x \<Longrightarrow> valid y \<Longrightarrow> enc x = Inr b \<Longrightarrow> enc y = Inr b \<Longrightarrow> x = y"
  using dec_enc [of x b] dec_enc [of y b] by simp

lemma encoded_accepted: "valid x \<Longrightarrow> is_ok (enc x) \<Longrightarrow> \<exists>b. enc x = Inr b \<and> is_ok (dec b)"
  using dec_enc by (auto simp: is_ok_iff)

end

locale canonical_codec = byte_codec +
  assumes enc_dec: "dec b = Inr x \<Longrightarrow> valid x \<and> enc x = Inr b"
begin

lemma dec_iff: "dec b = Inr x \<longleftrightarrow> valid x \<and> enc x = Inr b"
  using dec_enc enc_dec by blast

lemma dec_injective: "dec a = Inr x \<Longrightarrow> dec b = Inr x \<Longrightarrow> a = b"
  using enc_dec [of a x] enc_dec [of b x] by simp

lemma not_encoded_rejected: "(\<And>x. valid x \<Longrightarrow> enc x \<noteq> Inr b) \<Longrightarrow> \<not> is_ok (dec b)"
  using enc_dec by (auto simp: is_ok_iff)

end

end
