(* ===== verification/Stream_Session.thy ===== *)
theory Stream_Session
  imports Prelude
begin

text \<open>
  The multiplexed stream session of \<open>internal/protocol/stream\<close>. A session owns its streams by
  id, a session-wide flow-control window and the order the streams were opened in. The
  operations are the methods of \<open>Session\<close>; each returns the next session and the method's
  results. Go's \<open>int\<close> is 64 bit, so window and byte-count arithmetic wraps through
  \<^const>\<open>int64\<close>; stream ids are \<^typ>\<open>u32\<close> and wrap by themselves.
\<close>

section \<open>Streams\<close>

datatype stream_state =
    StateIdle
  | StateOpen
  | StateHalfClosedLocal
  | StateHalfClosedRemote
  | StateClosed
  | StateReset

datatype stream_error =
    StreamInvalidConfig
  | ErrUnknownStream
  | ErrMaxConcurrentStreams
  | ErrStreamClosed
  | ErrBackpressure

record stream =
  stream_id :: u32
  stream_priority :: string
  stream_state :: stream_state
  windowBytes :: int
  pendingBytes :: int
  blocked :: bool
  stream_buffer :: bytes
  resetReason :: string

definition IsTerminal :: "stream_state \<Rightarrow> bool" where
  "IsTerminal st \<longleftrightarrow> st = StateClosed \<or> st = StateReset"

definition WindowBucket :: "int \<Rightarrow> string" where
  "WindowBucket n =
     (if n \<le> 0 then ''blocked''
      else if n \<le> 16 * 1024 then ''low''
      else if n \<le> 64 * 1024 then ''medium''
      else ''high'')"

definition PriorityClass :: "string \<Rightarrow> string" where
  "PriorityClass priority =
     (if priority = ''interactive'' then ''interactive''
      else if priority = ''bulk'' then ''bulk''
      else if priority = '''' then ''bulk''
      else ''other'')"

text \<open>The three accessors have a nil receiver guard: \<^const>\<open>None\<close> is the nil stream.\<close>

definition WindowBytes :: "stream option \<Rightarrow> int" where
  "WindowBytes s = (case s of None \<Rightarrow> 0 | Some st \<Rightarrow> windowBytes st)"

definition PendingBytes :: "stream option \<Rightarrow> int" where
  "PendingBytes s = (case s of None \<Rightarrow> 0 | Some st \<Rightarrow> pendingBytes st)"

definition Blocked :: "stream option \<Rightarrow> bool" where
  "Blocked s = (case s of None \<Rightarrow> False | Some st \<Rightarrow> blocked st)"

section \<open>Sessions\<close>

record session_config =
  IDStrategy :: string
  IDEncodingMode :: string
  MaxConcurrentStreams :: int
  InitialStreamWindowBytes :: int
  InitialSessionWindowBytes :: int
  WindowUpdatePolicy :: string
  PriorityPolicy :: string
  ClosePolicy :: string
  ResetPolicy :: string
  MaxStreamID :: u32

record write_result =
  wr_stream_id :: u32
  BytesAccepted :: int
  Backpressured :: bool
  StreamWindowRemaining :: int
  SessionWindowRemaining :: int

record session =
  session_cfg :: session_config
  nextID :: u32
  sessionWindow :: int
  streams :: "(u32 \<times> stream) list"
  openOrder :: "u32 list"

definition default_string :: "string \<Rightarrow> string \<Rightarrow> string" where
  "default_string d s = (if s = '''' then d else s)"

definition NewSession :: "session_config \<Rightarrow> stream_error + session" where
  "NewSession cfg =
     (if MaxConcurrentStreams cfg \<le> 0 \<or> InitialStreamWindowBytes cfg \<le> 0
         \<or> InitialSessionWindowBytes cfg \<le> 0
      then Inl StreamInvalidConfig
      else if InitialSessionWindowBytes cfg < InitialStreamWindowBytes cfg
      then Inl StreamInvalidConfig
      else
        let cfg = cfg\<lparr>
          MaxStreamID := (if MaxStreamID cfg = 0 then push_bit 24 1 else MaxStreamID cfg),
          IDStrategy := default_string ''sequential_odd_even'' (IDStrategy cfg),
          PriorityPolicy := default_string ''fifo'' (PriorityPolicy cfg),
          ClosePolicy := default_string ''explicit_close'' (ClosePolicy cfg),
          ResetPolicy := default_string ''immediate_reset'' (ResetPolicy cfg)\<rparr>
        in Inr \<lparr>session_cfg = cfg, nextID = 1,
                 sessionWindow = InitialSessionWindowBytes cfg,
                 streams = [], openOrder = []\<rparr>)"

definition lookup_stream :: "session \<Rightarrow> u32 \<Rightarrow> stream option" where
  "lookup_stream s i = map_of (streams s) i"

definition put_stream :: "session \<Rightarrow> u32 \<Rightarrow> stream \<Rightarrow> session" where
  "put_stream s i st = s\<lparr>streams := AList.update i st (streams s)\<rparr>"

definition activeStreamCount :: "session \<Rightarrow> int" where
  "activeStreamCount s =
     int (length (filter (\<lambda>(_, st). stream_state st \<noteq> StateClosed \<and> stream_state st \<noteq> StateReset)
       (streams s)))"

definition allocateID :: "session \<Rightarrow> session \<times> (stream_error + u32)" where
  "allocateID s =
     (let i = nextID s in
      if i = 0 \<or> i > MaxStreamID (session_cfg s) then (s, Inl StreamInvalidConfig)
      else if IDStrategy (session_cfg s) = ''sequential_odd_even''
      then (s\<lparr>nextID := nextID s + 2\<rparr>, Inr i)
      else (s\<lparr>nextID := nextID s + 1\<rparr>, Inr i))"

definition OpenStream :: "session \<Rightarrow> string \<Rightarrow> session \<times> (stream_error + u32)" where
  "OpenStream s priority =
     (if activeStreamCount s \<ge> MaxConcurrentStreams (session_cfg s)
      then (s, Inl ErrMaxConcurrentStreams)
      else
        let priority = default_string ''bulk'' priority in
        case allocateID s of
          (s, Inl e) \<Rightarrow> (s, Inl e)
        | (s, Inr i) \<Rightarrow>
            let st = \<lparr>stream_id = i, stream_priority = priority, stream_state = StateOpen,
                      windowBytes = InitialStreamWindowBytes (session_cfg s),
                      pendingBytes = 0, blocked = False, stream_buffer = [],
                      resetReason = ''''\<rparr>;
                s = put_stream s i st
            in (s\<lparr>openOrder := openOrder s @ [i]\<rparr>, Inr i))"

definition empty_write_result :: "u32 \<Rightarrow> write_result" where
  "empty_write_result i =
     \<lparr>wr_stream_id = i, BytesAccepted = 0, Backpressured = False,
      StreamWindowRemaining = 0, SessionWindowRemaining = 0\<rparr>"

definition WriteData ::
  "session \<Rightarrow> u32 \<Rightarrow> bytes \<Rightarrow> session \<times> write_result \<times> stream_error option" where
  "WriteData s i payload =
     (case lookup_stream s i of
        None \<Rightarrow> (s, empty_write_result i, Some ErrUnknownStream)
      | Some st \<Rightarrow>
          if stream_state st = StateClosed \<or> stream_state st = StateReset
             \<or> stream_state st = StateHalfClosedLocal
          then (s, empty_write_result i, Some ErrStreamClosed)
          else
            let n = int (length payload);
                result = (empty_write_result i)
                  \<lparr>StreamWindowRemaining := windowBytes st,
                   SessionWindowRemaining := sessionWindow s\<rparr>
            in
            if n > windowBytes st \<or> n > sessionWindow s
            then (put_stream s i (st\<lparr>blocked := True\<rparr>),
                  result\<lparr>Backpressured := True\<rparr>, Some ErrBackpressure)
            else
              let st = st\<lparr>windowBytes := int64 (windowBytes st - n)\<rparr>;
                  s = s\<lparr>sessionWindow := int64 (sessionWindow s - n)\<rparr>;
                  st = st\<lparr>pendingBytes := int64 (pendingBytes st + n), blocked := False,
                          stream_buffer := stream_buffer st @ payload\<rparr>
              in (put_stream s i st,
                  result\<lparr>BytesAccepted := n, StreamWindowRemaining := windowBytes st,
                         SessionWindowRemaining := sessionWindow s\<rparr>, None))"

definition ReadData :: "session \<Rightarrow> u32 \<Rightarrow> session \<times> bytes" where
  "ReadData s i =
     (case lookup_stream s i of
        None \<Rightarrow> (s, [])
      | Some st \<Rightarrow>
          (put_stream s i (st\<lparr>stream_buffer := [], pendingBytes := 0\<rparr>), stream_buffer st))"

definition CloseLocal :: "session \<Rightarrow> u32 \<Rightarrow> session \<times> stream_error option" where
  "CloseLocal s i =
     (case lookup_stream s i of
        None \<Rightarrow> (s, Some ErrUnknownStream)
      | Some st \<Rightarrow>
          (case stream_state st of
             StateOpen \<Rightarrow> (put_stream s i (st\<lparr>stream_state := StateHalfClosedLocal\<rparr>), None)
           | StateHalfClosedRemote \<Rightarrow> (put_stream s i (st\<lparr>stream_state := StateClosed\<rparr>), None)
           | StateClosed \<Rightarrow> (s, Some ErrStreamClosed)
           | StateReset \<Rightarrow> (s, Some ErrStreamClosed)
           | _ \<Rightarrow> (s, None)))"

definition CloseRemote :: "session \<Rightarrow> u32 \<Rightarrow> session \<times> stream_error option" where
  "CloseRemote s i =
     (case lookup_stream s i of
        None \<Rightarrow> (s, Some ErrUnknownStream)
      | Some st \<Rightarrow>
          (case stream_state st of
             StateOpen \<Rightarrow> (put_stream s i (st\<lparr>stream_state := StateHalfClosedRemote\<rparr>), None)
           | StateHalfClosedLocal \<Rightarrow> (put_stream s i (st\<lparr>stream_state := StateClosed\<rparr>), None)
           | StateClosed \<Rightarrow> (s, Some ErrStreamClosed)
           | StateReset \<Rightarrow> (s, Some ErrStreamClosed)
           | _ \<Rightarrow> (s, None)))"

definition Reset :: "session \<Rightarrow> u32 \<Rightarrow> string \<Rightarrow> session \<times> stream_error option" where
  "Reset s i reason =
     (case lookup_stream s i of
        None \<Rightarrow> (s, Some ErrUnknownStream)
      | Some st \<Rightarrow>
          (put_stream s i (st\<lparr>stream_state := StateReset, resetReason := reason,
             blocked := False\<rparr>), None))"

definition WindowUpdate :: "session \<Rightarrow> u32 \<Rightarrow> int \<Rightarrow> session \<times> stream_error option" where
  "WindowUpdate s i credit =
     (if credit \<le> 0 then (s, Some StreamInvalidConfig)
      else case lookup_stream s i of
        None \<Rightarrow> (s, Some ErrUnknownStream)
      | Some st \<Rightarrow>
          if stream_state st = StateClosed \<or> stream_state st = StateReset
          then (s, Some ErrStreamClosed)
          else
            let st = st\<lparr>windowBytes := int64 (windowBytes st + credit)\<rparr>;
                s = s\<lparr>sessionWindow := int64 (sessionWindow s + credit)\<rparr>;
                st = (if windowBytes st > 0 \<and> sessionWindow s > 0
                      then st\<lparr>blocked := False\<rparr> else st)
            in (put_stream s i st, None))"

definition StreamState :: "session \<Rightarrow> u32 \<Rightarrow> stream_state" where
  "StreamState s i = (case lookup_stream s i of Some st \<Rightarrow> stream_state st | None \<Rightarrow> StateIdle)"

definition StreamWindow :: "session \<Rightarrow> u32 \<Rightarrow> int" where
  "StreamWindow s i = (case lookup_stream s i of Some st \<Rightarrow> windowBytes st | None \<Rightarrow> 0)"

definition interactive_less :: "stream \<Rightarrow> stream \<Rightarrow> bool" where
  "interactive_less a b =
     (if stream_priority a \<noteq> stream_priority b then stream_priority a = ''interactive''
      else stream_id a < stream_id b)"

definition smallest_pending_less :: "stream \<Rightarrow> stream \<Rightarrow> bool" where
  "smallest_pending_less a b =
     (if pendingBytes a = pendingBytes b then stream_id a < stream_id b
      else pendingBytes a < pendingBytes b)"

definition schedulable :: "stream \<Rightarrow> bool" where
  "schedulable st \<longleftrightarrow>
     \<not> (blocked st \<or> stream_state st = StateClosed \<or> stream_state st = StateReset)"

fun schedule_candidates :: "session \<Rightarrow> u32 list \<Rightarrow> stream list" where
  "schedule_candidates s [] = []"
| "schedule_candidates s (i # is) =
     (case lookup_stream s i of
        None \<Rightarrow> schedule_candidates s is
      | Some st \<Rightarrow>
          if schedulable st then st # schedule_candidates s is else schedule_candidates s is)"

definition ScheduleActiveStreams :: "session \<Rightarrow> u32 list" where
  "ScheduleActiveStreams s =
     (let candidates = schedule_candidates s (openOrder s);
          policy = PriorityPolicy (session_cfg s)
      in map stream_id
        (if policy = ''interactive_first'' then slice_stable interactive_less candidates
         else if policy = ''smallest_pending_first''
         then slice_stable smallest_pending_less candidates
         else if policy = ''weighted_round_robin''
         then slice_stable interactive_less candidates
         else candidates))"

section \<open>Sequences of calls\<close>

text \<open>
  The mutating methods as one interface: a call, its reply, and a run of calls in the order
  the session executes them, with the log of calls and replies.
\<close>

datatype session_op =
    OpOpen string
  | OpWrite u32 bytes
  | OpRead u32
  | OpCloseLocal u32
  | OpCloseRemote u32
  | OpReset u32 string
  | OpCredit u32 int

datatype session_reply =
    ReplyOpen "stream_error + u32"
  | ReplyWrite write_result "stream_error option"
  | ReplyRead bytes
  | ReplyDone "stream_error option"

fun apply_op :: "session \<Rightarrow> session_op \<Rightarrow> session \<times> session_reply" where
  "apply_op s (OpOpen p) = (case OpenStream s p of (s, r) \<Rightarrow> (s, ReplyOpen r))"
| "apply_op s (OpWrite i p) = (case WriteData s i p of (s, w, e) \<Rightarrow> (s, ReplyWrite w e))"
| "apply_op s (OpRead i) = (case ReadData s i of (s, b) \<Rightarrow> (s, ReplyRead b))"
| "apply_op s (OpCloseLocal i) = (case CloseLocal s i of (s, e) \<Rightarrow> (s, ReplyDone e))"
| "apply_op s (OpCloseRemote i) = (case CloseRemote s i of (s, e) \<Rightarrow> (s, ReplyDone e))"
| "apply_op s (OpReset i r) = (case Reset s i r of (s, e) \<Rightarrow> (s, ReplyDone e))"
| "apply_op s (OpCredit i c) = (case WindowUpdate s i c of (s, e) \<Rightarrow> (s, ReplyDone e))"

fun run_ops :: "session \<Rightarrow> session_op list \<Rightarrow> session \<times> (session_op \<times> session_reply) list" where
  "run_ops s [] = (s, [])"
| "run_ops s (x # xs) =
     (case apply_op s x of (s, r) \<Rightarrow> (case run_ops s xs of (s, log) \<Rightarrow> (s, (x, r) # log)))"

inductive session_step :: "session \<Rightarrow> session \<Rightarrow> bool" where
  "apply_op s x = (t, r) \<Longrightarrow> session_step s t"

text \<open>What a log says was accepted on, delivered from, and credited to a stream.\<close>

fun accepted_event :: "u32 \<Rightarrow> session_op \<times> session_reply \<Rightarrow> bytes" where
  "accepted_event i (OpWrite j p, ReplyWrite w None) = (if i = j then p else [])"
| "accepted_event i _ = []"

fun delivered_event :: "u32 \<Rightarrow> session_op \<times> session_reply \<Rightarrow> bytes" where
  "delivered_event i (OpRead j, ReplyRead b) = (if i = j then b else [])"
| "delivered_event i _ = []"

fun credited_event :: "u32 \<Rightarrow> session_op \<times> session_reply \<Rightarrow> int" where
  "credited_event i (OpCredit j c, ReplyDone None) = (if i = j then c else 0)"
| "credited_event i _ = 0"

fun accepted_count :: "session_op \<times> session_reply \<Rightarrow> int" where
  "accepted_count (OpWrite j p, ReplyWrite w None) = int (length p)"
| "accepted_count _ = 0"

fun credited_count :: "session_op \<times> session_reply \<Rightarrow> int" where
  "credited_count (OpCredit j c, ReplyDone None) = c"
| "credited_count _ = 0"

fun opened_event :: "session_op \<times> session_reply \<Rightarrow> u32 list" where
  "opened_event (OpOpen p, ReplyOpen (Inr i)) = [i]"
| "opened_event _ = []"

fun credit_request :: "session_op \<Rightarrow> int" where
  "credit_request (OpCredit j c) = max c 0"
| "credit_request _ = 0"

section \<open>Invariants\<close>

text \<open>
  The structural invariant of every session: the stream table has one entry per opened id, in
  the order of opening as long as no id was handed out twice, every entry is about its id, and
  the live streams fit the configured maximum.

  The two-step allocator wraps from the largest 32-bit number to 1, and it gets there when that
  number is the maximum id. \<open>safe_ids\<close> are the other configurations; for them the opened ids
  also lie below the next one, so that none is handed out twice. Every theorem that needs it
  has it as a hypothesis, and \<open>session_fresh_ids\<close> shows that it is exactly the condition.
\<close>

definition safe_ids :: "session_config \<Rightarrow> bool" where
  "safe_ids cfg \<longleftrightarrow> IDStrategy cfg \<noteq> ''sequential_odd_even'' \<or> MaxStreamID cfg \<noteq> - 1"

definition session_init :: "session \<Rightarrow> bool" where
  "session_init s \<longleftrightarrow> (\<exists>cfg. NewSession cfg = Inr s)"

definition session_inv :: "session \<Rightarrow> bool" where
  "session_inv s \<longleftrightarrow>
     distinct (map fst (streams s)) \<and> set (map fst (streams s)) = set (openOrder s) \<and>
     (distinct (openOrder s) \<longrightarrow> map fst (streams s) = openOrder s) \<and>
     (\<forall>(i, st) \<in> set (streams s). stream_id st = i \<and> stream_state st \<noteq> StateIdle) \<and>
     (\<forall>i \<in> set (openOrder s). i \<noteq> 0 \<and> i \<le> MaxStreamID (session_cfg s)) \<and>
     activeStreamCount s \<le> MaxConcurrentStreams (session_cfg s)"

definition fresh_inv :: "session \<Rightarrow> bool" where
  "fresh_inv s \<longleftrightarrow>
     distinct (openOrder s) \<and> (nextID s = 0 \<or> (\<forall>i \<in> set (openOrder s). i < nextID s)) \<and>
     (IDStrategy (session_cfg s) = ''sequential_odd_even'' \<longrightarrow> odd (nextID s))"

definition stream_flow :: "int \<Rightarrow> stream \<Rightarrow> bool" where
  "stream_flow B st \<longleftrightarrow>
     0 \<le> windowBytes st \<and> pendingBytes st = int (length (stream_buffer st)) \<and>
     windowBytes st + pendingBytes st \<le> B"

definition buffered :: "session \<Rightarrow> u32 \<Rightarrow> bytes" where
  "buffered s i = (case lookup_stream s i of None \<Rightarrow> [] | Some st \<Rightarrow> stream_buffer st)"

definition stream_credit :: "session \<Rightarrow> u32 \<Rightarrow> int" where
  "stream_credit s i =
     (case lookup_stream s i of
        None \<Rightarrow> InitialStreamWindowBytes (session_cfg s)
      | Some st \<Rightarrow> windowBytes st)"

definition flow_inv :: "int \<Rightarrow> session \<Rightarrow> bool" where
  "flow_inv B s \<longleftrightarrow>
     0 \<le> sessionWindow s \<and> sessionWindow s \<le> B \<and> B < 2 ^ 63 \<and>
     0 \<le> InitialStreamWindowBytes (session_cfg s) \<and>
     InitialStreamWindowBytes (session_cfg s) \<le> B \<and>
     (\<forall>(i, st) \<in> set (streams s). stream_flow B st)"

section \<open>The effect of one call\<close>

lemma lookup_put_stream [simp]:
  "lookup_stream (put_stream s i st) j = (if i = j then Some st else lookup_stream s j)"
  by (simp add: lookup_stream_def put_stream_def)

lemma lookup_stream_update [simp]:
  "lookup_stream (s\<lparr>sessionWindow := w\<rparr>) j = lookup_stream s j"
  "lookup_stream (s\<lparr>nextID := n\<rparr>) j = lookup_stream s j"
  "lookup_stream (s\<lparr>openOrder := os\<rparr>) j = lookup_stream s j"
  by (simp_all add: lookup_stream_def)

lemma put_stream_fields [simp]:
  "session_cfg (put_stream s i st) = session_cfg s"
  "nextID (put_stream s i st) = nextID s"
  "sessionWindow (put_stream s i st) = sessionWindow s"
  "openOrder (put_stream s i st) = openOrder s"
  by (simp_all add: put_stream_def)

lemma views_put_stream [simp]:
  "buffered (put_stream s i st) j = (if i = j then stream_buffer st else buffered s j)"
  "stream_credit (put_stream s i st) j = (if i = j then windowBytes st else stream_credit s j)"
  by (simp_all add: buffered_def stream_credit_def split: option.split)

lemma views_update [simp]:
  "buffered (s\<lparr>sessionWindow := w\<rparr>) j = buffered s j"
  "buffered (s\<lparr>nextID := n\<rparr>) j = buffered s j"
  "buffered (s\<lparr>openOrder := os\<rparr>) j = buffered s j"
  "stream_credit (s\<lparr>sessionWindow := w\<rparr>) j = stream_credit s j"
  "stream_credit (s\<lparr>nextID := n\<rparr>) j = stream_credit s j"
  "stream_credit (s\<lparr>openOrder := os\<rparr>) j = stream_credit s j"
  by (simp_all add: buffered_def stream_credit_def split: option.split)

lemma views_lookup:
  "lookup_stream s i = Some st \<Longrightarrow> buffered s i = stream_buffer st"
  "lookup_stream s i = Some st \<Longrightarrow> stream_credit s i = windowBytes st"
  "lookup_stream s i = None \<Longrightarrow> buffered s i = []"
  "lookup_stream s i = None \<Longrightarrow> stream_credit s i = InitialStreamWindowBytes (session_cfg s)"
  by (simp_all add: buffered_def stream_credit_def)

text \<open>
  Every call but an accepted open either leaves the session alone or rewrites one existing
  stream and the session window; it never revives a terminal stream.
\<close>

definition touches :: "session \<Rightarrow> session \<Rightarrow> bool" where
  "touches s t \<longleftrightarrow>
     t = s \<or>
     (\<exists>i st st' w. lookup_stream s i = Some st \<and>
        t = put_stream (s\<lparr>sessionWindow := w\<rparr>) i st' \<and> stream_id st' = stream_id st \<and>
        (stream_state st \<noteq> StateIdle \<longrightarrow> stream_state st' \<noteq> StateIdle) \<and>
        (IsTerminal (stream_state st) \<longrightarrow> IsTerminal (stream_state st')))"

definition new_stream :: "session \<Rightarrow> u32 \<Rightarrow> string \<Rightarrow> stream" where
  "new_stream s i p =
     \<lparr>stream_id = i, stream_priority = default_string ''bulk'' p, stream_state = StateOpen,
      windowBytes = InitialStreamWindowBytes (session_cfg s), pendingBytes = 0,
      blocked = False, stream_buffer = [], resetReason = ''''\<rparr>"

definition opens :: "session \<Rightarrow> u32 \<Rightarrow> string \<Rightarrow> session \<Rightarrow> bool" where
  "opens s i p t \<longleftrightarrow>
     activeStreamCount s < MaxConcurrentStreams (session_cfg s) \<and>
     i = nextID s \<and> i \<noteq> 0 \<and> i \<le> MaxStreamID (session_cfg s) \<and>
     t = (put_stream s i (new_stream s i p))
       \<lparr>nextID := i + (if IDStrategy (session_cfg s) = ''sequential_odd_even'' then 2 else 1),
        openOrder := openOrder s @ [i]\<rparr>"

lemma put_stream_same_window:
  "put_stream s i st = put_stream (s\<lparr>sessionWindow := sessionWindow s\<rparr>) i st"
  by simp

lemma OpenStream_cases:
  assumes "OpenStream s p = (t, r)"
  obtains (refused) e where "r = Inl e" and "t = s"
  | (opened) i where "r = Inr i" and "opens s i p t"
proof (cases "activeStreamCount s \<ge> MaxConcurrentStreams (session_cfg s)")
  case True
  then show ?thesis using assms refused by (auto simp: OpenStream_def)
next
  case False
  show ?thesis
  proof (cases "nextID s = 0 \<or> nextID s > MaxStreamID (session_cfg s)")
    case True
    then show ?thesis using assms refused False by (auto simp: OpenStream_def allocateID_def)
  next
    case valid: False
    then have "opens s (nextID s) p t \<and> r = Inr (nextID s)"
      using assms False
      by (auto simp: OpenStream_def allocateID_def opens_def put_stream_def new_stream_def
          Let_def not_less split: if_splits)
    then show ?thesis using opened by blast
  qed
qed

lemma touches_refl [simp]: "touches s s"
  by (simp add: touches_def)

lemma touchesI:
  assumes "lookup_stream s i = Some st" and "stream_id st' = stream_id st"
    and "stream_state st \<noteq> StateIdle \<longrightarrow> stream_state st' \<noteq> StateIdle"
    and "IsTerminal (stream_state st) \<longrightarrow> IsTerminal (stream_state st')"
  shows "touches s (put_stream s i st')"
    and "touches s (put_stream (s\<lparr>sessionWindow := w\<rparr>) i st')"
  using assms put_stream_same_window [of s i st'] unfolding touches_def by blast+

lemma WriteData_touches: "touches s (fst (WriteData s i p))"
  by (auto simp: WriteData_def Let_def split: option.split intro: touchesI)

lemma ReadData_touches: "touches s (fst (ReadData s i))"
  by (auto simp: ReadData_def split: option.split intro: touchesI)

lemma CloseLocal_touches: "touches s (fst (CloseLocal s i))"
  by (auto simp: CloseLocal_def IsTerminal_def split: option.split stream_state.split
      intro!: touchesI)

lemma CloseRemote_touches: "touches s (fst (CloseRemote s i))"
  by (auto simp: CloseRemote_def IsTerminal_def split: option.split stream_state.split
      intro!: touchesI)

lemma Reset_touches: "touches s (fst (Reset s i reason))"
  by (auto simp: Reset_def IsTerminal_def split: option.split intro!: touchesI)

lemma WindowUpdate_touches: "touches s (fst (WindowUpdate s i c))"
  by (auto simp: WindowUpdate_def Let_def split: option.split intro!: touchesI)

lemmas method_touches =
  WriteData_touches ReadData_touches CloseLocal_touches CloseRemote_touches
  Reset_touches WindowUpdate_touches

lemma apply_op_cases:
  assumes "apply_op s x = (t, r)"
  obtains (touches) "touches s t" and "opened_event (x, r) = []"
  | (opened) i p where "x = OpOpen p" and "r = ReplyOpen (Inr i)" and "opens s i p t"
proof (cases "\<exists>p. x = OpOpen p")
  case True
  then obtain p r' where x: "x = OpOpen p" and op: "OpenStream s p = (t, r')"
    and r: "r = ReplyOpen r'"
    using assms by (auto split: prod.splits)
  from op show ?thesis
    by (cases rule: OpenStream_cases) (use x r touches opened in auto)
next
  case False
  then have "touches s (fst (apply_op s x))"
    by (cases x) (use method_touches in \<open>auto simp: split_beta\<close>)
  moreover have "opened_event (x, r) = []" using False by (cases x) auto
  ultimately show ?thesis using touches assms by simp
qed

section \<open>Structure is invariant\<close>

lemma live_count_update:
  assumes "distinct (map fst al)" and "map_of al i = Some st" and "P st' \<longrightarrow> P st"
  shows "length (filter (\<lambda>(_, x). P x) (AList.update i st' al)) \<le> length (filter (\<lambda>(_, x). P x) al)"
  using assms
proof (induction al)
  case Nil
  then show ?case by simp
next
  case (Cons a al)
  then show ?case by (cases a) (auto split: if_splits)
qed

lemma session_inv_touches:
  assumes inv: "session_inv s" and step: "touches s t"
  shows "session_inv t"
proof (cases "t = s")
  case True
  then show ?thesis using inv by simp
next
  case False
  then obtain i st st' w where look: "lookup_stream s i = Some st"
    and t: "t = put_stream (s\<lparr>sessionWindow := w\<rparr>) i st'"
    and keep: "stream_id st' = stream_id st"
      "stream_state st \<noteq> StateIdle \<longrightarrow> stream_state st' \<noteq> StateIdle"
      "IsTerminal (stream_state st) \<longrightarrow> IsTerminal (stream_state st')"
    using step by (auto simp: touches_def)
  have m: "map_of (streams s) i = Some st" using look by (simp add: lookup_stream_def)
  have d: "distinct (map fst (streams s))" using inv unfolding session_inv_def by blast
  have keys: "map fst (AList.update i st' (streams s)) = map fst (streams s)"
    using m by (rule map_fst_update_present)
  have old: "stream_id st = i" "stream_state st \<noteq> StateIdle"
    using inv map_of_SomeD [OF m] by (auto simp: session_inv_def)
  have elems: "\<forall>(j, u) \<in> set (AList.update i st' (streams s)). stream_id u = j \<and> stream_state u \<noteq> StateIdle"
    using inv keep old by (auto simp: update_present [OF d m] session_inv_def split: if_splits)
  have "activeStreamCount t \<le> activeStreamCount s"
    using live_count_update [OF d m, of "\<lambda>st. stream_state st \<noteq> StateClosed \<and> stream_state st \<noteq> StateReset" st']
      keep by (auto simp: activeStreamCount_def t put_stream_def IsTerminal_def)
  then have "activeStreamCount t \<le> MaxConcurrentStreams (session_cfg s)"
    using inv by (simp add: session_inv_def)
  moreover have "streams t = AList.update i st' (streams s)" "openOrder t = openOrder s"
    "session_cfg t = session_cfg s"
    by (simp_all add: t put_stream_def)
  ultimately show ?thesis
    using inv keys elems by (simp only: session_inv_def simp_thms) blast
qed

lemma touches_fields: "touches s t \<Longrightarrow> openOrder t = openOrder s \<and> nextID t = nextID s \<and> session_cfg t = session_cfg s"
  by (auto simp: touches_def)

lemma odd_unat: "odd (unat (w :: u32)) = odd w"
  by transfer (auto simp: even_nat_iff even_take_bit_eq)

lemma next_id_grows:
  assumes "i \<noteq> 0" and "i \<le> m" and "k = 1 \<or> k = 2 \<and> odd i \<and> m \<noteq> - 1"
  shows "i + k = (0 :: u32) \<or> i < i + k"
proof -
  have top: "unat (- 1 :: u32) = 2 ^ 32 - 1" by (simp add: unsigned_minus_1_eq_mask mask_eq_exp_minus_1)
  have bound: "unat i < 2 ^ 32" using unsigned_less [where w = i and 'a = nat] by simp
  show ?thesis
  proof (cases "i = - 1")
    case True
    then have "m = - 1" using assms(2) by (simp add: order_antisym)
    then show ?thesis using assms(3) True by simp
  next
    case False
    then have "unat i \<noteq> unat (- 1 :: u32)" using unsigned_word_eqI by blast
    then have "unat i < 2 ^ 32 - 1" using bound top by linarith
    moreover have "odd (unat i) = odd i" by (simp add: odd_unat)
    moreover have "odd (unat i) \<Longrightarrow> unat i \<noteq> 4294967294" by auto
    ultimately have "unat i + unat k < 2 ^ 32" using assms(3) by auto
    moreover have "0 < unat k" using assms(3) by auto
    ultimately show ?thesis by (simp add: word_less_nat_alt unat_word_ariths)
  qed
qed

lemma count_update_le:
  "length (filter (\<lambda>(_, x). P x) (AList.update i st al)) \<le> Suc (length (filter (\<lambda>(_, x). P x) al))"
proof (induction al)
  case Nil
  then show ?case by simp
next
  case (Cons a al)
  then show ?case by (cases a) auto
qed

lemma session_inv_opens:
  assumes inv: "session_inv s" and step: "opens s i p t"
  shows "session_inv t"
proof -
  have i: "i \<noteq> 0" "i \<le> MaxStreamID (session_cfg s)"
    using step by (auto simp: opens_def)
  have parts: "streams t = AList.update i (new_stream s i p) (streams s)" "openOrder t = openOrder s @ [i]"
    "session_cfg t = session_cfg s"
    using step by (simp_all add: opens_def put_stream_def)
  have d: "distinct (map fst (streams s))" and keys: "set (map fst (streams s)) = set (openOrder s)"
    using inv unfolding session_inv_def by blast+
  have order: "map fst (streams t) = openOrder t" if "distinct (openOrder t)"
  proof -
    have "i \<notin> set (map fst (streams s))" "distinct (openOrder s)"
      using that unfolding keys parts by auto
    then have "map_of (streams s) i = None" "map fst (streams s) = openOrder s"
      using inv unfolding session_inv_def by (simp add: map_of_eq_None_iff, blast)
    then show ?thesis by (simp add: parts update_absent)
  qed
  have elems: "\<forall>(j, u) \<in> set (streams t). stream_id u = j \<and> stream_state u \<noteq> StateIdle"
    using inv by (auto simp: parts session_inv_def new_stream_def dest!: set_update_cases)
  have "activeStreamCount s < MaxConcurrentStreams (session_cfg s)"
    using step by (simp add: opens_def)
  then have "activeStreamCount t \<le> MaxConcurrentStreams (session_cfg t)"
    using count_update_le [of "\<lambda>st. stream_state st \<noteq> StateClosed \<and> stream_state st \<noteq> StateReset" i
      "new_stream s i p" "streams s"] by (simp add: activeStreamCount_def parts)
  moreover have "distinct (map fst (streams t))"
    using d by (simp add: parts distinct_update)
  moreover have "set (map fst (streams t)) = set (openOrder t)"
    using keys by (simp add: parts dom_update)
  ultimately show ?thesis
    using inv i elems order by (auto simp: session_inv_def parts simp del: set_map)
qed

lemma fresh_lookup:
  "session_inv s \<Longrightarrow> i \<notin> set (openOrder s) \<Longrightarrow> lookup_stream s i = None"
  unfolding session_inv_def lookup_stream_def map_of_eq_None_iff by (metis list.set_map)

lemma lookup_opened:
  "session_inv s \<Longrightarrow> lookup_stream s i = Some st \<Longrightarrow> i \<in> set (openOrder s) \<and> stream_id st = i"
proof -
  assume inv: "session_inv s" and "lookup_stream s i = Some st"
  then have "(i, st) \<in> set (streams s)" by (simp add: lookup_stream_def map_of_SomeD)
  moreover from this have "i \<in> set (map fst (streams s))" by force
  ultimately show ?thesis using inv unfolding session_inv_def by blast
qed

lemma session_inv_apply: "session_inv s \<Longrightarrow> apply_op s x = (t, r) \<Longrightarrow> session_inv t"
  by (erule apply_op_cases) (erule (1) session_inv_touches, erule (1) session_inv_opens)

lemma session_inv_init: "session_init s \<Longrightarrow> session_inv s"
  by (auto simp: session_init_def session_inv_def NewSession_def Let_def activeStreamCount_def
      split: if_splits)

lemma NewSession_inv: "NewSession cfg = Inr s \<Longrightarrow> session_inv s"
  by (rule session_inv_init) (auto simp: session_init_def)

interpretation sess: invariant_system session_init session_step session_inv
  by unfold_locales (erule session_inv_init, erule session_step.cases, blast dest: session_inv_apply)

text \<open>The configuration never changes, and with safe ids no id is handed out twice.\<close>

lemma opens_fields:
  "opens s i p t \<Longrightarrow> openOrder t = openOrder s @ [i] \<and> session_cfg t = session_cfg s \<and> i = nextID s"
  by (simp add: opens_def)

lemma fresh_opens:
  assumes "safe_ids (session_cfg s)" and inv: "fresh_inv s" and step: "opens s i p t"
  shows "fresh_inv t" and "i \<notin> set (openOrder s)"
proof -
  let ?odd = "IDStrategy (session_cfg s) = ''sequential_odd_even''"
  have i: "i = nextID s" "i \<noteq> 0" "i \<le> MaxStreamID (session_cfg s)"
    and parts: "openOrder t = openOrder s @ [i]" "session_cfg t = session_cfg s"
      "nextID t = i + (if ?odd then 2 else 1)"
    using step by (auto simp: opens_def)
  have below: "\<forall>j \<in> set (openOrder s). j < i"
    using inv i by (auto simp: fresh_inv_def)
  then show new: "i \<notin> set (openOrder s)" by auto
  have grow: "nextID t = 0 \<or> i < nextID t"
    using next_id_grows [of i "MaxStreamID (session_cfg s)" "if ?odd then 2 else 1"] i assms(1) inv
    by (auto simp: parts fresh_inv_def safe_ids_def)
  then have "nextID t = 0 \<or> (\<forall>j \<in> set (openOrder t). j < nextID t)"
    using below by (auto simp: parts)
  moreover have "?odd \<Longrightarrow> odd (nextID t)"
    using inv i by (simp add: parts fresh_inv_def)
  ultimately show "fresh_inv t"
    using inv new by (simp add: fresh_inv_def parts)
qed

lemma fresh_apply:
  assumes "safe_ids (session_cfg s)" "fresh_inv s" "apply_op s x = (t, r)"
  shows "safe_ids (session_cfg t) \<and> fresh_inv t"
  using assms(3)
proof (cases rule: apply_op_cases)
  case touches
  then show ?thesis using assms touches_fields by (simp add: fresh_inv_def)
next
  case (opened i p)
  then show ?thesis using assms fresh_opens opens_fields by metis
qed

lemma fresh_init: "session_init s \<Longrightarrow> fresh_inv s"
  by (auto simp: session_init_def fresh_inv_def NewSession_def Let_def split: if_splits)

lemma apply_op_cfg: "apply_op s x = (t, r) \<Longrightarrow> session_cfg t = session_cfg s"
  by (erule apply_op_cases) (auto dest: touches_fields opens_fields)

interpretation fresh_sess: invariant_system session_init session_step
    "\<lambda>s. safe_ids (session_cfg s) \<longrightarrow> fresh_inv s"
  by unfold_locales (blast intro: fresh_init, metis session_step.cases apply_op_cfg fresh_apply)

lemma run_ops_ConsE:
  assumes "run_ops s (x # xs) = (t, log)"
  obtains u r l where "apply_op s x = (u, r)" and "run_ops u xs = (t, l)" and "log = (x, r) # l"
  using assms by (auto split: prod.splits)

lemma run_ops_reach:
  "run_ops s xs = (t, log) \<Longrightarrow> reach session_init session_step s \<Longrightarrow> reach session_init session_step t"
proof (induction xs arbitrary: s log)
  case Nil
  then show ?case by simp
next
  case (Cons x xs)
  from Cons.prems(1) obtain u r l where "apply_op s x = (u, r)" and u: "run_ops u xs = (t, l)"
    by (rule run_ops_ConsE)
  then have "reach session_init session_step u"
    using Cons.prems(2) reach_step session_step.intros by metis
  then show ?case using Cons.IH u by blast
qed

lemma session_inv_run: "run_ops s xs = (t, log) \<Longrightarrow> session_inv s \<Longrightarrow> session_inv t"
proof (induction xs arbitrary: s log)
  case Nil
  then show ?case by simp
next
  case (Cons x xs)
  then show ?case by (metis run_ops_ConsE session_inv_apply)
qed

section \<open>Flow control\<close>

text \<open>
  Under a budget \<open>B\<close> that bounds every window, no operation below wraps: a write moves
  bytes from the windows to the pending count, a read drops pending bytes and a credit
  raises the budget by what was asked for.
\<close>

lemma stream_flow_mono: "stream_flow B st \<Longrightarrow> B \<le> C \<Longrightarrow> stream_flow C st"
  by (auto simp: stream_flow_def)

lemma stream_flow_lookup: "flow_inv B s \<Longrightarrow> lookup_stream s i = Some st \<Longrightarrow> stream_flow B st"
  by (auto simp: flow_inv_def lookup_stream_def dest: map_of_SomeD)

lemma flow_inv_put:
  assumes "flow_inv B s" and "stream_flow C st" and "B \<le> C" and "C < 2 ^ 63"
    and "0 \<le> w" and "w \<le> C"
  shows "flow_inv C (put_stream (s\<lparr>sessionWindow := w\<rparr>) i st)"
  using assms
  by (auto simp: flow_inv_def put_stream_def intro: stream_flow_mono dest!: set_update_cases)

lemma flow_inv_put_same:
  assumes "flow_inv B s" and "stream_flow B st"
  shows "flow_inv B (put_stream s i st)"
  using assms flow_inv_put [of B s B st "sessionWindow s" i] by (simp add: flow_inv_def)

lemma flow_inv_mono: "flow_inv B s \<Longrightarrow> B \<le> C \<Longrightarrow> C < 2 ^ 63 \<Longrightarrow> flow_inv C s"
  by (auto simp: flow_inv_def intro: stream_flow_mono)

lemma WriteData_accepted:
  assumes "flow_inv B s" and "WriteData s i p = (t, w, None)"
  obtains st where "lookup_stream s i = Some st" and "int (length p) \<le> windowBytes st"
    and "int (length p) \<le> sessionWindow s"
    and "t = put_stream (s\<lparr>sessionWindow := sessionWindow s - int (length p)\<rparr>) i
           (st\<lparr>windowBytes := windowBytes st - int (length p),
               pendingBytes := pendingBytes st + int (length p), blocked := False,
               stream_buffer := stream_buffer st @ p\<rparr>)"
    and "BytesAccepted w = int (length p)"
proof -
  from assms(2) obtain st where st: "lookup_stream s i = Some st"
    by (auto simp: WriteData_def split: option.splits)
  note flow = stream_flow_lookup [OF assms(1) st]
  from assms(2) st have fit: "int (length p) \<le> windowBytes st" "int (length p) \<le> sessionWindow s"
    by (auto simp: WriteData_def Let_def split: if_splits)
  have ids: "int64 (windowBytes st - int (length p)) = windowBytes st - int (length p)"
    "int64 (sessionWindow s - int (length p)) = sessionWindow s - int (length p)"
    "int64 (pendingBytes st + int (length p)) = pendingBytes st + int (length p)"
    using flow fit assms(1)
    by (auto intro!: int64_id simp: in_int64_def stream_flow_def flow_inv_def)
  show ?thesis
    using that [OF st fit] assms(2) st fit
    by (auto simp: WriteData_def Let_def ids empty_write_result_def split: if_splits)
qed

lemma WriteData_refused:
  assumes "WriteData s i p = (t, w, Some e)"
  shows "t = s \<and> e \<noteq> ErrBackpressure \<or>
    (\<exists>st. lookup_stream s i = Some st \<and> t = put_stream s i (st\<lparr>blocked := True\<rparr>) \<and> e = ErrBackpressure)"
  using assms by (auto simp: WriteData_def Let_def split: option.splits if_splits)

lemma WindowUpdate_accepted:
  assumes "flow_inv B s" and "WindowUpdate s i c = (t, None)" and "B + c < 2 ^ 63"
  obtains st where "lookup_stream s i = Some st" and "0 < c"
    and "\<not> IsTerminal (stream_state st)"
    and "t = put_stream (s\<lparr>sessionWindow := sessionWindow s + c\<rparr>) i
           (st\<lparr>windowBytes := windowBytes st + c, blocked := False\<rparr>)"
proof -
  from assms(2) obtain st where st: "lookup_stream s i = Some st" and c: "0 < c"
    and live: "\<not> IsTerminal (stream_state st)"
    by (auto simp: WindowUpdate_def IsTerminal_def split: option.splits if_splits)
  note flow = stream_flow_lookup [OF assms(1) st]
  have ids: "int64 (windowBytes st + c) = windowBytes st + c"
    "int64 (sessionWindow s + c) = sessionWindow s + c"
    using flow c assms(1,3)
    by (auto intro!: int64_id simp: in_int64_def stream_flow_def flow_inv_def)
  have "0 < windowBytes st + c" "0 < sessionWindow s + c"
    using flow c assms(1) by (auto simp: stream_flow_def flow_inv_def)
  then show ?thesis
    using that [OF st c live] assms(2) st c
    by (auto simp: WindowUpdate_def Let_def ids split: if_splits)
qed

lemma WindowUpdate_refused: "WindowUpdate s i c = (t, Some e) \<Longrightarrow> t = s"
  by (auto simp: WindowUpdate_def Let_def split: option.splits if_splits)

text \<open>Closing and resetting a stream change neither windows nor buffers.\<close>

definition same_flow :: "session \<Rightarrow> session \<Rightarrow> bool" where
  "same_flow s t \<longleftrightarrow> t = s \<or> (\<exists>i st st'. lookup_stream s i = Some st \<and> t = put_stream s i st' \<and>
     windowBytes st' = windowBytes st \<and> pendingBytes st' = pendingBytes st \<and>
     stream_buffer st' = stream_buffer st)"

lemma same_flow_refl [simp]: "same_flow s s"
  by (simp add: same_flow_def)

lemma same_flowI:
  assumes "lookup_stream s i = Some st" and "windowBytes st' = windowBytes st"
    and "pendingBytes st' = pendingBytes st" and "stream_buffer st' = stream_buffer st"
  shows "same_flow s (put_stream s i st')"
  using assms unfolding same_flow_def by blast

lemma close_same_flow:
  "same_flow s (fst (CloseLocal s i))" "same_flow s (fst (CloseRemote s i))"
  "same_flow s (fst (Reset s i reason))"
  by (auto simp: CloseLocal_def CloseRemote_def Reset_def
      split: option.split stream_state.split intro: same_flowI)

lemma same_flow_keeps:
  assumes "same_flow s t"
  shows "sessionWindow t = sessionWindow s" and "buffered t i = buffered s i"
    and "stream_credit t i = stream_credit s i"
  using assms by (auto simp: same_flow_def views_lookup)

lemma same_flow_inv:
  assumes "flow_inv B s" and "same_flow s t"
  shows "flow_inv B t"
proof (cases "t = s")
  case True
  then show ?thesis using assms by simp
next
  case False
  then obtain i st st' where st: "lookup_stream s i = Some st" and t: "t = put_stream s i st'"
    and same: "windowBytes st' = windowBytes st" "pendingBytes st' = pendingBytes st"
      "stream_buffer st' = stream_buffer st"
    using assms(2) by (auto simp: same_flow_def)
  have "stream_flow B st'"
    using stream_flow_lookup [OF assms(1) st] same by (simp add: stream_flow_def)
  then show ?thesis using assms(1) t flow_inv_put_same by blast
qed

text \<open>
  The effect of one call on the windows and on the bytes of every stream, as the log
  reports it. The bytes need no bound on the windows. A call that opens a stream must not
  replace another one.
\<close>

definition opens_fresh :: "session \<Rightarrow> session_op \<times> session_reply \<Rightarrow> bool" where
  "opens_fresh s e \<longleftrightarrow> (\<forall>i \<in> set (opened_event e). lookup_stream s i = None)"

definition delivers :: "session \<Rightarrow> session_op \<times> session_reply \<Rightarrow> session \<Rightarrow> bool" where
  "delivers s e t \<longleftrightarrow>
     (\<forall>i. delivered_event i e @ buffered t i = buffered s i @ accepted_event i e)"

lemma delivers_same_flow:
  assumes "same_flow s t" and "\<And>i. delivered_event i e = []" and "\<And>i. accepted_event i e = []"
  shows "delivers s e t"
  using assms same_flow_keeps [OF assms(1)] by (simp add: delivers_def)

lemma delivers_write:
  assumes w: "WriteData s i p = (t, w, e)"
  shows "delivers s (OpWrite i p, ReplyWrite w e) t"
proof (cases e)
  case None
  then show ?thesis
    using w by (auto simp: WriteData_def Let_def delivers_def views_lookup split: option.splits if_splits)
next
  case (Some x)
  have "same_flow s t"
    using WriteData_refused [OF w [unfolded Some]] same_flowI by auto
  then show ?thesis using Some by (auto intro: delivers_same_flow)
qed

lemma delivers_credit:
  assumes "WindowUpdate s i c = (t, e)"
  shows "delivers s (OpCredit i c, ReplyDone e) t"
  using assms by (auto simp: WindowUpdate_def Let_def delivers_def views_lookup split: option.splits if_splits)

lemma delivers_open:
  assumes op: "OpenStream s p = (t, r)" and "opens_fresh s (OpOpen p, ReplyOpen r)"
  shows "delivers s (OpOpen p, ReplyOpen r) t"
  using op
proof (cases rule: OpenStream_cases)
  case (refused e)
  then show ?thesis by (auto intro: delivers_same_flow)
next
  case (opened i)
  then show ?thesis
    using assms(2) by (auto simp: opens_fresh_def delivers_def opens_def views_lookup new_stream_def)
qed

lemma apply_op_delivers:
  assumes "apply_op s x = (t, r)" and "opens_fresh s (x, r)"
  shows "delivers s (x, r) t"
proof (cases x)
  case (OpOpen p)
  then show ?thesis using assms by (auto split: prod.splits intro: delivers_open)
next
  case (OpWrite i p)
  then show ?thesis using assms by (auto split: prod.splits intro: delivers_write)
next
  case (OpRead i)
  then show ?thesis
    using assms by (auto simp: ReadData_def delivers_def views_lookup split: prod.splits option.splits)
next
  case (OpCredit i c)
  then show ?thesis using assms by (auto split: prod.splits intro: delivers_credit)
next
  case (OpCloseLocal i)
  then show ?thesis
    using assms close_same_flow(1) [of s i] by (auto simp: split_beta intro!: delivers_same_flow)
next
  case (OpCloseRemote i)
  then show ?thesis
    using assms close_same_flow(2) [of s i] by (auto simp: split_beta intro!: delivers_same_flow)
next
  case (OpReset i reason)
  then show ?thesis
    using assms close_same_flow(3) [of s i reason] by (auto simp: split_beta intro!: delivers_same_flow)
qed

definition accounts :: "int \<Rightarrow> session \<Rightarrow> session_op \<times> session_reply \<Rightarrow> session \<Rightarrow> bool" where
  "accounts B s e t \<longleftrightarrow>
     flow_inv B t \<and> sessionWindow t = sessionWindow s + credited_count e - accepted_count e \<and>
     (\<forall>i. stream_credit t i =
        stream_credit s i + credited_event i e - int (length (accepted_event i e)))"

lemma accounts_same_flow:
  assumes "flow_inv B s" and "same_flow s t"
    and "\<And>i. accepted_event i e = []" and "\<And>i. credited_event i e = 0"
    and "accepted_count e = 0" and "credited_count e = 0"
  shows "accounts B s e t"
  using assms same_flow_keeps [OF assms(2)] same_flow_inv [OF assms(1,2)]
  by (simp add: accounts_def)

lemma accounts_write:
  assumes flow: "flow_inv B s" and w: "WriteData s i p = (t, w, e)"
  shows "accounts B s (OpWrite i p, ReplyWrite w e) t"
proof (cases e)
  case None
  from flow w [unfolded None] show ?thesis
  proof (cases rule: WriteData_accepted)
    case (1 st)
    have "stream_flow B (st\<lparr>windowBytes := windowBytes st - int (length p),
        pendingBytes := pendingBytes st + int (length p), blocked := False,
        stream_buffer := stream_buffer st @ p\<rparr>)"
      using stream_flow_lookup [OF flow 1(1)] 1(2) by (simp add: stream_flow_def)
    then have "flow_inv B t"
      unfolding 1(4) using flow 1(3) by (intro flow_inv_put) (auto simp: flow_inv_def)
    then show ?thesis using 1 None by (auto simp: accounts_def views_lookup)
  qed
next
  case (Some x)
  have "same_flow s t"
    using WriteData_refused [OF w [unfolded Some]] same_flowI by auto
  then show ?thesis using flow Some by (auto intro: accounts_same_flow)
qed

lemma accounts_read:
  assumes flow: "flow_inv B s" and r: "ReadData s i = (t, b)"
  shows "accounts B s (OpRead i, ReplyRead b) t"
proof (cases "lookup_stream s i")
  case None
  then show ?thesis using flow r by (auto simp: accounts_def ReadData_def views_lookup)
next
  case (Some st)
  have "stream_flow B (st\<lparr>stream_buffer := [], pendingBytes := 0\<rparr>)"
    using stream_flow_lookup [OF flow Some] by (auto simp: stream_flow_def)
  then show ?thesis
    using flow r Some
    by (auto simp: accounts_def ReadData_def views_lookup flow_inv_put_same)
qed

lemma accounts_credit:
  assumes flow: "flow_inv B s" and c: "WindowUpdate s i c = (t, e)"
    and bound: "B + max c 0 < 2 ^ 63"
  shows "accounts (B + max c 0) s (OpCredit i c, ReplyDone e) t"
proof (cases e)
  case None
  have "B + c < 2 ^ 63" using bound by linarith
  with flow c [unfolded None] show ?thesis
  proof (cases rule: WindowUpdate_accepted)
    case (1 st)
    have "stream_flow (B + c) (st\<lparr>windowBytes := windowBytes st + c, blocked := False\<rparr>)"
      using stream_flow_lookup [OF flow 1(1)] 1(2) by (simp add: stream_flow_def)
    then have "flow_inv (B + c) t"
      unfolding 1(4) using flow 1(2) bound by (intro flow_inv_put) (auto simp: flow_inv_def)
    then show ?thesis using 1 None by (auto simp: accounts_def views_lookup)
  qed
next
  case (Some x)
  then have "t = s" using c WindowUpdate_refused by blast
  moreover have "flow_inv (B + max c 0) s" using flow_inv_mono [OF flow] bound by simp
  ultimately show ?thesis using Some by (auto intro: accounts_same_flow)
qed

lemma accounts_open:
  assumes flow: "flow_inv B s" and fresh: "opens_fresh s (OpOpen p, ReplyOpen r)"
    and op: "OpenStream s p = (t, r)"
  shows "accounts B s (OpOpen p, ReplyOpen r) t"
  using op
proof (cases rule: OpenStream_cases)
  case (refused e)
  then show ?thesis using flow by (auto intro: accounts_same_flow)
next
  case (opened i)
  have "stream_flow B (new_stream s i p)"
    using flow by (simp add: stream_flow_def new_stream_def flow_inv_def)
  then have "flow_inv B (put_stream s i (new_stream s i p))"
    using flow flow_inv_put_same by blast
  then have "flow_inv B t" using opened(2) by (simp add: opens_def flow_inv_def)
  moreover have "lookup_stream s i = None" using fresh opened(1) by (simp add: opens_fresh_def)
  ultimately show ?thesis
    using opened by (auto simp: accounts_def opens_def views_lookup new_stream_def)
qed

lemma apply_op_accounts:
  assumes "flow_inv B s" and "opens_fresh s (x, r)" and "apply_op s x = (t, r)"
    and "B + credit_request x < 2 ^ 63"
  shows "accounts (B + credit_request x) s (x, r) t"
proof (cases x)
  case (OpOpen p)
  then show ?thesis using assms by (auto split: prod.splits intro: accounts_open)
next
  case (OpWrite i p)
  then show ?thesis using assms by (auto split: prod.splits intro: accounts_write)
next
  case (OpRead i)
  then show ?thesis using assms by (auto split: prod.splits intro: accounts_read)
next
  case (OpCredit i c)
  then show ?thesis using assms accounts_credit by (auto split: prod.splits)
next
  case (OpCloseLocal i)
  then show ?thesis
    using assms close_same_flow(1) [of s i] by (auto simp: split_beta intro!: accounts_same_flow)
next
  case (OpCloseRemote i)
  then show ?thesis
    using assms close_same_flow(2) [of s i] by (auto simp: split_beta intro!: accounts_same_flow)
next
  case (OpReset i reason)
  then show ?thesis
    using assms close_same_flow(3) [of s i reason] by (auto simp: split_beta intro!: accounts_same_flow)
qed

text \<open>The ids opened by a call follow those opened before; without repetition every open is fresh.\<close>

lemma opened_apply: "apply_op s x = (t, r) \<Longrightarrow> openOrder t = openOrder s @ opened_event (x, r)"
  by (erule apply_op_cases) (auto dest: touches_fields opens_fields)

lemma opened_run:
  "run_ops s xs = (t, log) \<Longrightarrow> openOrder t = openOrder s @ concat (map opened_event log)"
proof (induction xs arbitrary: s log)
  case Nil
  then show ?case by simp
next
  case (Cons x xs)
  from Cons.prems obtain u r l where u: "apply_op s x = (u, r)" "run_ops u xs = (t, l)"
    and log: "log = (x, r) # l"
    by (rule run_ops_ConsE)
  then show ?case using Cons.IH [OF u(2)] opened_apply [OF u(1)] by simp
qed

lemma distinct_opens_fresh:
  assumes "session_inv s" "apply_op s x = (u, r)" "distinct (openOrder u)"
  shows "opens_fresh s (x, r)"
  using assms(3) opened_apply [OF assms(2)] fresh_lookup [OF assms(1)] by (auto simp: opens_fresh_def)

text \<open>A run whose final open order has no repetition, one call at a time.\<close>

lemma run_ops_fresh_ConsE:
  assumes "run_ops s (x # xs) = (t, log)" "session_inv s" "distinct (openOrder t)"
  obtains u r l where "apply_op s x = (u, r)" "run_ops u xs = (t, l)" "log = (x, r) # l"
    "session_inv u" "opens_fresh s (x, r)"
proof -
  from assms(1) obtain u r l where u: "apply_op s x = (u, r)" "run_ops u xs = (t, l)" "log = (x, r) # l"
    by (rule run_ops_ConsE)
  have "distinct (openOrder u)" using assms(3) opened_run [OF u(2)] by simp
  then show ?thesis
    using that [OF u session_inv_apply] distinct_opens_fresh assms(2) u(1) by blast
qed

lemma run_ops_delivers:
  assumes "run_ops s xs = (t, log)" "session_inv s" "distinct (openOrder t)"
  shows "concat (map (delivered_event i) log) @ buffered t i = buffered s i @ concat (map (accepted_event i) log)"
  using assms
proof (induction xs arbitrary: s log)
  case Nil
  then show ?case by simp
next
  case (Cons x xs)
  from Cons.prems obtain u r l where u: "apply_op s x = (u, r)" "run_ops u xs = (t, l)" "log = (x, r) # l"
    "session_inv u" "opens_fresh s (x, r)"
    by (rule run_ops_fresh_ConsE)
  have "delivered_event i (x, r) @ buffered u i = buffered s i @ accepted_event i (x, r)"
    using apply_op_delivers [OF u(1,5)] by (simp add: delivers_def)
  then have "delivered_event i (x, r) @ buffered u i @ concat (map (accepted_event i) l) =
      buffered s i @ accepted_event i (x, r) @ concat (map (accepted_event i) l)"
    by (metis append_assoc)
  then show ?case using Cons.IH [OF u(2,4) Cons.prems(3)] u(3) by simp
qed

definition run_accounts :: "session \<Rightarrow> (session_op \<times> session_reply) list \<Rightarrow> session \<Rightarrow> bool" where
  "run_accounts s log t \<longleftrightarrow>
     sessionWindow t =
       sessionWindow s + sum_list (map credited_count log) - sum_list (map accepted_count log) \<and>
     (\<forall>i. stream_credit t i = stream_credit s i +
        sum_list (map (credited_event i) log) - int (length (concat (map (accepted_event i) log))))"

lemma run_accounts_Cons:
  "accounts B s e u \<Longrightarrow> run_accounts u log t \<Longrightarrow> run_accounts s (e # log) t"
  by (simp add: accounts_def run_accounts_def)

lemma credit_request_nonneg: "0 \<le> credit_request x"
  by (cases x) auto

lemma credit_requests_nonneg: "0 \<le> sum_list (map credit_request xs)"
  by (rule sum_list_nonneg) (auto simp: credit_request_nonneg)

lemma run_ops_accounts:
  assumes "run_ops s xs = (t, log)" and "session_inv s" and "distinct (openOrder t)"
    and "flow_inv B s" and "B + sum_list (map credit_request xs) < 2 ^ 63"
  shows "flow_inv (B + sum_list (map credit_request xs)) t \<and> run_accounts s log t"
  using assms
proof (induction xs arbitrary: s log B)
  case Nil
  then show ?case by (simp add: run_accounts_def)
next
  case (Cons x xs)
  from Cons.prems(1-3) obtain u r l where u: "apply_op s x = (u, r)" "run_ops u xs = (t, l)"
    and log: "log = (x, r) # l" and inv: "session_inv u" and fresh: "opens_fresh s (x, r)"
    by (rule run_ops_fresh_ConsE)
  have acc: "accounts (B + credit_request x) s (x, r) u"
    using apply_op_accounts [OF Cons.prems(4) fresh u(1)] Cons.prems(5) credit_requests_nonneg [of xs]
    by simp
  have "flow_inv (B + credit_request x + sum_list (map credit_request xs)) t \<and> run_accounts u l t"
  proof (rule Cons.IH [OF u(2) inv Cons.prems(3)])
    show "flow_inv (B + credit_request x) u" using acc by (simp add: accounts_def)
    show "B + credit_request x + sum_list (map credit_request xs) < 2 ^ 63"
      using Cons.prems(5) by simp
  qed
  then show ?case using run_accounts_Cons [OF acc] log by (simp add: add.assoc)
qed

lemma NewSession_flow:
  "NewSession cfg = Inr s \<Longrightarrow> InitialSessionWindowBytes cfg < 2 ^ 63 \<Longrightarrow>
   flow_inv (InitialSessionWindowBytes cfg) s"
  by (auto simp: NewSession_def Let_def flow_inv_def split: if_splits)

lemma NewSession_fields:
  assumes "NewSession cfg = Inr s"
  shows "sessionWindow s = InitialSessionWindowBytes cfg" and "lookup_stream s i = None"
    and "buffered s i = []" and "openOrder s = []"
    and "stream_credit s i = InitialStreamWindowBytes cfg"
  using assms
  by (auto simp: NewSession_def Let_def lookup_stream_def buffered_def stream_credit_def split: if_splits)

section \<open>Stream ids and terminal states\<close>

text \<open>The run of a session with safe ids never repeats an id.\<close>

lemma session_run_reach:
  "NewSession cfg = Inr s \<Longrightarrow> run_ops s xs = (t, log) \<Longrightarrow> reach session_init session_step t"
  by (rule run_ops_reach, assumption, rule reach_init) (auto simp: session_init_def)

lemma run_ops_cfg: "run_ops s xs = (t, log) \<Longrightarrow> session_cfg t = session_cfg s"
proof (induction xs arbitrary: s log)
  case Nil
  then show ?case by simp
next
  case (Cons x xs)
  then show ?case by (metis run_ops_ConsE apply_op_cfg)
qed

lemma safe_run_distinct:
  assumes "NewSession cfg = Inr s" "safe_ids (session_cfg s)" "run_ops s xs = (t, log)"
  shows "distinct (openOrder t)"
  using fresh_sess.reach_inv [OF session_run_reach [OF assms(1,3)]] assms(2) run_ops_cfg [OF assms(3)]
  by (simp add: fresh_inv_def)

lemma opened_new_run:
  "NewSession cfg = Inr s \<Longrightarrow> run_ops s xs = (t, log) \<Longrightarrow> openOrder t = concat (map opened_event log)"
  by (simp add: opened_run NewSession_fields(4))

text \<open>
  Without safe ids the allocator comes round: opening a stream and resetting it, over and over,
  hands out the odd numbers modulo \<open>2 ^ 32\<close>.
\<close>

definition churn_id :: "nat \<Rightarrow> u32" where
  "churn_id k = word_of_nat (2 * k + 1)"

definition churn :: "nat \<Rightarrow> session_op list" where
  "churn n = concat (map (\<lambda>k. [OpOpen [], OpReset (churn_id k) []]) [0 ..< n])"

lemma churn_id_odd: "odd (churn_id k)"
  by (simp add: churn_id_def)

lemma churn_id_Suc: "churn_id k + 2 = churn_id (Suc k)"
  by (simp add: churn_id_def)

lemma churn_Suc: "churn (Suc n) = churn n @ [OpOpen [], OpReset (churn_id n) []]"
  by (simp add: churn_def)

lemma run_ops_append:
  "run_ops s (xs @ ys) =
    (case run_ops s xs of (u, l) \<Rightarrow> case run_ops u ys of (t, l') \<Rightarrow> (t, l @ l'))"
  by (induction xs arbitrary: s) (auto split: prod.splits)

lemma churn_step:
  assumes "session_cfg s = cfg" "IDStrategy cfg = ''sequential_odd_even''" "MaxStreamID cfg = - 1"
    and "0 < MaxConcurrentStreams cfg" "nextID s = churn_id n"
    and all_reset: "\<forall>(i, st) \<in> set (streams s). stream_state st = StateReset"
  shows "\<exists>t r. run_ops s [OpOpen [], OpReset (churn_id n) []] =
      (t, [(OpOpen [], ReplyOpen (Inr (churn_id n))), (OpReset (churn_id n) [], r)]) \<and>
    session_cfg t = cfg \<and> nextID t = churn_id (Suc n) \<and>
    (\<forall>(i, st) \<in> set (streams t). stream_state st = StateReset)"
proof -
  have live: "filter (\<lambda>(_, st). stream_state st \<noteq> StateClosed \<and> stream_state st \<noteq> StateReset) (streams s) = []"
    using all_reset by (auto simp: filter_empty_conv)
  have "churn_id n \<noteq> 0" using churn_id_odd [of n] by auto
  then have alloc: "allocateID s = (s\<lparr>nextID := churn_id (Suc n)\<rparr>, Inr (churn_id n))"
    using assms(1-3,5) by (simp add: allocateID_def Let_def churn_id_Suc not_less)
  have active: "\<not> activeStreamCount s \<ge> MaxConcurrentStreams (session_cfg s)"
    unfolding activeStreamCount_def live using assms(1,4) by simp
  let ?u = "put_stream (s\<lparr>nextID := churn_id (Suc n)\<rparr>) (churn_id n) (new_stream s (churn_id n) [])"
  have op: "OpenStream s [] = (?u\<lparr>openOrder := openOrder s @ [churn_id n]\<rparr>, Inr (churn_id n))"
    using active by (simp add: OpenStream_def alloc new_stream_def Let_def)
  let ?t = "put_stream (?u\<lparr>openOrder := openOrder s @ [churn_id n]\<rparr>) (churn_id n)
    ((new_stream s (churn_id n) [])\<lparr>stream_state := StateReset, resetReason := [], blocked := False\<rparr>)"
  have "Reset (?u\<lparr>openOrder := openOrder s @ [churn_id n]\<rparr>) (churn_id n) [] = (?t, None)"
    by (simp add: Reset_def)
  then have "run_ops s [OpOpen [], OpReset (churn_id n) []] =
      (?t, [(OpOpen [], ReplyOpen (Inr (churn_id n))), (OpReset (churn_id n) [], ReplyDone None)])"
    by (simp add: op)
  moreover have "\<forall>(i, st) \<in> set (streams ?t). stream_state st = StateReset"
    using all_reset by (auto simp: put_stream_def update_last dest!: set_update_cases)
  ultimately show ?thesis
    using assms(1) by (intro exI [of _ ?t] exI [of _ "ReplyDone None"]) simp
qed

lemma churn_run:
  assumes "NewSession c = Inr s" "\<not> safe_ids (session_cfg s)"
  shows "\<exists>t log. run_ops s (churn n) = (t, log) \<and> session_cfg t = session_cfg s \<and> nextID t = churn_id n \<and>
    (\<forall>(i, st) \<in> set (streams t). stream_state st = StateReset) \<and>
    concat (map opened_event log) = map churn_id [0 ..< n]"
proof (induction n)
  case 0
  then show ?case
    using assms(1) by (auto simp: churn_def churn_id_def NewSession_def Let_def split: if_splits)
next
  case (Suc n)
  then obtain t log where t: "run_ops s (churn n) = (t, log)" "session_cfg t = session_cfg s"
      "nextID t = churn_id n" "\<forall>(i, st) \<in> set (streams t). stream_state st = StateReset"
      "concat (map opened_event log) = map churn_id [0 ..< n]"
    by blast
  have cfg: "IDStrategy (session_cfg s) = ''sequential_odd_even''" "MaxStreamID (session_cfg s) = - 1"
    "0 < MaxConcurrentStreams (session_cfg s)"
    using assms by (auto simp: safe_ids_def NewSession_def Let_def split: if_splits)
  show ?case
    using churn_step [OF t(2) cfg t(3,4)] t(1,5) by (auto simp: churn_Suc run_ops_append)
qed

lemma churn_repeats:
  assumes "NewSession c = Inr s" "\<not> safe_ids (session_cfg s)" "0 < n" "churn_id n = churn_id 0"
  shows "\<not> distinct (concat (map opened_event (snd (run_ops s (churn (Suc n))))))"
proof -
  obtain t log where "run_ops s (churn (Suc n)) = (t, log)"
      "concat (map opened_event log) = map churn_id [0 ..< Suc n]"
    using churn_run [OF assms(1,2)] by blast
  moreover have "\<not> inj_on churn_id {0 ..< Suc n}"
    using assms(3,4) inj_onD [of churn_id "{0 ..< Suc n}" n 0] by auto
  ultimately show ?thesis by (simp add: distinct_map del: upt_Suc)
qed

lemma churn_id_wraps: "churn_id (2 ^ 31) = churn_id 0"
  by (simp add: churn_id_def)

definition terminal_stream :: "session \<Rightarrow> u32 \<Rightarrow> bool" where
  "terminal_stream s i \<longleftrightarrow> lookup_stream s i \<noteq> None \<and> IsTerminal (StreamState s i)"

lemma terminal_touches: "touches s t \<Longrightarrow> terminal_stream s i \<Longrightarrow> terminal_stream t i"
  by (auto simp: touches_def terminal_stream_def StreamState_def)

lemma terminal_apply:
  assumes "apply_op s x = (t, r)" and "terminal_stream s i" and "i \<notin> set (opened_event (x, r))"
  shows "terminal_stream t i"
  using assms(1)
proof (cases rule: apply_op_cases)
  case touches
  then show ?thesis using assms(2) terminal_touches by blast
next
  case (opened j p)
  then show ?thesis using assms(2,3) by (auto simp: opens_def terminal_stream_def StreamState_def)
qed

lemma accepted_event_write [simp]:
  "accepted_event i (OpWrite j p, ReplyWrite w e) = (if e = None \<and> i = j then p else [])"
  by (cases e) auto

lemma credited_event_credit [simp]:
  "credited_event i (OpCredit j c, ReplyDone e) = (if e = None \<and> i = j then c else 0)"
  by (cases e) auto

lemma terminal_methods:
  assumes "terminal_stream s i"
  shows "WriteData s i p = (s, empty_write_result i, Some ErrStreamClosed)"
    and "snd (WindowUpdate s i c) \<noteq> None"
    and "CloseLocal s i = (s, Some ErrStreamClosed)"
    and "CloseRemote s i = (s, Some ErrStreamClosed)"
  using assms
  by (auto simp: terminal_stream_def StreamState_def IsTerminal_def WriteData_def
      WindowUpdate_def CloseLocal_def CloseRemote_def)

lemma terminal_refuses_write:
  "apply_op s x = (t, r) \<Longrightarrow> terminal_stream s i \<Longrightarrow> accepted_event i (x, r) = []"
  by (cases x) (auto simp: terminal_methods(1) split: prod.splits)

lemma terminal_refuses_credit:
  "apply_op s x = (t, r) \<Longrightarrow> terminal_stream s i \<Longrightarrow> credited_event i (x, r) = 0"
  using terminal_methods(2) [of s i] by (cases x) (auto simp: split_beta split: if_splits, metis option.distinct(1))

lemma terminal_run:
  assumes "run_ops s xs = (t, log)" and "terminal_stream s i" and "i \<notin> set (concat (map opened_event log))"
  shows "terminal_stream t i \<and> concat (map (accepted_event i) log) = [] \<and>
    sum_list (map (credited_event i) log) = 0"
  using assms
proof (induction xs arbitrary: s log)
  case Nil
  then show ?case by simp
next
  case (Cons x xs)
  from Cons.prems(1) obtain u r l where u: "apply_op s x = (u, r)" "run_ops u xs = (t, l)"
    and log: "log = (x, r) # l"
    by (rule run_ops_ConsE)
  have "terminal_stream u i"
    using terminal_apply [OF u(1) Cons.prems(2)] Cons.prems(3) log by simp
  then show ?case
    using Cons.IH [OF u(2)] terminal_refuses_write [OF u(1) Cons.prems(2)] Cons.prems(3)
      terminal_refuses_credit [OF u(1) Cons.prems(2)] log by simp
qed

section \<open>The schedule\<close>

lemma schedule_candidates_filter:
  "schedule_candidates s is = filter schedulable (List.map_filter (lookup_stream s) is)"
  by (induction "is") (auto simp: List.map_filter_simps split: option.split)

text \<open>
  The order that \<^const>\<open>interactive_less\<close> follows as long as every stream is interactive or
  bulk. With a third priority it is no strict weak order: two streams of different other
  priorities are never separated, those of the same priority are.
\<close>

definition interactive_key_less :: "stream \<Rightarrow> stream \<Rightarrow> bool" where
  "interactive_key_less a b =
     (if (stream_priority a = ''interactive'') \<noteq> (stream_priority b = ''interactive'')
      then stream_priority a = ''interactive'' else stream_id a < stream_id b)"

interpretation interactive_key: strict_weak_order interactive_key_less
  by (rule strict_weak_order_lex [where f = "\<lambda>st. stream_priority st \<noteq> ''interactive''" and g = stream_id])
    (auto simp: interactive_key_less_def)

lemma interactive_two_classes:
  assumes "\<forall>st \<in> set xs. stream_priority st = ''interactive'' \<or> stream_priority st = ''bulk''"
  shows "slice_stable interactive_less xs = slice_stable interactive_key_less xs"
proof (rule slice_stable_cong)
  fix a b
  assume "a \<in> set xs" and "b \<in> set xs"
  then have "stream_priority a \<in> {''interactive'', ''bulk''}" "stream_priority b \<in> {''interactive'', ''bulk''}"
    using assms by auto
  then show "interactive_less a b = interactive_key_less a b"
    by (auto simp: interactive_less_def interactive_key_less_def)
qed

interpretation smallest_pending: strict_weak_order smallest_pending_less
  by (rule strict_weak_order_lex [where f = pendingBytes and g = stream_id])
    (auto simp: smallest_pending_less_def)

lemma candidates_ids:
  assumes "session_inv s"
  shows "map stream_id (schedule_candidates s (openOrder s)) =
    filter (\<lambda>i. case lookup_stream s i of None \<Rightarrow> False | Some st \<Rightarrow> schedulable st) (openOrder s)"
proof -
  have "map stream_id (schedule_candidates s is) =
      filter (\<lambda>i. case lookup_stream s i of None \<Rightarrow> False | Some st \<Rightarrow> schedulable st) is" for "is"
  proof (induction "is")
    case Nil
    then show ?case by simp
  next
    case (Cons i "is")
    have "lookup_stream s i = Some st \<Longrightarrow> stream_id st = i" for st
      using assms by (auto simp: session_inv_def lookup_stream_def dest!: map_of_SomeD)
    then show ?case using Cons by (auto split: option.split)
  qed
  then show ?thesis .
qed

lemma candidates_lookup:
  assumes "session_inv s" and "st \<in> set (schedule_candidates s is)"
  shows "lookup_stream s (stream_id st) = Some st" and "schedulable st"
proof -
  obtain i where i: "lookup_stream s i = Some st" and "schedulable st"
    using assms(2) by (auto simp: schedule_candidates_filter List.map_filter_def)
  then show "schedulable st" by simp
  show "lookup_stream s (stream_id st) = Some st"
    using i assms(1) by (auto simp: session_inv_def lookup_stream_def dest: map_of_SomeD)
qed

lemma schedule_perm:
  "mset (ScheduleActiveStreams s) = mset (map stream_id (schedule_candidates s (openOrder s)))"
  by (simp add: ScheduleActiveStreams_def Let_def)

lemma sorted_wrt_map_mono:
  "sorted_wrt R xs \<Longrightarrow> (\<And>x y. x \<in> set xs \<Longrightarrow> y \<in> set xs \<Longrightarrow> R x y \<Longrightarrow> Q (f x) (f y)) \<Longrightarrow>
   sorted_wrt Q (map f xs)"
  by (induction xs) auto

section \<open>Properties\<close>

definition sample_config :: session_config where
  "sample_config =
     \<lparr>IDStrategy = '''', IDEncodingMode = ''varint'', MaxConcurrentStreams = 2,
      InitialStreamWindowBytes = 4, InitialSessionWindowBytes = 6, WindowUpdatePolicy = '''',
      PriorityPolicy = ''interactive_first'', ClosePolicy = '''', ResetPolicy = '''',
      MaxStreamID = 0\<rparr>"

definition sample_session :: session where
  "sample_session =
     \<lparr>session_cfg = sample_config\<lparr>MaxStreamID := 16777216,
        IDStrategy := ''sequential_odd_even'', ClosePolicy := ''explicit_close'',
        ResetPolicy := ''immediate_reset''\<rparr>,
      nextID = 1, sessionWindow = 6, streams = [], openOrder = []\<rparr>"

definition sample_ops :: "session_op list" where
  "sample_ops = [OpOpen ''bulk'', OpOpen ''interactive'', OpWrite 1 [10, 11, 12], OpRead 1,
     OpWrite 3 [7], OpCredit 1 5, OpWrite 1 [13], OpCloseLocal 3, OpCloseRemote 3]"

lemma sample_session_new: "NewSession sample_config = Inr sample_session"
  by (simp add: sample_session_def NewSession_def sample_config_def Let_def default_string_def)

lemma sample_session_safe: "safe_ids (session_cfg sample_session)"
  by (simp add: sample_session_def sample_config_def safe_ids_def)

lemma sample_session_init: "session_init sample_session"
  using sample_session_new by (auto simp: session_init_def)

definition sample_end :: session where
  "sample_end = fst (run_ops sample_session sample_ops)"

definition sample_log :: "(session_op \<times> session_reply) list" where
  "sample_log = snd (run_ops sample_session sample_ops)"

lemma sample_run: "run_ops sample_session sample_ops = (sample_end, sample_log)"
  by (simp add: sample_end_def sample_log_def)

lemma sample_reach: "reach session_init session_step sample_end"
  by (rule run_ops_reach [OF sample_run]) (rule reach_init, rule sample_session_init)

text \<open>
  C1: In every state a session reaches through its methods, the stream table has exactly one entry
  per opened id, the ids lie within 1 to \<open>MaxStreamID\<close>, every stream carries its own id, none
  is idle, and at most \<open>MaxConcurrentStreams\<close> are live. With safe ids, that is unless the
  two-step allocator has the largest 32-bit number as its maximum, no id was opened twice and
  the table lists the ids in the order they were opened.
\<close>

theorem session_structure:
  assumes "reach session_init session_step s"
  shows "distinct (map fst (streams s)) \<and> set (map fst (streams s)) = set (openOrder s) \<and>
    (\<forall>(i, st) \<in> set (streams s). stream_id st = i \<and> stream_state st \<noteq> StateIdle \<and>
       i \<noteq> 0 \<and> i \<le> MaxStreamID (session_cfg s)) \<and>
    activeStreamCount s \<le> MaxConcurrentStreams (session_cfg s) \<and>
    (safe_ids (session_cfg s) \<longrightarrow> distinct (openOrder s) \<and> map fst (streams s) = openOrder s)"
proof -
  have inv: "session_inv s" using sess.reach_inv assms .
  then have "set (openOrder s) = fst ` set (streams s)" unfolding session_inv_def by (metis list.set_map)
  then have "\<forall>(i, st) \<in> set (streams s). i \<in> set (openOrder s)" by force
  moreover have "safe_ids (session_cfg s) \<longrightarrow> distinct (openOrder s)"
    using fresh_sess.reach_inv [OF assms] by (simp add: fresh_inv_def)
  ultimately show ?thesis using inv unfolding session_inv_def by blast
qed

theorem session_structure_witness:
  "reach session_init session_step sample_end \<and> openOrder sample_end = [1, 3] \<and>
   distinct (openOrder sample_end) \<and>
   activeStreamCount sample_end \<le> MaxConcurrentStreams (session_cfg sample_end)"
proof -
  have "openOrder sample_end = [1, 3]" by code_simp
  moreover have "safe_ids (session_cfg sample_end)" by code_simp
  ultimately show ?thesis using session_structure [OF sample_reach] sample_reach by simp
qed

text \<open>
  C2: Flow control is exact. Over any sequence of calls on a new session, the session window is
  the initial window plus the credit granted minus the bytes accepted, and the window of every
  stream is its initial window plus its own credit minus its own accepted bytes. No window is
  ever negative, so a sender never exceeds what it was granted, and the pending count of a
  stream is the length of its buffer. Two conditions: the initial session window and the credit
  asked for together stay below \<open>2 ^ 63\<close>, since \<open>WindowUpdate\<close> does not guard its additions,
  and no id is opened twice, which safe ids guarantee.
\<close>

theorem session_flow_control:
  assumes "NewSession cfg = Inr s" and "run_ops s xs = (t, log)"
    and "safe_ids (session_cfg s) \<or> distinct (concat (map opened_event log))"
    and "InitialSessionWindowBytes cfg + sum_list (map credit_request xs) < 2 ^ 63"
  shows "sessionWindow t = InitialSessionWindowBytes cfg +
      sum_list (map credited_count log) - sum_list (map accepted_count log) \<and>
    0 \<le> sessionWindow t \<and>
    (\<forall>i st. lookup_stream t i = Some st \<longrightarrow>
       windowBytes st = InitialStreamWindowBytes cfg + sum_list (map (credited_event i) log) -
         int (length (concat (map (accepted_event i) log))) \<and>
       0 \<le> windowBytes st \<and> pendingBytes st = int (length (stream_buffer st)))"
proof -
  have once: "distinct (openOrder t)"
    using assms(3) safe_run_distinct [OF assms(1) _ assms(2)] opened_new_run [OF assms(1,2)] by metis
  have "InitialSessionWindowBytes cfg < 2 ^ 63"
    using assms(4) credit_requests_nonneg [of xs] by linarith
  note flow = NewSession_flow [OF assms(1) this]
  from run_ops_accounts [OF assms(2) NewSession_inv [OF assms(1)] once flow assms(4)]
  have acc: "run_accounts s log t"
    and post: "flow_inv (InitialSessionWindowBytes cfg + sum_list (map credit_request xs)) t"
    by auto
  have "windowBytes st = InitialStreamWindowBytes cfg + sum_list (map (credited_event i) log) -
      int (length (concat (map (accepted_event i) log)))" if "lookup_stream t i = Some st" for i st
    using acc views_lookup(2) [OF that] NewSession_fields [OF assms(1)] by (simp add: run_accounts_def)
  then show ?thesis
    using acc post NewSession_fields [OF assms(1)] stream_flow_lookup [OF post]
    by (auto simp: run_accounts_def flow_inv_def stream_flow_def)
qed

theorem session_flow_control_witness:
  "run_ops sample_session sample_ops = (sample_end, sample_log) \<and> sessionWindow sample_end = 6 \<and>
   (\<exists>st. lookup_stream sample_end 1 = Some st \<and> windowBytes st = 5)"
proof -
  have bound: "InitialSessionWindowBytes sample_config + sum_list (map credit_request sample_ops) < 2 ^ 63"
    by (simp add: sample_config_def sample_ops_def)
  have counts: "sum_list (map accepted_count sample_log) = 5" "sum_list (map credited_count sample_log) = 5"
    "sum_list (map (credited_event 1) sample_log) = 5"
    "concat (map (accepted_event 1) sample_log) = [10, 11, 12, 13]"
    "map_option stream_id (lookup_stream sample_end 1) = Some 1"
    by code_simp+
  then obtain st where st: "lookup_stream sample_end 1 = Some st" by auto
  show ?thesis
    using session_flow_control [OF sample_session_new sample_run disjI1 [OF sample_session_safe] bound] counts st
    by (simp add: sample_run) (simp add: sample_config_def)
qed

text \<open>
  C3: Streams deliver exactly what they accepted. Over any sequence of calls on a new session
  and for every stream, the bytes its reads returned followed by the bytes still buffered are
  the payloads of its accepted writes, in order, none lost, repeated or taken from another
  stream, however the calls of different streams interleave and whatever credit is granted. The
  one condition is that no id is opened twice, which safe ids guarantee: a second stream of an
  id replaces the first with its buffer.
\<close>

theorem session_delivery:
  assumes "NewSession cfg = Inr s" and "run_ops s xs = (t, log)"
    and "safe_ids (session_cfg s) \<or> distinct (concat (map opened_event log))"
  shows "concat (map (delivered_event i) log) @ buffered t i = concat (map (accepted_event i) log)"
proof -
  have "distinct (openOrder t)"
    using assms(3) safe_run_distinct [OF assms(1) _ assms(2)] opened_new_run [OF assms(1,2)] by metis
  from run_ops_delivers [OF assms(2) NewSession_inv [OF assms(1)] this] show ?thesis
    using NewSession_fields(3) [OF assms(1)] by simp
qed

theorem session_delivery_witness:
  "concat (map (delivered_event 1) sample_log) = [10, 11, 12] \<and> buffered sample_end 1 = [13] \<and>
   concat (map (accepted_event 1) sample_log) = [10, 11, 12, 13]"
proof -
  have "concat (map (delivered_event 1) sample_log) = [10, 11, 12]" "buffered sample_end 1 = [13]"
    by code_simp+
  then show ?thesis
    using session_delivery [OF sample_session_new sample_run disjI1 [OF sample_session_safe], of 1] by simp
qed

text \<open>
  C8: Exactly the sessions with safe ids never hand out an id twice. When the strategy is not
  \<open>sequential_odd_even\<close> or the maximum id is not the largest 32-bit number, the ids
  \<open>OpenStream\<close> returns over any run are pairwise different, even when streams were closed or
  reset in between; in the remaining configuration, which \<open>NewSession\<close> accepts, the counter
  wraps to 1 and some run is handed the same id again. In every configuration the ids lie
  within 1 to \<open>MaxStreamID\<close>.
\<close>

theorem session_fresh_ids:
  assumes "NewSession cfg = Inr s"
  shows "((\<forall>xs. distinct (concat (map opened_event (snd (run_ops s xs))))) \<longleftrightarrow> safe_ids (session_cfg s)) \<and>
    (\<forall>xs. \<forall>i \<in> set (concat (map opened_event (snd (run_ops s xs)))). i \<noteq> 0 \<and> i \<le> MaxStreamID (session_cfg s))"
proof -
  have opened: "openOrder (fst (run_ops s xs)) = concat (map opened_event (snd (run_ops s xs)))" for xs
    by (rule opened_new_run [OF assms prod.collapse [symmetric]])
  have "distinct (concat (map opened_event (snd (run_ops s xs))))" if "safe_ids (session_cfg s)" for xs
    using safe_run_distinct [OF assms that prod.collapse [symmetric], of xs] opened by metis
  moreover have "\<exists>xs. \<not> distinct (concat (map opened_event (snd (run_ops s xs))))"
    if "\<not> safe_ids (session_cfg s)"
    by (rule exI, rule churn_repeats [OF assms that _ churn_id_wraps]) simp
  moreover have "\<forall>i \<in> set (openOrder (fst (run_ops s xs))). i \<noteq> 0 \<and> i \<le> MaxStreamID (session_cfg s)" for xs
    using sess.reach_inv [OF session_run_reach [OF assms prod.collapse [symmetric], of xs]]
      run_ops_cfg [OF prod.collapse [symmetric], of s xs] unfolding session_inv_def by metis
  ultimately show ?thesis unfolding opened by metis
qed

definition wrapping_session :: session where
  "wrapping_session = sample_session\<lparr>session_cfg := (session_cfg sample_session)\<lparr>MaxStreamID := - 1\<rparr>\<rparr>"

lemma wrapping_session_new: "NewSession (sample_config\<lparr>MaxStreamID := - 1\<rparr>) = Inr wrapping_session"
  by (simp add: wrapping_session_def sample_session_def NewSession_def sample_config_def Let_def default_string_def)

theorem session_fresh_ids_witness:
  "(\<forall>xs. distinct (concat (map opened_event (snd (run_ops sample_session xs))))) \<and>
   (\<exists>xs. \<not> distinct (concat (map opened_event (snd (run_ops wrapping_session xs)))))"
proof -
  have "\<not> safe_ids (session_cfg wrapping_session)"
    by (simp add: wrapping_session_def sample_session_def sample_config_def safe_ids_def)
  then show ?thesis
    using session_fresh_ids [OF sample_session_new] session_fresh_ids [OF wrapping_session_new]
      sample_session_safe by blast
qed

text \<open>
  C9: In every reachable state, a closed or reset stream stays closed or reset for the rest of the
  session's life, and from then on the session accepts no bytes and no credit for it. The one
  condition is that its id is not opened again, which safe ids guarantee.
\<close>

theorem session_terminal:
  assumes "reach session_init session_step s" and "IsTerminal (StreamState s i)"
    and "run_ops s xs = (t, log)"
    and "safe_ids (session_cfg s) \<or> i \<notin> set (concat (map opened_event log))"
  shows "IsTerminal (StreamState t i) \<and> concat (map (accepted_event i) log) = [] \<and>
    sum_list (map (credited_event i) log) = 0"
proof -
  have closed: "terminal_stream s i"
    using assms(2) by (auto simp: terminal_stream_def StreamState_def IsTerminal_def split: option.splits)
  then have old: "i \<in> set (openOrder s)"
    using lookup_opened [OF sess.reach_inv [OF assms(1)]] by (auto simp: terminal_stream_def)
  have "i \<notin> set (concat (map opened_event log))" if "safe_ids (session_cfg s)"
  proof -
    have "distinct (openOrder t)"
      using fresh_sess.reach_inv [OF run_ops_reach [OF assms(3,1)]] that run_ops_cfg [OF assms(3)]
      by (simp add: fresh_inv_def)
    then show ?thesis using old unfolding opened_run [OF assms(3)] by auto
  qed
  then show ?thesis
    using terminal_run [OF assms(3) closed] assms(4) by (auto simp: terminal_stream_def)
qed

theorem session_terminal_witness:
  "IsTerminal (StreamState (fst (run_ops sample_end [OpWrite 3 [1], OpCredit 3 9])) 3)"
proof -
  have "IsTerminal (StreamState sample_end 3)" "safe_ids (session_cfg sample_end)" by code_simp+
  then show ?thesis
    using session_terminal [OF sample_reach _ prod.collapse [symmetric], of 3 "[OpWrite 3 [1], OpCredit 3 9]"]
    by simp
qed

text \<open>
  C10: In every reachable state, under every priority policy, the schedule lists the streams that
  are neither blocked nor terminal and no other id. With safe ids it lists each exactly once.
  Under a policy the code has no comparator for, it lists them in the order they were opened.
\<close>

theorem schedule_complete:
  assumes "reach session_init session_step s"
  shows "set (ScheduleActiveStreams s) = {i. \<exists>st. lookup_stream s i = Some st \<and> \<not> blocked st \<and>
      \<not> IsTerminal (stream_state st)} \<and>
    (safe_ids (session_cfg s) \<longrightarrow> distinct (ScheduleActiveStreams s)) \<and>
    (PriorityPolicy (session_cfg s) \<notin>
       {''interactive_first'', ''smallest_pending_first'', ''weighted_round_robin''} \<longrightarrow>
     ScheduleActiveStreams s = filter (\<lambda>i. i \<in> set (ScheduleActiveStreams s)) (openOrder s))"
proof -
  have inv: "session_inv s" using sess.reach_inv assms .
  let ?ok = "\<lambda>i. case lookup_stream s i of None \<Rightarrow> False | Some st \<Rightarrow> schedulable st"
  have perm: "mset (ScheduleActiveStreams s) = mset (filter ?ok (openOrder s))"
    unfolding schedule_perm candidates_ids [OF inv] ..
  have "distinct (ScheduleActiveStreams s)" if "safe_ids (session_cfg s)"
    using perm fresh_sess.reach_inv [OF assms] that
    by (metis distinct_filter mset_eq_imp_distinct_iff fresh_inv_def)
  moreover have elems: "set (ScheduleActiveStreams s) = set (filter ?ok (openOrder s))"
    using perm by (rule mset_eq_setD)
  moreover have "\<dots> = {i. \<exists>st. lookup_stream s i = Some st \<and> \<not> blocked st \<and>
      \<not> IsTerminal (stream_state st)}"
    using lookup_opened [OF inv] by (auto simp: schedulable_def IsTerminal_def split: option.splits)
  moreover have "ScheduleActiveStreams s = filter ?ok (openOrder s)"
    if "PriorityPolicy (session_cfg s) \<notin>
       {''interactive_first'', ''smallest_pending_first'', ''weighted_round_robin''}"
    using that candidates_ids [OF inv] by (simp add: ScheduleActiveStreams_def Let_def)
  moreover have "filter (\<lambda>i. i \<in> set (filter ?ok (openOrder s))) (openOrder s) = filter ?ok (openOrder s)"
    by (rule filter_cong) auto
  ultimately show ?thesis by simp
qed

theorem schedule_complete_witness:
  "ScheduleActiveStreams sample_end = [1] \<and> distinct (ScheduleActiveStreams sample_end)"
proof -
  have "ScheduleActiveStreams sample_end = [1]" by code_simp
  moreover have "safe_ids (session_cfg sample_end)" by code_simp
  ultimately show ?thesis using schedule_complete [OF sample_reach] by blast
qed

text \<open>
  C11: With \<open>smallest_pending_first\<close> the schedule is ordered by pending bytes, ties by id. With
  \<open>interactive_first\<close> and with \<open>weighted_round_robin\<close>, when every stream is interactive or
  bulk, all interactive streams come before all bulk streams, each class by id.
\<close>

theorem schedule_ordered:
  assumes "reach session_init session_step s"
  shows "(PriorityPolicy (session_cfg s) = ''smallest_pending_first'' \<longrightarrow>
      sorted_wrt (\<lambda>i j. PendingBytes (lookup_stream s i) < PendingBytes (lookup_stream s j) \<or>
        PendingBytes (lookup_stream s i) = PendingBytes (lookup_stream s j) \<and> i \<le> j)
        (ScheduleActiveStreams s)) \<and>
    (PriorityPolicy (session_cfg s) \<in> {''interactive_first'', ''weighted_round_robin''} \<and>
     (\<forall>(i, st) \<in> set (streams s). stream_priority st = ''interactive'' \<or> stream_priority st = ''bulk'') \<longrightarrow>
      sorted_wrt (\<lambda>i j.
        map_option stream_priority (lookup_stream s i) = Some ''interactive'' \<and>
        map_option stream_priority (lookup_stream s j) = Some ''bulk'' \<or>
        map_option stream_priority (lookup_stream s i) =
        map_option stream_priority (lookup_stream s j) \<and> i \<le> j)
        (ScheduleActiveStreams s))"
proof -
  have inv: "session_inv s" using sess.reach_inv assms .
  let ?c = "schedule_candidates s (openOrder s)"
  note look = candidates_lookup [OF inv, of _ "openOrder s"]
  { assume "PriorityPolicy (session_cfg s) = ''smallest_pending_first''"
    then have sched: "ScheduleActiveStreams s = map stream_id (slice_stable smallest_pending_less ?c)"
      by (simp add: ScheduleActiveStreams_def Let_def)
    have "sorted_wrt (\<lambda>i j. PendingBytes (lookup_stream s i) < PendingBytes (lookup_stream s j) \<or>
        PendingBytes (lookup_stream s i) = PendingBytes (lookup_stream s j) \<and> i \<le> j)
        (ScheduleActiveStreams s)"
      unfolding sched
      by (rule sorted_wrt_map_mono [OF smallest_pending.sorted_slice_stable])
        (auto simp: look PendingBytes_def smallest_pending_less_def split: if_splits) }
  moreover
  { assume pol: "PriorityPolicy (session_cfg s) \<in> {''interactive_first'', ''weighted_round_robin''}"
      and two: "\<forall>(i, st) \<in> set (streams s). stream_priority st = ''interactive'' \<or> stream_priority st = ''bulk''"
    have cls: "st \<in> set ?c \<Longrightarrow> stream_priority st = ''interactive'' \<or> stream_priority st = ''bulk''" for st
      using two look(1) [of st] by (auto simp: lookup_stream_def dest!: map_of_SomeD)
    have sched: "ScheduleActiveStreams s = map stream_id (slice_stable interactive_key_less ?c)"
      using pol interactive_two_classes [of ?c] cls by (auto simp: ScheduleActiveStreams_def Let_def)
    have "sorted_wrt (\<lambda>i j.
        map_option stream_priority (lookup_stream s i) = Some ''interactive'' \<and>
        map_option stream_priority (lookup_stream s j) = Some ''bulk'' \<or>
        map_option stream_priority (lookup_stream s i) =
        map_option stream_priority (lookup_stream s j) \<and> i \<le> j) (ScheduleActiveStreams s)"
      unfolding sched
    proof (rule sorted_wrt_map_mono [OF interactive_key.sorted_slice_stable])
      fix a b
      assume a: "a \<in> set (slice_stable interactive_key_less ?c)"
        and b: "b \<in> set (slice_stable interactive_key_less ?c)" and "\<not> interactive_key_less b a"
      then show "map_option stream_priority (lookup_stream s (stream_id a)) = Some ''interactive'' \<and>
          map_option stream_priority (lookup_stream s (stream_id b)) = Some ''bulk'' \<or>
          map_option stream_priority (lookup_stream s (stream_id a)) =
          map_option stream_priority (lookup_stream s (stream_id b)) \<and> stream_id a \<le> stream_id b"
        using cls [of a] cls [of b] by (auto simp: look interactive_key_less_def)
    qed }
  ultimately show ?thesis by blast
qed

theorem schedule_ordered_witness:
  "\<exists>s. reach session_init session_step s \<and> ScheduleActiveStreams s = [3, 1] \<and>
     sorted_wrt (\<lambda>i j.
       map_option stream_priority (lookup_stream s i) = Some ''interactive'' \<and>
       map_option stream_priority (lookup_stream s j) = Some ''bulk'' \<or>
       map_option stream_priority (lookup_stream s i) =
       map_option stream_priority (lookup_stream s j) \<and> i \<le> j)
       (ScheduleActiveStreams s)"
proof -
  let ?s = "fst (run_ops sample_session [OpOpen ''bulk'', OpOpen ''interactive''])"
  have reach: "reach session_init session_step ?s"
    by (rule run_ops_reach [OF prod.collapse [symmetric]]) (rule reach_init, rule sample_session_init)
  have "PriorityPolicy (session_cfg ?s) = ''interactive_first''"
    "\<forall>(i, st) \<in> set (streams ?s). stream_priority st = ''interactive'' \<or> stream_priority st = ''bulk''"
    "ScheduleActiveStreams ?s = [3, 1]"
    by code_simp+
  then show ?thesis using schedule_ordered [OF reach] reach by (intro exI [of _ ?s]) simp
qed

text \<open>
  C12: \<open>WindowUpdate\<close> does not guard its additions. A credit that takes a live stream's window
  past the largest 64-bit integer is accepted and leaves the stream with a negative window,
  after which even an empty write is refused as backpressure.
\<close>

theorem window_update_overflow:
  assumes "lookup_stream s i = Some st" and "\<not> IsTerminal (stream_state st)"
    and "stream_state st \<noteq> StateHalfClosedLocal" and "windowBytes st < 2 ^ 63" and "0 < credit"
    and "credit < 2 ^ 63" and "2 ^ 63 \<le> windowBytes st + credit"
  shows "\<exists>t. WindowUpdate s i credit = (t, None) \<and> StreamWindow t i < 0 \<and>
    snd (snd (WriteData t i [])) = Some ErrBackpressure"
proof -
  have "int64 (windowBytes st + credit) = windowBytes st + credit - 2 ^ 64"
    using assms(4,6,7) by (intro int64_wrap) auto
  then show ?thesis
    using assms
    by (auto simp: WindowUpdate_def IsTerminal_def StreamWindow_def WriteData_def Let_def)
qed

theorem window_update_overflow_witness:
  "\<exists>t. WindowUpdate sample_end 1 (2 ^ 63 - 1) = (t, None) \<and> StreamWindow t 1 < 0 \<and>
    snd (snd (WriteData t 1 [])) = Some ErrBackpressure"
proof -
  have "map_option (\<lambda>st. (stream_state st, windowBytes st)) (lookup_stream sample_end 1) =
      Some (StateOpen, 5)"
    by code_simp
  then obtain st where "lookup_stream sample_end 1 = Some st" "stream_state st = StateOpen"
    "windowBytes st = 5" by auto
  then show ?thesis by (intro window_update_overflow) (auto simp: IsTerminal_def)
qed

end
