(* ===== verification/Wire_V1.thy ===== *)
theory Wire_V1
  imports Prelude
begin

text \<open>
  The outer record of wire major 1 (\<open>internal/protocol/wirev1\<close>): the frame, its validation,
  the two encoders and the two decoders. A frame buffer is a byte list; the encoder into a
  caller's buffer writes it in the order of the source, so that a payload which is a view
  into the same buffer is read when the source reads it. The theory shows that the codec is
  canonical and that a borrowed payload is encoded as the caller saw it.
\<close>

section \<open>Frames\<close>

record wire_frame =
  wf_Type :: byte
  wf_Flags :: byte
  wf_StreamID :: u32
  wf_PlanDigest :: bytes
  wf_Payload :: bytes

datatype wire_error = ErrInvalidFrame

definition MajorVersion :: byte where "MajorVersion = 1"
definition MinorVersion :: byte where "MinorVersion = 0"
definition HeaderBytes :: nat where "HeaderBytes = 48"
definition MaxControlBytes :: nat where "MaxControlBytes = 65536"
definition MaxPayloadBytes :: nat where "MaxPayloadBytes = 1048576"
definition TypeReliableData :: byte where "TypeReliableData = 5"
definition TypeHeartbeat :: byte where "TypeHeartbeat = 6"
definition knownFlags :: byte where "knownFlags = 1"
definition wire_magic :: bytes where "wire_magic = string_bytes ''KURD''"

definition knownType :: "byte \<Rightarrow> bool" where
  "knownType value \<longleftrightarrow> value \<ge> 1 \<and> value \<le> 9"

text \<open>The representation invariant of the Go type: \<open>PlanDigest\<close> is a \<open>[32]byte\<close>.\<close>

definition frame_type_ok :: "wire_frame \<Rightarrow> bool" where
  "frame_type_ok f \<longleftrightarrow> length (wf_PlanDigest f) = 32"

definition wire_validate :: "wire_frame \<Rightarrow> wire_error option" where
  "wire_validate f =
     (if \<not> knownType (wf_Type f) \<or> wf_Flags f AND NOT knownFlags \<noteq> 0 \<or>
         wf_PlanDigest f = replicate 32 0 \<or> length (wf_Payload f) > MaxPayloadBytes
      then Some ErrInvalidFrame
      else if wf_Type f = TypeReliableData then
        (if wf_StreamID f = 0 \<or> length (wf_Payload f) = 0 then Some ErrInvalidFrame else None)
      else if wf_Type f = TypeHeartbeat then
        (if wf_StreamID f \<noteq> 0 \<or> length (wf_Payload f) \<noteq> 0 then Some ErrInvalidFrame else None)
      else if wf_StreamID f \<noteq> 0 \<or> length (wf_Payload f) = 0 \<or> length (wf_Payload f) > MaxControlBytes
      then Some ErrInvalidFrame else None)"

section \<open>Encoding\<close>

text \<open>
  \<open>writeFrame\<close> on the caller's buffer. \<open>view\<close> is the offset of the payload when the payload
  is a slice of that very buffer, and \<open>None\<close> when it lives elsewhere: the first copy reads it
  from the buffer as it is at that moment.
\<close>

definition payload_now :: "nat option \<Rightarrow> bytes \<Rightarrow> wire_frame \<Rightarrow> bytes" where
  "payload_now view out f = (case view of None \<Rightarrow> wf_Payload f
     | Some off \<Rightarrow> take (length (wf_Payload f)) (drop off out))"

definition writeFrame :: "nat option \<Rightarrow> bytes \<Rightarrow> wire_frame \<Rightarrow> bytes" where
  "writeFrame view out f =
     (let out = copy_at HeaderBytes (payload_now view out f) out;
          out = copy_at 0 wire_magic out;
          out = copy_at 4 [MajorVersion, MinorVersion, wf_Type f, wf_Flags f] out;
          out = copy_at 8 (put_be 4 (unat (wf_StreamID f))) out;
          out = copy_at 12 (put_be 4 (length (wf_Payload f))) out
      in copy_at 16 (wf_PlanDigest f) out)"

definition Encode :: "wire_frame \<Rightarrow> wire_error + bytes" where
  "Encode f = guard_result (wire_validate f)
     (Inr (writeFrame None (replicate (HeaderBytes + length (wf_Payload f)) 0) f))"

text \<open>\<open>EncodeInto\<close> returns the count of bytes written and the buffer after the call.\<close>

definition EncodeInto :: "nat option \<Rightarrow> bytes \<Rightarrow> wire_frame \<Rightarrow> wire_error + (nat \<times> bytes)" where
  "EncodeInto view dst f = guard_result (wire_validate f)
     (let n = HeaderBytes + length (wf_Payload f) in
      if length dst < n then Inl ErrInvalidFrame else Inr (n, writeFrame view dst f))"

section \<open>Decoding\<close>

definition slice :: "nat \<Rightarrow> nat \<Rightarrow> 'a list \<Rightarrow> 'a list" where
  "slice a b xs = take (b - a) (drop a xs)"

definition DecodeView :: "bytes \<Rightarrow> wire_error + wire_frame" where
  "DecodeView encoded =
     (if length encoded < HeaderBytes \<or> length encoded > HeaderBytes + MaxPayloadBytes \<or>
         slice 0 4 encoded \<noteq> wire_magic \<or> encoded ! 4 \<noteq> MajorVersion \<or> encoded ! 5 \<noteq> MinorVersion
      then Inl ErrInvalidFrame
      else if get_be (slice 12 16 encoded) + HeaderBytes \<noteq> length encoded then Inl ErrInvalidFrame
      else let f = \<lparr>wf_Type = encoded ! 6, wf_Flags = encoded ! 7,
                    wf_StreamID = word_of_nat (get_be (slice 8 12 encoded)),
                    wf_PlanDigest = slice 16 48 encoded,
                    wf_Payload = drop HeaderBytes encoded\<rparr>
           in guard_result (wire_validate f) (Inr f))"

definition Decode :: "bytes \<Rightarrow> wire_error + wire_frame" where
  "Decode encoded = DecodeView encoded"

lemmas wire_constants = HeaderBytes_def MaxPayloadBytes_def MaxControlBytes_def MajorVersion_def
  MinorVersion_def knownFlags_def TypeReliableData_def TypeHeartbeat_def

section \<open>The record layout\<close>

definition wire_header :: "wire_frame \<Rightarrow> bytes" where
  "wire_header f = wire_magic @ [MajorVersion, MinorVersion, wf_Type f, wf_Flags f] @
     put_be 4 (unat (wf_StreamID f)) @ put_be 4 (length (wf_Payload f)) @ wf_PlanDigest f"

lemma length_wire_magic [simp]: "length wire_magic = 4"
  by (simp add: wire_magic_def)

lemma length_wire_header: "frame_type_ok f \<Longrightarrow> length (wire_header f) = HeaderBytes"
  by (simp add: wire_header_def frame_type_ok_def wire_constants)

lemma writeFrame_layout:
  assumes "frame_type_ok f" and "HeaderBytes + length (wf_Payload f) \<le> length out"
    and "payload_now view out f = wf_Payload f"
  shows "writeFrame view out f =
    wire_header f @ wf_Payload f @ drop (HeaderBytes + length (wf_Payload f)) out"
proof -
  obtain m r1 where 1: "out = m @ r1" "length m = 4" using split_at [of 4 out] assms(2) by (auto simp: wire_constants)
  obtain v r2 where 2: "r1 = v @ r2" "length v = 4" using split_at [of 4 r1] assms(2) 1 by (auto simp: wire_constants)
  obtain s r3 where 3: "r2 = s @ r3" "length s = 4" using split_at [of 4 r2] assms(2) 1 2 by (auto simp: wire_constants)
  obtain l r4 where 4: "r3 = l @ r4" "length l = 4" using split_at [of 4 r3] assms(2) 1 2 3 by (auto simp: wire_constants)
  obtain d r5 where 5: "r4 = d @ r5" "length d = 32" using split_at [of 32 r4] assms(2) 1 2 3 4 by (auto simp: wire_constants)
  obtain p r6 where 6: "r5 = p @ r6" "length p = length (wf_Payload f)"
    using split_at [of "length (wf_Payload f)" r5] assms(2) 1 2 3 4 5 by (auto simp: wire_constants)
  have out: "out = m @ v @ s @ l @ d @ p @ r6" using 1(1) 2(1) 3(1) 4(1) 5(1) 6(1) by simp
  have c: "copy_at 48 q (m @ v @ s @ l @ d @ p @ r6) = m @ v @ s @ l @ d @ q @ r6"
    if "length q = length p" for q
    using copy_at_append [of "m @ v @ s @ l @ d" 48 p q r6] 1(2) 2(2) 3(2) 4(2) 5(2) that by simp
  have c0: "copy_at 0 q (m @ v @ x) = q @ v @ x" if "length q = 4" for q x
    using copy_at_append [of "[]" 0 m q "v @ x"] 1(2) that by simp
  have c4: "copy_at 4 q (wire_magic @ v @ x) = wire_magic @ q @ x" if "length q = 4" for q x
    using copy_at_append [of wire_magic 4 v q x] 2(2) that by simp
  have c8: "copy_at 8 q (wire_magic @ w @ s @ x) = wire_magic @ w @ q @ x"
    if "length q = 4" "length w = 4" for q w x
    using copy_at_append [of "wire_magic @ w" 8 s q x] 3(2) that by simp
  have c12: "copy_at 12 q (wire_magic @ w @ z @ l @ x) = wire_magic @ w @ z @ q @ x"
    if "length q = 4" "length w = 4" "length z = 4" for q w z x
    using copy_at_append [of "wire_magic @ w @ z" 12 l q x] 4(2) that by simp
  have c16: "copy_at 16 q (wire_magic @ w @ z @ y @ d @ x) = wire_magic @ w @ z @ y @ q @ x"
    if "length q = 32" "length w = 4" "length z = 4" "length y = 4" for q w z y x
    using copy_at_append [of "wire_magic @ w @ z @ y" 16 d q x] 5(2) that by simp
  have "drop (48 + length (wf_Payload f)) out = r6"
    using 1(2) 2(2) 3(2) 4(2) 5(2) 6(2) by (simp add: out)
  moreover have "writeFrame view out f = wire_header f @ wf_Payload f @ r6"
  proof -
    define V where "V = [MajorVersion, MinorVersion, wf_Type f, wf_Flags f]"
    have V: "length V = 4" by (simp add: V_def)
    have D: "length (wf_PlanDigest f) = 32" using assms(1) by (simp add: frame_type_ok_def)
    have "payload_now view (m @ v @ s @ l @ d @ p @ r6) f = wf_Payload f" using assms(3) out by simp
    then show ?thesis
      unfolding writeFrame_def wire_header_def Let_def out HeaderBytes_def V_def [symmetric]
      using 6(2) V D by (simp add: c c0 c4 c8 c12 c16)
  qed
  ultimately show ?thesis by (simp add: HeaderBytes_def)
qed

lemma Encode_layout:
  "frame_type_ok f \<Longrightarrow> Encode f = guard_result (wire_validate f) (Inr (wire_header f @ wf_Payload f))"
  using writeFrame_layout [of f "replicate (HeaderBytes + length (wf_Payload f)) 0" None]
  by (simp add: Encode_def payload_now_def)

lemma record_parts:
  assumes "HeaderBytes \<le> length b"
  obtains m a1 a2 a3 a4 s l d p where "b = m @ [a1, a2, a3, a4] @ s @ l @ d @ p"
    and "length m = 4" and "length s = 4" and "length l = 4" and "length d = 32"
proof -
  obtain m r1 where 1: "b = m @ r1" "length m = 4" using split_at [of 4 b] assms by (auto simp: wire_constants)
  obtain v r2 where 2: "r1 = v @ r2" "length v = 4" using split_at [of 4 r1] assms 1 by (auto simp: wire_constants)
  obtain s r3 where 3: "r2 = s @ r3" "length s = 4" using split_at [of 4 r2] assms 1 2 by (auto simp: wire_constants)
  obtain l r4 where 4: "r3 = l @ r4" "length l = 4" using split_at [of 4 r3] assms 1 2 3 by (auto simp: wire_constants)
  obtain d p where 5: "r4 = d @ p" "length d = 32" using split_at [of 32 r4] assms 1 2 3 4 by (auto simp: wire_constants)
  obtain a1 a2 a3 a4 where "v = [a1, a2, a3, a4]"
    using 2(2) by (auto simp: numeral_eq_Suc length_Suc_conv)
  then show ?thesis using that [of m a1 a2 a3 a4 s l d p] 1 2(1) 3 4 5 by simp
qed

lemma record_fields:
  assumes "length m = 4" and "length s = 4" and "length l = 4" and "length d = 32"
  shows "slice 0 4 (m @ [a1, a2, a3, a4] @ s @ l @ d @ p) = m"
    "slice 8 12 (m @ [a1, a2, a3, a4] @ s @ l @ d @ p) = s"
    "slice 12 16 (m @ [a1, a2, a3, a4] @ s @ l @ d @ p) = l"
    "slice 16 48 (m @ [a1, a2, a3, a4] @ s @ l @ d @ p) = d"
    "drop 48 (m @ [a1, a2, a3, a4] @ s @ l @ d @ p) = p"
    "(m @ [a1, a2, a3, a4] @ s @ l @ d @ p) ! 4 = a1"
    "(m @ [a1, a2, a3, a4] @ s @ l @ d @ p) ! 5 = a2"
    "(m @ [a1, a2, a3, a4] @ s @ l @ d @ p) ! 6 = a3"
    "(m @ [a1, a2, a3, a4] @ s @ l @ d @ p) ! 7 = a4"
  using assms by (simp_all add: slice_def nth_append)

lemma DecodeView_parts:
  assumes "length m = 4" and "length s = 4" and "length l = 4" and "length d = 32"
  shows "DecodeView (m @ [a1, a2, a3, a4] @ s @ l @ d @ p) =
    (if length p > MaxPayloadBytes \<or> m \<noteq> wire_magic \<or> a1 \<noteq> MajorVersion \<or> a2 \<noteq> MinorVersion \<or>
        get_be l \<noteq> length p then Inl ErrInvalidFrame
     else let f = \<lparr>wf_Type = a3, wf_Flags = a4, wf_StreamID = word_of_nat (get_be s),
                   wf_PlanDigest = d, wf_Payload = p\<rparr>
          in guard_result (wire_validate f) (Inr f))"
  unfolding DecodeView_def HeaderBytes_def record_fields [OF assms]
  using assms by (simp add: Let_def)

lemma wire_validate_payload: "wire_validate f = None \<Longrightarrow> length (wf_Payload f) \<le> MaxPayloadBytes"
  by (auto simp: wire_validate_def split: if_splits)

lemma DecodeView_record:
  assumes "frame_type_ok f" and "wire_validate f = None"
  shows "DecodeView (wire_header f @ wf_Payload f) = Inr f"
proof -
  have "length (wf_Payload f) < 256 ^ 4"
    using wire_validate_payload [OF assms(2)] by (simp add: wire_constants)
  then have "get_be (put_be 4 (length (wf_Payload f))) = length (wf_Payload f)"
    by (rule get_put_be_small)
  then show ?thesis
    using DecodeView_parts [of wire_magic "put_be 4 (unat (wf_StreamID f))"
        "put_be 4 (length (wf_Payload f))" "wf_PlanDigest f" MajorVersion MinorVersion "wf_Type f" "wf_Flags f" "wf_Payload f"]
      wire_validate_payload [OF assms(2)] assms
    by (cases f) (simp add: wire_header_def frame_type_ok_def get_put_be_u32 Let_def)
qed

lemma DecodeView_inv:
  assumes "DecodeView b = Inr f"
  shows "frame_type_ok f \<and> wire_validate f = None \<and> b = wire_header f @ wf_Payload f"
proof -
  have "HeaderBytes \<le> length b" using assms by (auto simp: DecodeView_def split: if_splits)
  then obtain m a1 a2 a3 a4 s l d p where b: "b = m @ [a1, a2, a3, a4] @ s @ l @ d @ p"
    and len: "length m = 4" "length s = 4" "length l = 4" "length d = 32"
    by (rule record_parts)
  let ?f = "\<lparr>wf_Type = a3, wf_Flags = a4, wf_StreamID = word_of_nat (get_be s),
    wf_PlanDigest = d, wf_Payload = p\<rparr>"
  have parts: "m = wire_magic" "a1 = MajorVersion" "a2 = MinorVersion" "get_be l = length p"
    "wire_validate ?f = None" "f = ?f"
    using assms unfolding b DecodeView_parts [OF len]
    by (auto simp: Let_def guard_result_eq_Inr split: if_splits)
  have "get_be s < 2 ^ 32" using get_be_less [of s] len by simp
  then have "unat (word_of_nat (get_be s) :: u32) = get_be s" by (simp add: unat_of_nat)
  then have s: "put_be 4 (unat (word_of_nat (get_be s) :: u32)) = s" by (simp add: put_get_be len(2))
  have l: "put_be 4 (length p) = l" using put_get_be [OF len(3)] parts(4) by simp
  show ?thesis unfolding b parts(6) using len parts(1-3,5) s l by (simp add: wire_header_def frame_type_ok_def)
qed

interpretation wire: canonical_codec frame_type_ok Encode Decode
proof
  show "Decode b = Inr f" if "frame_type_ok f" "Encode f = Inr b" for f b
    using that DecodeView_record [of f] by (auto simp: Encode_layout guard_result_eq_Inr Decode_def)
  show "frame_type_ok f \<and> Encode f = Inr b" if "Decode b = Inr f" for f b
    using DecodeView_inv [of b f] that by (simp add: Decode_def Encode_layout)
qed

section \<open>Properties\<close>

text \<open>
  C17: The wire codec is canonical: \<open>Decode\<close> accepts a byte string and returns a frame exactly
  when \<open>Encode\<close> turns that frame, with a 32-byte digest, into that byte string. So every
  frame round-trips, no frame has two encodings and every other byte string is rejected.
\<close>

theorem wire_codec_canonical:
  "Decode b = Inr f \<longleftrightarrow> length (wf_PlanDigest f) = 32 \<and> Encode f = Inr b"
  using wire.dec_iff [of b f] by (simp add: frame_type_ok_def)

text \<open>
  C18: \<open>EncodeInto\<close> with a payload that is a slice of the destination buffer itself, at any
  offset and overlapping header or payload area in any way, writes the same record as
  \<open>Encode\<close> of a copy of that payload, leaves the bytes behind the record as they were and
  refuses exactly when the frame is invalid or the buffer too short.
\<close>

theorem wire_encode_into_overlap:
  assumes "length (wf_PlanDigest f) = 32"
    and "wf_Payload f = take (length (wf_Payload f)) (drop off dst)"
  shows "EncodeInto (Some off) dst f =
    (case Encode f of Inl e \<Rightarrow> Inl e
     | Inr record \<Rightarrow> if length dst < length record then Inl ErrInvalidFrame
         else Inr (length record, record @ drop (length record) dst))"
proof (cases "wire_validate f")
  case None
  have ok: "frame_type_ok f" using assms(1) by (simp add: frame_type_ok_def)
  have "payload_now (Some off) dst f = wf_Payload f" using assms(2) by (simp add: payload_now_def)
  then show ?thesis
    using writeFrame_layout [OF ok, of dst "Some off"] length_wire_header [OF ok] None
    by (simp add: EncodeInto_def Encode_layout [OF ok] Let_def)
next
  case (Some e)
  then show ?thesis by (simp add: EncodeInto_def Encode_def)
qed

theorem wire_encode_into_overlap_witness:
  "EncodeInto (Some 2) ([0, 0, 7, 8, 9] @ replicate 50 1)
     \<lparr>wf_Type = 5, wf_Flags = 0, wf_StreamID = 3, wf_PlanDigest = replicate 32 1, wf_Payload = [7, 8, 9]\<rparr> =
   Inr (51, string_bytes ''KURD'' @ [1, 0, 5, 0, 0, 0, 0, 3, 0, 0, 0, 3] @ replicate 32 1 @ [7, 8, 9] @ [1, 1, 1, 1])"
proof -
  let ?f = "\<lparr>wf_Type = 5, wf_Flags = 0, wf_StreamID = 3, wf_PlanDigest = replicate 32 1, wf_Payload = [7, 8, 9]\<rparr>"
  have "Encode ?f = Inr (string_bytes ''KURD'' @ [1, 0, 5, 0, 0, 0, 0, 3, 0, 0, 0, 3] @ replicate 32 1 @ [7, 8, 9])"
    by (simp add: Encode_layout frame_type_ok_def wire_validate_def knownType_def wire_constants
        wire_header_def wire_magic_def put_be_numeral word_less_eq_iff_unsigned [where 'a = nat]
        replicate_eq_replicate)
  moreover have "drop 51 ([0, 0, 7, 8, 9] @ replicate 50 1) = [1, 1, 1, (1 :: byte)]"
    by (simp add: numeral_eq_Suc)
  ultimately show ?thesis
    using wire_encode_into_overlap [of ?f 2 "[0, 0, 7, 8, 9] @ replicate 50 1"] by simp
qed

end
