(* ===== verification/IR_Profile.thy ===== *)
theory IR_Profile
  imports Complex_Main Prelude
begin

text \<open>
  The profile data of \<open>internal/protocol/ir/profile.go\<close>: every struct as a record, with a
  prefix per struct because HOL record fields are global, and the constant lists the
  validators consult. A Go \<open>float64\<close> is one of its special values or an exact rational,
  which is all that comparisons observe. A \<open>map[string]string\<close> is an association list
  read with the empty string as default.
\<close>

section \<open>Constants\<close>

definition LegacySchemaVersionV1 :: string where
  "LegacySchemaVersionV1 = ''0.1.0-lab''"

definition NextSchemaVersionV1 :: string where
  "NextSchemaVersionV1 = ''0.2.0-lab''"

definition LegacySecurityVersionV1 :: string where
  "LegacySecurityVersionV1 = ''0.12.0-lab''"

definition NextSecurityVersionV1 :: string where
  "NextSecurityVersionV1 = ''0.13.0-lab''"

definition SupportedVersion :: string where
  "SupportedVersion = NextSchemaVersionV1"

definition SupportedSecurityVersion :: string where
  "SupportedSecurityVersion = NextSecurityVersionV1"

definition RoleClient :: string where
  "RoleClient = ''client''"

definition RoleServer :: string where
  "RoleServer = ''server''"

definition RoleShared :: string where
  "RoleShared = ''shared''"

definition SemanticOpenStream :: string where
  "SemanticOpenStream = ''open_stream''"

definition SemanticData :: string where
  "SemanticData = ''data''"

definition SemanticClose :: string where
  "SemanticClose = ''close_stream''"

definition SemanticAck :: string where
  "SemanticAck = ''ack''"

definition SemanticResetStream :: string where
  "SemanticResetStream = ''reset_stream''"

definition SemanticWindowUpdate :: string where
  "SemanticWindowUpdate = ''window_update''"

definition SemanticSessionClose :: string where
  "SemanticSessionClose = ''session_close''"

definition SemanticPadding :: string where
  "SemanticPadding = ''padding''"

definition SemanticError :: string where
  "SemanticError = ''error''"

definition SemanticOpenRelay :: string where
  "SemanticOpenRelay = ''open_relay''"

definition SemanticTargetDescriptor :: string where
  "SemanticTargetDescriptor = ''target_descriptor''"

definition SemanticTargetData :: string where
  "SemanticTargetData = ''target_data''"

definition SemanticTargetResponse :: string where
  "SemanticTargetResponse = ''target_response''"

definition SemanticTargetError :: string where
  "SemanticTargetError = ''target_error''"

definition SemanticTargetClose :: string where
  "SemanticTargetClose = ''target_close''"

definition SemanticTargetReset :: string where
  "SemanticTargetReset = ''target_reset''"

definition SemanticTargetMetadata :: string where
  "SemanticTargetMetadata = ''target_metadata''"

lemmas ir_constants =
  LegacySchemaVersionV1_def NextSchemaVersionV1_def LegacySecurityVersionV1_def
  NextSecurityVersionV1_def SupportedVersion_def SupportedSecurityVersion_def
  RoleClient_def RoleServer_def RoleShared_def SemanticOpenStream_def SemanticData_def
  SemanticClose_def SemanticAck_def SemanticResetStream_def SemanticWindowUpdate_def
  SemanticSessionClose_def SemanticPadding_def SemanticError_def SemanticOpenRelay_def
  SemanticTargetDescriptor_def SemanticTargetData_def SemanticTargetResponse_def
  SemanticTargetError_def SemanticTargetClose_def SemanticTargetReset_def
  SemanticTargetMetadata_def

datatype float64 = NaN | NegInf | PosInf | Finite rat

fun float_less :: "float64 \<Rightarrow> float64 \<Rightarrow> bool" where
  "float_less NaN b = False"
| "float_less PosInf b = False"
| "float_less NegInf b = (b \<noteq> NaN \<and> b \<noteq> NegInf)"
| "float_less (Finite x) NaN = False"
| "float_less (Finite x) NegInf = False"
| "float_less (Finite x) PosInf = True"
| "float_less (Finite x) (Finite y) = (x < y)"

definition float_eq :: "float64 \<Rightarrow> float64 \<Rightarrow> bool" where
  "float_eq a b \<longleftrightarrow> a \<noteq> NaN \<and> a = b"

section \<open>Structs\<close>

record role_policy =
  rp_ClientRole :: string
  rp_ServerRole :: string

record carrier_spec =
  cs_Type :: string

record ir_state =
  state_ID :: string
  state_Role :: string
  state_Terminal :: bool

record ir_transition =
  tr_From :: string
  tr_To :: string
  tr_Role :: string
  tr_OnMessage :: string
  tr_EmitsMessage :: string
  tr_RequiresAuth :: bool
  tr_Description :: string

record first_contact_step =
  step_Role :: string
  step_Direction :: string
  step_Message :: string
  step_WireSymbol :: string
  step_FromState :: string
  step_ToState :: string
  step_PayloadSize :: int
  step_Proof :: bool
  step_Decoy :: bool

record first_contact_spec =
  fc_PatternID :: string
  fc_StartState :: string
  fc_RelayReadyState :: string
  fc_Steps :: "first_contact_step list"

record message_symbol =
  msg_Semantic :: string
  msg_WireSymbol :: string
  msg_Direction :: string
  msg_MinPayloadSize :: int
  msg_MaxPayloadSize :: int

record frame_grammar =
  fg_LengthMode :: string
  fg_TypeMode :: string
  fg_HeaderOrder :: "string list"
  fg_FragmentationMode :: string
  fg_ChecksumMode :: string
  fg_PaddingPlacement :: string

record auth_spec =
  auth_Mode :: string
  auth_KeyID :: string
  auth_TestKeyHex :: string
  auth_NonceBytes :: int
  auth_ProofMessage :: string

record scheduler_policy =
  sched_Mode :: string
  sched_MaxBatchBytes :: int
  sched_FlushIntervalMs :: int
  sched_MaxInFlightFrames :: int
  sched_PriorityMode :: string

record stream_policy =
  str_IDStrategy :: string
  str_IDEncodingMode :: string
  str_MaxConcurrentStreams :: int
  str_InitialStreamWindowBytes :: int
  str_InitialSessionWindowBytes :: int
  str_WindowUpdatePolicy :: string
  str_PriorityPolicy :: string
  str_ClosePolicy :: string
  str_ResetPolicy :: string
  str_MaxStreamID :: u32

record proxy_semantics_policy =
  proxy_RelayIntentEncoding :: string
  proxy_TargetDescriptorEncoding :: string
  proxy_RequestClassEncoding :: string
  proxy_ResponseModeEncoding :: string
  proxy_TargetErrorPolicy :: string
  proxy_TargetClosePolicy :: string
  proxy_TargetResetPolicy :: string
  proxy_TargetMetadataPolicy :: string
  proxy_RelayOpenOrderingPolicy :: string
  proxy_RelayIntentPaddingPolicy :: string
  proxy_TargetClassMapping :: string
  proxy_TargetClasses :: "string list"
  proxy_MaxRequestBytes :: int
  proxy_MaxResponseBytes :: int

record carrier_policy =
  car_CarrierFamily :: string
  car_EnvelopeEncoding :: string
  car_FlushPolicy :: string
  car_BatchPolicy :: string
  car_ChunkingPolicy :: string
  car_ReliabilityPolicy :: string
  car_ReorderPolicy :: string
  car_BackpressurePolicy :: string
  car_PriorityMappingPolicy :: string
  car_EnvelopePaddingPolicy :: string
  car_TimingBucketPolicy :: string
  car_MaxEnvelopeBytes :: int
  car_MaxMessagesPerEnvelope :: int
  car_MaxCarrierQueueDepth :: int
  car_MaxRetryCount :: int

record wire_phase_plan =
  wpp_PhaseSequence :: "string list"
  wpp_HandshakeRTTBucket :: string
  wpp_DirectionPattern :: string
  wpp_ControlPhaseEnabled :: bool

record wire_field_layout_plan =
  wfl_LayoutClass :: string
  wfl_FieldOrder :: "string list"
  wfl_VisibilityByField :: "(string \<times> string) list"
  wfl_SizeBucketByField :: "(string \<times> string) list"
  wfl_PayloadPosition :: string

record wire_first_flight_plan =
  wff_PacketCountBucket :: string
  wff_DirectionPattern :: string
  wff_SizeBuckets :: "string list"
  wff_ControlIncluded :: bool

record wire_first_n_plan =
  wfn_N :: int
  wfn_ShapeClass :: string
  wfn_DirectionClass :: string
  wfn_SizeClass :: string

record wire_frame_size_plan =
  wfs_Strategy :: string
  wfs_SizeBuckets :: "string list"
  wfs_PaddingBudget :: string
  wfs_PayloadSplit :: string

record wire_fragment_rhythm_plan =
  wfr_Strategy :: string
  wfr_FragmentBuckets :: "string list"
  wfr_ReorderPermitted :: bool
  wfr_ReassemblyPattern :: string

record wire_control_plan =
  wcp_Richness :: string
  wcp_PreDataControls :: int
  wcp_InterleaveClass :: string
  wcp_CloseClass :: string
  wcp_ResetClass :: string

record wire_metadata_exposure_plan =
  wme_ExposureClass :: string
  wme_CleartextFields :: "string list"
  wme_EncryptedFields :: "string list"
  wme_DerivedOnlyFields :: "string list"

record wire_length_alone_plan =
  wla_Enabled :: bool
  wla_TriggerClass :: string

record wire_shape_policy =
  ws_Version :: string
  ws_CorpusVersion :: string
  ws_PolicyID :: string
  ws_ProfileSeed :: int
  ws_SelectedFamily :: string
  ws_SelectedCorpusEntry :: string
  ws_PhasePlan :: wire_phase_plan
  ws_FieldLayoutPlan :: wire_field_layout_plan
  ws_FirstFlightPlan :: wire_first_flight_plan
  ws_FirstNPlan :: wire_first_n_plan
  ws_FrameSizePlan :: wire_frame_size_plan
  ws_FragmentRhythmPlan :: wire_fragment_rhythm_plan
  ws_ControlPlan :: wire_control_plan
  ws_MetadataExposurePlan :: wire_metadata_exposure_plan
  ws_LengthAlonePlan :: wire_length_alone_plan
  ws_PolicyHash :: string

record adapter_policy =
  ap_RequiredCapabilities :: "string list"
  ap_FlowLifecyclePolicy :: string
  ap_RuntimeMappingPolicy :: string
  ap_TracePolicy :: string
  ap_ErrorMappingPolicy :: string
  ap_BackpressurePolicy :: string
  ap_MaxFlows :: int
  ap_MaxFlowBytes :: int
  ap_MaxBufferedBytes :: int
  ap_MaxEvents :: int

record security_policy =
  sec_SecurityVersion :: string
  sec_TranscriptMode :: string
  sec_KDFSuite :: string
  sec_AEADSuite :: string
  sec_MACSuite :: string
  sec_NonceMode :: string
  sec_ReplayPolicy :: string
  sec_ReplayWindowSize :: int
  sec_DowngradePolicy :: string
  sec_CapabilityNegotiationPolicy :: string
  sec_ProfileCompatibilityPolicy :: string
  sec_KeyRotationPolicy :: string
  sec_ConfigValidationPolicy :: string
  sec_SecureEnvelopeMode :: string
  sec_MaxSessionMessages :: int
  sec_MaxKeyLifetimeMessages :: int

record effective_security_policy =
  eff_ProfileID :: string
  eff_ProfileHash :: string
  eff_SchemaVersion :: string
  eff_CompilerSecurityVersion :: string
  eff_MinimumRuntimeVersion :: string
  eff_SecurityVersion :: string
  eff_TranscriptMode :: string
  eff_KDFSuite :: string
  eff_AEADSuite :: string
  eff_MACSuite :: string
  eff_NonceMode :: string
  eff_ReplayPolicy :: string
  eff_ReplayWindowSize :: int
  eff_DowngradePolicy :: string
  eff_CapabilityNegotiationPolicy :: string
  eff_ProfileCompatibilityPolicy :: string
  eff_KeyRotationPolicy :: string
  eff_ConfigValidationPolicy :: string
  eff_SecureEnvelopeMode :: string
  eff_MaxSessionMessages :: int
  eff_MaxKeyLifetimeMessages :: int
  eff_ClientMandatoryCapabilities :: "string list"
  eff_ServerMandatoryCapabilities :: "string list"
  eff_SelectedCapabilities :: "string list"
  eff_validationHash :: bytes

record compatibility_metadata =
  cm_SchemaVersion :: string
  cm_CompilerSecurityVersion :: string
  cm_MinimumRuntimeVersion :: string
  cm_SupportedSecuritySuites :: "string list"
  cm_RequiredCapabilities :: "string list"
  cm_SupportedCarrierFamilies :: "string list"
  cm_SupportedProxyFeatures :: "string list"
  cm_SupportedStreamFeatures :: "string list"
  cm_MaxEnvelopeBytes :: int
  cm_MaxStreamCount :: int
  cm_MaxReplayWindow :: int

record padding_policy =
  pad_Mode :: string
  pad_MinPaddingBytes :: int
  pad_MaxPaddingBytes :: int
  pad_Probability :: float64

record invalid_input_policy =
  inv_UnknownFirstMessage :: string
  inv_MalformedFrame :: string
  inv_FailedAuth :: string
  inv_Replay :: string
  inv_DelayMsMin :: int
  inv_DelayMsMax :: int

record safety_limits =
  lim_MaxFrameBytes :: int
  lim_MaxPayloadBytes :: int
  lim_MaxStates :: int
  lim_MaxTransitions :: int
  lim_MaxSessionMillis :: int

record profile =
  pr_Version :: string
  pr_ID :: string
  pr_Seed :: int
  pr_GenerationHash :: string
  pr_RolePolicy :: role_policy
  pr_Carrier :: carrier_spec
  pr_States :: "ir_state list"
  pr_Transitions :: "ir_transition list"
  pr_FirstContact :: first_contact_spec
  pr_Messages :: "message_symbol list"
  pr_FrameGrammar :: frame_grammar
  pr_Auth :: auth_spec
  pr_Scheduler :: scheduler_policy
  pr_Stream :: stream_policy
  pr_ProxySemantics :: proxy_semantics_policy
  pr_CarrierPolicy :: carrier_policy
  pr_WireShape :: wire_shape_policy
  pr_AdapterPolicy :: adapter_policy
  pr_Security :: security_policy
  pr_Compatibility :: compatibility_metadata
  pr_Padding :: padding_policy
  pr_InvalidInput :: invalid_input_policy
  pr_Limits :: safety_limits

section \<open>Constant lists\<close>

definition RelaySemantics :: "string list" where
  "RelaySemantics =
    [SemanticOpenStream, SemanticData, SemanticClose, SemanticResetStream,
     SemanticWindowUpdate, SemanticSessionClose, SemanticAck, SemanticPadding,
     SemanticError, SemanticOpenRelay, SemanticTargetDescriptor, SemanticTargetData,
     SemanticTargetResponse, SemanticTargetError, SemanticTargetClose, SemanticTargetReset,
     SemanticTargetMetadata]"

definition ProxySemantics :: "string list" where
  "ProxySemantics =
    [SemanticOpenRelay, SemanticTargetDescriptor, SemanticTargetData,
     SemanticTargetResponse, SemanticTargetError, SemanticTargetClose, SemanticTargetReset,
     SemanticTargetMetadata]"

definition SyntheticTargetClasses :: "string list" where
  "SyntheticTargetClasses =
    [''echo'', ''discard'', ''fixed_response'', ''slow_response'', ''chunked_response'',
     ''large_object'', ''error_response'', ''reset_midstream'', ''drip_response'',
     ''jittery_response'']"

definition CarrierFamilies :: "string list" where
  "CarrierFamilies =
    [''stream_carrier'', ''message_carrier'', ''datagram_like_carrier'',
     ''chunked_carrier'', ''batch_carrier'', ''interactive_carrier'',
     ''long_poll_style_carrier'', ''lossy_reordered_carrier'']"

definition SecurityCapabilities :: "string list" where
  "SecurityCapabilities =
    [''multi_stream'', ''proxy_semantics'', ''carrier_abstraction'', ''adapter_interface'',
     ''carrier_loss_recovery'', ''carrier_backpressure'', ''generated_backend'',
     ''transcript_binding'', ''replay_window'', ''nonce_schedule'']"

definition AdapterCapabilities :: "string list" where
  "AdapterCapabilities =
    [''adapter_ingress'', ''adapter_egress'', ''flow_lifecycle'', ''flow_reset'',
     ''flow_half_close'', ''flow_backpressure'', ''flow_priority'', ''flow_metadata_only'',
     ''runtime_stream_mapping'', ''trace_safe_adapter_summary'']"

definition SecuritySuiteString :: string where
  "SecuritySuiteString =
     ''kdf_hkdf_sha256/aead_aes_256_gcm/mac_hmac_sha256/transcript_sha256_v1''"

section \<open>Lookups\<close>

fun find_message :: "(message_symbol \<Rightarrow> bool) \<Rightarrow> message_symbol list \<Rightarrow> message_symbol option" where
  "find_message P [] = None"
| "find_message P (m # ms) = (if P m then Some m else find_message P ms)"

definition MessageBySemantic :: "profile \<Rightarrow> string \<Rightarrow> message_symbol option" where
  "MessageBySemantic p semantic = find_message (\<lambda>m. msg_Semantic m = semantic) (pr_Messages p)"

definition MessageByWireSymbol :: "profile \<Rightarrow> string \<Rightarrow> message_symbol option" where
  "MessageByWireSymbol p wire = find_message (\<lambda>m. msg_WireSymbol m = wire) (pr_Messages p)"

definition lookup_string :: "(string \<times> string) list \<Rightarrow> string \<Rightarrow> string" where
  "lookup_string m k = (case map_of m k of None \<Rightarrow> '''' | Some v \<Rightarrow> v)"

section \<open>Hexadecimal and the canonical hash\<close>

text \<open>
  \<open>encoding/hex\<close>. Marshalling a struct to JSON and hashing bytes with SHA-256 are functions
  the caller supplies: the marshallers return \<^const>\<open>None\<close> where \<open>json.Marshal\<close> fails,
  which for these structs is exactly a float that is not finite.
\<close>

definition hex_digit :: "nat \<Rightarrow> char" where
  "hex_digit n = ''0123456789abcdef'' ! (n mod 16)"

fun hex_encode :: "bytes \<Rightarrow> string" where
  "hex_encode [] = []"
| "hex_encode (b # bs) = hex_digit (unat b div 16) # hex_digit (unat b mod 16) # hex_encode bs"

definition hex_value :: "char \<Rightarrow> nat option" where
  "hex_value c =
     (let n = of_char c :: nat in
      if 48 \<le> n \<and> n \<le> 57 then Some (n - 48)
      else if 97 \<le> n \<and> n \<le> 102 then Some (n - 87)
      else if 65 \<le> n \<and> n \<le> 70 then Some (n - 55)
      else None)"

fun hex_decode :: "string \<Rightarrow> bytes option" where
  "hex_decode [] = Some []"
| "hex_decode [c] = None"
| "hex_decode (c # d # cs) =
     (case (hex_value c, hex_value d, hex_decode cs) of
        (Some x, Some y, Some bs) \<Rightarrow> Some (word_of_nat (16 * x + y) # bs)
      | _ \<Rightarrow> None)"

record ir_env =
  json_profile :: "profile \<Rightarrow> bytes option"
  json_wire_shape :: "wire_shape_policy \<Rightarrow> bytes option"
  json_effective :: "effective_security_policy \<Rightarrow> bytes option"
  sha256 :: "bytes \<Rightarrow> bytes"

type_synonym ir_error = string

definition CanonicalHash :: "ir_env \<Rightarrow> profile option \<Rightarrow> ir_error + string" where
  "CanonicalHash env p =
     (case p of
        None \<Rightarrow> Inl ''nil profile''
      | Some p \<Rightarrow>
          (case json_profile env (p\<lparr>pr_GenerationHash := ''''\<rparr>) of
             None \<Rightarrow> Inl ''json''
           | Some raw \<Rightarrow> Inr (hex_encode (sha256 env raw))))"

lemma hex_value_digit: "hex_value (hex_digit n) = Some (n mod 16)"
proof -
  have "n mod 16 \<in> set [0 ..< 16]" by simp
  moreover have "\<forall>k \<in> set [0 ..< 16]. hex_value (''0123456789abcdef'' ! k) = Some k"
    by code_simp
  ultimately show ?thesis by (simp add: hex_digit_def)
qed

lemma hex_decode_encode [simp]: "hex_decode (hex_encode bs) = Some bs"
proof (induction bs)
  case Nil
  then show ?case by simp
next
  case (Cons b bs)
  have "unat b div 16 mod 16 = unat b div 16"
    using unat_byte_less [of b] by (intro mod_less) (simp add: less_mult_imp_div_less)
  then show ?case using Cons by (simp add: hex_value_digit)
qed

lemma length_hex_encode [simp]: "length (hex_encode bs) = 2 * length bs"
  by (induction bs) auto

end
