(* ===== verification/IR_Validate.thy ===== *)
theory IR_Validate
  imports IR_Profile
begin

text \<open>
  Profile validation of \<open>internal/protocol/ir/validate.go\<close>. Each validator returns the first
  violated check: the checks of a function are listed in the order of its early returns, and
  a loop is a recursion that stops at its first error. Error values keep the format string of
  the code without its arguments. The JSON marshallers and SHA-256 come from \<^typ>\<open>ir_env\<close>.
\<close>

section \<open>Strings\<close>

definition oneOf :: "string \<Rightarrow> string list \<Rightarrow> bool" where
  "oneOf v allowed \<longleftrightarrow> list_ex (\<lambda>item. v = item) allowed"

definition oneOfInt :: "int \<Rightarrow> int list \<Rightarrow> bool" where
  "oneOfInt v allowed \<longleftrightarrow> list_ex (\<lambda>item. v = item) allowed"

text \<open>
  \<open>strings.ToUpper\<close>, \<open>strings.ToLower\<close> and \<open>strings.Contains\<close> on UTF-8 bytes, as far as a
  comparison with ASCII markers observes them. Outside ASCII only the dotless i and the long
  s have ASCII upper cases and only the dotted capital I and the Kelvin sign have ASCII lower
  cases; every other rune stays outside ASCII.
\<close>

definition ascii_upper :: "char \<Rightarrow> char" where
  "ascii_upper c = (let n = of_char c :: nat in if 97 \<le> n \<and> n \<le> 122 then char_of (n - 32) else c)"

definition ascii_lower :: "char \<Rightarrow> char" where
  "ascii_lower c = (let n = of_char c :: nat in if 65 \<le> n \<and> n \<le> 90 then char_of (n + 32) else c)"

fun to_upper :: "string \<Rightarrow> string" where
  "to_upper [] = []"
| "to_upper [c] = [ascii_upper c]"
| "to_upper (c # d # cs) =
     (if c = CHR 0xC4 \<and> d = CHR 0xB1 then CHR ''I'' # to_upper cs
      else if c = CHR 0xC5 \<and> d = CHR 0xBF then CHR ''S'' # to_upper cs
      else ascii_upper c # to_upper (d # cs))"

fun to_lower :: "string \<Rightarrow> string" where
  "to_lower [] = []"
| "to_lower [c] = [ascii_lower c]"
| "to_lower (c # d # cs) =
     (if c = CHR 0xC4 \<and> d = CHR 0xB0 then CHR ''i'' # to_lower cs
      else if c = CHR 0xE2 \<and> d = CHR 0x84 \<and> take 1 cs = [CHR 0xAA]
      then CHR ''k'' # to_lower (drop 1 cs)
      else ascii_lower c # to_lower (d # cs))"

fun contains_string :: "string \<Rightarrow> string \<Rightarrow> bool" where
  "contains_string [] m = (m = [])"
| "contains_string (c # cs) m = (take (length m) (c # cs) = m \<or> contains_string cs m)"

definition forbiddenWireConstants :: "string list" where
  "forbiddenWireConstants =
     [''HELLO'', ''AUTH'', ''OPEN'', ''KURD'', ''VPN'', ''PROXY'', ''CONNECT'']"

definition wire_markers :: "string list" where
  "wire_markers =
     [''raw_payload'', ''raw_bytes'', ''encoded_bytes'', ''decoded_bytes'', ''ciphertext'',
      ''plaintext'', ''pcap'', ''packet_dump'', ''capture_bytes'', ''auth_tag'',
      ''nonce_base'', ''secret'', ''derived_key'', ''client_write_key'',
      ''server_write_key'', ''proof_material'', ''private_key'', ''session_secret'',
      ''destination_address'', ''proxy_ip'', ''server_ip'', ''domain'', ''sni'',
      ''host_header'']"

definition wire_token_char :: "char \<Rightarrow> bool" where
  "wire_token_char c \<longleftrightarrow>
     (let n = of_char c :: nat in
      97 \<le> n \<and> n \<le> 122 \<or> 48 \<le> n \<and> n \<le> 57 \<or> c = CHR ''_'' \<or> c = CHR ''-'')"

definition safeWireToken :: "string \<Rightarrow> bool" where
  "safeWireToken v =
     (if v = '''' then False
      else if to_lower v = ''auth_tag_like'' then True
      else if list_ex (contains_string (to_lower v)) wire_markers then False
      else list_all wire_token_char v)"

definition validWireSizeBucket :: "string \<Rightarrow> bool" where
  "validWireSizeBucket bucket =
     oneOf bucket [''size_0'', ''size_1_3'', ''size_4_8'', ''size_9_16'', ''size_17_32'',
       ''size_33_64'', ''size_65_128'', ''size_129_512'', ''size_513_1500'',
       ''size_1501_4096'', ''size_4097_plus'']"

section \<open>States and transitions\<close>

definition validateSupportedVersionTupleV1 :: "profile \<Rightarrow> ir_error option" where
  "validateSupportedVersionTupleV1 p = first_error [
     (pr_Version p \<noteq> SupportedVersion \<or>
      sec_SecurityVersion (pr_Security p) \<noteq> SupportedSecurityVersion \<or>
      cm_SchemaVersion (pr_Compatibility p) \<noteq> SupportedVersion \<or>
      cm_CompilerSecurityVersion (pr_Compatibility p) \<noteq> SupportedSecurityVersion \<or>
      cm_MinimumRuntimeVersion (pr_Compatibility p) \<noteq> SupportedSecurityVersion,
      ''unsupported profile version tuple'')]"

definition validateLimits :: "profile \<Rightarrow> ir_error option" where
  "validateLimits p = first_error [
     (lim_MaxFrameBytes (pr_Limits p) \<le> 0 \<or> lim_MaxFrameBytes (pr_Limits p) > 1048576,
        ''invalid max frame bytes''),
     (lim_MaxPayloadBytes (pr_Limits p) \<le> 0 \<or> lim_MaxPayloadBytes (pr_Limits p) >
        8388608, ''invalid max payload bytes''),
     (lim_MaxStates (pr_Limits p) \<le> 0 \<or> int (length (pr_States p)) > lim_MaxStates
        (pr_Limits p), ''state count exceeds limits''),
     (lim_MaxTransitions (pr_Limits p) \<le> 0 \<or> int (length (pr_Transitions p)) >
        lim_MaxTransitions (pr_Limits p), ''transition count exceeds limits''),
     (lim_MaxSessionMillis (pr_Limits p) \<le> 0, ''max session duration is required'')]"

text \<open>
  The \<open>edges\<close> map of \<open>validateStates\<close> and the breadth-first search over it: \<open>seen\<close> holds the
  discovered states and \<open>queue\<close> those still to expand.
\<close>

type_synonym edges = "(string \<times> string list) list"

definition successors :: "edges \<Rightarrow> string \<Rightarrow> string list" where
  "successors es s = (case map_of es s of None \<Rightarrow> [] | Some ts \<Rightarrow> ts)"

definition add_edge :: "edges \<Rightarrow> string \<Rightarrow> string \<Rightarrow> edges" where
  "add_edge es s t = AList.update s (successors es s @ [t]) es"

fun bfs_visit :: "string list \<Rightarrow> string list \<Rightarrow> string list \<Rightarrow> string list \<times> string list" where
  "bfs_visit seen queue [] = (seen, queue)"
| "bfs_visit seen queue (n # ns) =
     (if n \<in> set seen then bfs_visit seen queue ns
      else bfs_visit (n # seen) (queue @ [n]) ns)"

definition edge_targets :: "edges \<Rightarrow> string set" where
  "edge_targets es = (\<Union>(s, ts) \<in> set es. set ts)"

lemma finite_edge_targets [simp]: "finite (edge_targets es)"
  by (auto simp: edge_targets_def)

lemma bfs_visit_spec:
  assumes "bfs_visit seen queue ns = (seen', queue')"
  shows "\<exists>new. set new \<subseteq> set ns - set seen \<and> set seen' = set seen \<union> set new \<and>
    queue' = queue @ new \<and> set ns \<subseteq> set seen'"
  using assms
proof (induction ns arbitrary: seen queue)
  case Nil
  then show ?case by auto
next
  case (Cons n ns)
  show ?case
  proof (cases "n \<in> set seen")
    case True
    then show ?thesis using Cons by fastforce
  next
    case False
    then have "bfs_visit (n # seen) (queue @ [n]) ns = (seen', queue')" using Cons.prems by simp
    then obtain new where "set new \<subseteq> set ns - set (n # seen)"
      "set seen' = set (n # seen) \<union> set new" "queue' = (queue @ [n]) @ new" "set ns \<subseteq> set seen'"
      using Cons.IH by blast
    then show ?thesis using False by (intro exI [of _ "n # new"]) auto
  qed
qed

lemma successors_targets: "set (successors es s) \<subseteq> edge_targets es"
proof (cases "map_of es s")
  case None
  then show ?thesis by (simp add: successors_def)
next
  case (Some ts)
  then have "(s, ts) \<in> set es" by (rule map_of_SomeD)
  then show ?thesis using Some by (auto simp: successors_def edge_targets_def)
qed

lemma bfs_measure:
  assumes "bfs_visit seen queue (successors es cur) = (seen', queue')"
  shows "card (edge_targets es - set seen') < card (edge_targets es - set seen) \<or>
    card (edge_targets es - set seen') = card (edge_targets es - set seen) \<and> queue' = queue"
proof -
  obtain new where new: "set new \<subseteq> set (successors es cur) - set seen"
    "set seen' = set seen \<union> set new" "queue' = queue @ new"
    using bfs_visit_spec [OF assms] by blast
  show ?thesis
  proof (cases "new = []")
    case True
    then show ?thesis using new by simp
  next
    case False
    then obtain n where "n \<in> set new" by (cases new) auto
    then have "n \<in> edge_targets es - set seen" "n \<notin> edge_targets es - set seen'"
      using new successors_targets [of es cur] by auto
    then have "edge_targets es - set seen' \<subset> edge_targets es - set seen" using new(2) by blast
    then show ?thesis by (simp add: psubset_card_mono)
  qed
qed

function bfs :: "edges \<Rightarrow> string list \<Rightarrow> string list \<Rightarrow> string \<Rightarrow> bool" where
  "bfs es seen [] want = False"
| "bfs es seen (cur # queue) want =
     (if cur = want then True
      else case bfs_visit seen queue (successors es cur) of
        (seen', queue') \<Rightarrow> bfs es seen' queue' want)"
  by pat_completeness auto
termination
  by (relation "measures [\<lambda>(es, seen, queue, want). card (edge_targets es - set seen),
      \<lambda>(es, seen, queue, want). length queue]")
    (simp, use bfs_measure [OF sym] in fastforce)

definition reachable :: "edges \<Rightarrow> string \<Rightarrow> string \<Rightarrow> bool" where
  "reachable es start want = bfs es [start] [start] want"

fun validate_state_list :: "(string \<times> string) list \<Rightarrow> ir_state list \<Rightarrow> ir_error + (string \<times> string) list" where
  "validate_state_list roles [] = Inr roles"
| "validate_state_list roles (st # sts) =
     guard_result (first_error [
       (state_ID st = '''', ''empty state id''),
       (state_Role st \<noteq> RoleClient \<and> state_Role st \<noteq> RoleServer \<and> state_Role st \<noteq> RoleShared,
        ''invalid state role''),
       (map_of roles (state_ID st) \<noteq> None, ''duplicate state'')])
     (validate_state_list (AList.update (state_ID st) (state_Role st) roles) sts)"

fun validate_transition_list ::
  "(string \<times> string) list \<Rightarrow> edges \<Rightarrow> bool \<Rightarrow> bool \<Rightarrow> ir_transition list \<Rightarrow>
   ir_error + (edges \<times> bool \<times> bool)" where
  "validate_transition_list roles es seenClient seenServer [] = Inr (es, seenClient, seenServer)"
| "validate_transition_list roles es seenClient seenServer (tr # trs) =
     guard_result (first_error [
       (map_of roles (tr_From tr) = None, ''transition from unknown state''),
       (map_of roles (tr_To tr) = None, ''transition to unknown state''),
       (tr_Role tr \<noteq> RoleClient \<and> tr_Role tr \<noteq> RoleServer, ''invalid transition role''),
       (tr_OnMessage tr = '''', ''transition message is required'')])
     (validate_transition_list roles (add_edge es (tr_From tr) (tr_To tr))
        (seenClient \<or> tr_Role tr = RoleClient) (seenServer \<or> tr_Role tr = RoleServer) trs)"

fun validate_step_list :: "(string \<times> string) list \<Rightarrow> first_contact_step list \<Rightarrow> ir_error option" where
  "validate_step_list roles [] = None"
| "validate_step_list roles (step # steps) =
     or_else (first_error [
       (map_of roles (step_FromState step) = None, ''first-contact step has unknown from state''),
       (map_of roles (step_ToState step) = None, ''first-contact step has unknown to state''),
       (step_WireSymbol step = '''' \<or> step_Message step = '''' \<or> step_PayloadSize step < 0,
        ''invalid first-contact step'')])
     (validate_step_list roles steps)"

definition validateStates :: "profile \<Rightarrow> ir_error option" where
  "validateStates p =
     (case validate_state_list [] (pr_States p) of
        Inl e \<Rightarrow> Some e
      | Inr roles \<Rightarrow>
          or_else (first_error [
            (map_of roles (fc_StartState (pr_FirstContact p)) = None, ''start state is missing''),
            (map_of roles (fc_RelayReadyState (pr_FirstContact p)) = None,
             ''relay-ready state is missing''),
            (\<not> list_ex state_Terminal (pr_States p), ''terminal state is required''),
            (fc_Steps (pr_FirstContact p) = [], ''first-contact steps are required'')])
          (case validate_transition_list roles [] False False (pr_Transitions p) of
             Inl e \<Rightarrow> Some e
           | Inr (es, seenClient, seenServer) \<Rightarrow>
               or_else (first_error [
                 (\<not> seenClient \<or> \<not> seenServer, ''client and server transition paths are required''),
                 (\<not> reachable es (fc_StartState (pr_FirstContact p))
                     (fc_RelayReadyState (pr_FirstContact p)),
                  ''relay-ready state is unreachable'')])
               (or_else (validate_step_list roles (fc_Steps (pr_FirstContact p)))
               (case fc_Steps (pr_FirstContact p) of
                  [] \<Rightarrow> None
                | first # _ \<Rightarrow> first_error [
                    (step_Role first \<noteq> RoleClient, ''first-contact must begin with client''),
                    (step_PayloadSize first < auth_NonceBytes (pr_Auth p),
                     ''first-contact nonce payload is too small'')]))))"

section \<open>Messages and frame grammar\<close>

fun validate_message_list ::
  "safety_limits \<Rightarrow> (string \<times> string) list \<Rightarrow> string list \<Rightarrow> message_symbol list \<Rightarrow>
   ir_error + ((string \<times> string) list \<times> string list)" where
  "validate_message_list limits seenWire seenSemantic [] = Inr (seenWire, seenSemantic)"
| "validate_message_list limits seenWire seenSemantic (msg # msgs) =
     guard_result (first_error [
       (msg_Semantic msg = '''' \<or> msg_WireSymbol msg = '''',
        ''semantic and wire symbols are required''),
       (msg_MinPayloadSize msg < 0 \<or> msg_MaxPayloadSize msg < msg_MinPayloadSize msg \<or>
        msg_MaxPayloadSize msg > lim_MaxPayloadBytes limits, ''invalid payload bounds''),
       (list_ex (contains_string (to_upper (msg_WireSymbol msg))) forbiddenWireConstants,
        ''forbidden wire symbol constant''),
       (map_of seenWire (msg_WireSymbol msg) \<noteq> None, ''duplicate wire symbol'')])
     (validate_message_list limits
        (AList.update (msg_WireSymbol msg) (msg_Semantic msg) seenWire)
        (msg_Semantic msg # seenSemantic) msgs)"

definition validateMessages :: "profile \<Rightarrow> ir_error option" where
  "validateMessages p =
     (case validate_message_list (pr_Limits p) [] [] (pr_Messages p) of
        Inl e \<Rightarrow> Some e
      | Inr (seenWire, seenSemantic) \<Rightarrow> first_error [
          (list_ex (\<lambda>semantic. semantic \<notin> set seenSemantic) RelaySemantics,
           ''missing semantic message''),
          (list_ex (\<lambda>step. map_of seenWire (step_WireSymbol step) \<noteq> None)
             (fc_Steps (pr_FirstContact p)),
           ''first-contact wire symbol collides with frame symbol'')])"

definition validateFrameGrammar :: "profile \<Rightarrow> ir_error option" where
  "validateFrameGrammar p = first_error ([
     (\<not> oneOf (fg_LengthMode (pr_FrameGrammar p)) [''varint_prefix'', ''fixed_2_prefix'',
        ''fixed_4_prefix'', ''length_suffix_lab''], ''invalid length mode''),
     (\<not> oneOf (fg_TypeMode (pr_FrameGrammar p)) [''explicit_generated_tag'',
        ''derived_from_state'', ''derived_from_header_order'', ''table_indexed_symbol''],
        ''invalid type mode''),
     (\<not> oneOf (fg_FragmentationMode (pr_FrameGrammar p))
        [''no_fragmentation_for_small_payloads'', ''fixed_size_chunks'',
        ''bounded_variable_chunks'', ''scheduler_controlled_chunks''],
        ''invalid fragmentation mode''),
     (\<not> oneOf (fg_ChecksumMode (pr_FrameGrammar p)) [''none'', ''crc32''],
        ''invalid checksum mode''),
     (\<not> oneOf (fg_PaddingPlacement (pr_FrameGrammar p)) [''none'', ''prefix'', ''suffix'',
        ''inter_frame'', ''probabilistic''], ''invalid padding placement'')] @
     [(list_ex (\<lambda>field. \<not> oneOf field [''length'', ''type'', ''stream'', ''flags''])
         (fg_HeaderOrder (pr_FrameGrammar p)), ''invalid header field''),
      (list_ex (\<lambda>field. field \<notin> set (fg_HeaderOrder (pr_FrameGrammar p)))
         [''length'', ''type'', ''stream'', ''flags''], ''header order missing'')])"

section \<open>Policies\<close>

definition validateScheduler :: "scheduler_policy \<Rightarrow> ir_error option" where
  "validateScheduler p = first_error [
     (\<not> oneOf (sched_Mode p) [''max_speed'', ''balanced'', ''interactive_first'',
        ''bulk_first''], ''invalid scheduler mode''),
     (sched_MaxBatchBytes p \<le> 0 \<or> sched_MaxBatchBytes p > 32768,
        ''invalid scheduler batch size''),
     (sched_FlushIntervalMs p < 0 \<or> sched_FlushIntervalMs p > 1000,
        ''invalid flush interval''),
     (\<not> oneOfInt (sched_MaxInFlightFrames p) [4, 8, 16, 32],
        ''invalid max in-flight frame count''),
     (sched_PriorityMode p = '''', ''priority mode is required'')]"

definition validateStreamPolicy :: "stream_policy \<Rightarrow> safety_limits \<Rightarrow> ir_error option" where
  "validateStreamPolicy p limits = first_error [
     (\<not> oneOf (str_IDStrategy p) [''sequential_odd_even'', ''randomized_bounded_ids'',
        ''table_mapped_ids'', ''varint_ids''], ''invalid stream id strategy''),
     (\<not> oneOf (str_IDEncodingMode p) [''fixed32_be'', ''profile_xor32'',
        ''table_mapped32_le'', ''varint''], ''invalid stream id encoding mode''),
     (\<not> oneOfInt (str_MaxConcurrentStreams p) [2, 4, 8, 16],
        ''invalid max concurrent streams''),
     (\<not> oneOfInt (str_InitialStreamWindowBytes p) [16384, 32768, 65536, 131072],
        ''invalid stream window''),
     (str_InitialSessionWindowBytes p < str_InitialStreamWindowBytes p,
        ''session window must be at least one stream window''),
     (str_InitialSessionWindowBytes p > 2097152, ''session window exceeds lab safety limit''),
     (lim_MaxPayloadBytes limits > 0 \<and> str_InitialSessionWindowBytes p >
        lim_MaxPayloadBytes limits, ''session window exceeds payload limit''),
     (\<not> oneOf (str_WindowUpdatePolicy p) [''threshold_update'', ''periodic_update'',
        ''per_frame_update'', ''hybrid_update''], ''invalid window update policy''),
     (\<not> oneOf (str_PriorityPolicy p) [''fifo'', ''interactive_first'',
        ''weighted_round_robin'', ''smallest_pending_first''],
        ''invalid stream priority policy''),
     (\<not> oneOf (str_ClosePolicy p) [''explicit_close'', ''half_close'',
        ''close_after_ack''], ''invalid stream close policy''),
     (\<not> oneOf (str_ResetPolicy p) [''immediate_reset'', ''reset_with_error_code'',
        ''delayed_reset''], ''invalid stream reset policy''),
     (str_MaxStreamID p = 0 \<or> str_MaxStreamID p > 1073741824, ''invalid max stream id''),
     ((word_of_int (str_MaxConcurrentStreams p) :: u64) > ucast (str_MaxStreamID p),
        ''max stream id cannot represent concurrent streams'')]"

text \<open>The loop over a list of names that must be known and pairwise different.\<close>

fun check_known_distinct ::
  "string list \<Rightarrow> ir_error \<Rightarrow> ir_error \<Rightarrow> string list \<Rightarrow> string list \<Rightarrow> ir_error option" where
  "check_known_distinct known unknown_error duplicate_error seen [] = None"
| "check_known_distinct known unknown_error duplicate_error seen (c # cs) =
     or_else (first_error [(c \<notin> set known, unknown_error), (c \<in> set seen, duplicate_error)])
     (check_known_distinct known unknown_error duplicate_error (c # seen) cs)"

definition validateProxySemanticsPolicy ::
  "proxy_semantics_policy \<Rightarrow> safety_limits \<Rightarrow> message_symbol list \<Rightarrow> ir_error option" where
  "validateProxySemanticsPolicy p limits messages =
     or_else (first_error [
     (\<not> oneOf (proxy_RelayIntentEncoding p) [''descriptor_before_open'',
        ''descriptor_after_open'', ''split_descriptor'', ''table_mapped_descriptor'',
        ''state_derived_descriptor''], ''invalid relay intent encoding''),
     (\<not> oneOf (proxy_TargetDescriptorEncoding p) [''compact_enum'',
        ''generated_table_index'', ''split_fields'', ''state_derived_class'',
        ''padded_descriptor_block''], ''invalid target descriptor encoding''),
     (\<not> oneOf (proxy_RequestClassEncoding p) [''interactive'', ''bulk'', ''control'',
        ''error_test'', ''generated_bucket''], ''invalid request class encoding''),
     (\<not> oneOf (proxy_ResponseModeEncoding p) [''immediate'', ''chunked'', ''delayed'',
        ''resettable'', ''errorable'', ''large_object''], ''invalid response mode encoding''),
     (\<not> oneOf (proxy_TargetErrorPolicy p) [''explicit_target_error'', ''close_with_error'',
        ''reset_with_error'', ''delayed_error'', ''metadata_error''],
        ''invalid target error policy''),
     (\<not> oneOf (proxy_TargetClosePolicy p) [''explicit_close'',
        ''implicit_close_after_response'', ''close_after_ack'', ''half_close_compatible''],
        ''invalid target close policy''),
     (\<not> oneOf (proxy_TargetResetPolicy p) [''immediate_reset'', ''reset_with_reason'',
        ''delayed_reset'', ''reset_after_partial_response''], ''invalid target reset policy''),
     (\<not> oneOf (proxy_TargetMetadataPolicy p) [''none'', ''pre_response_metadata'',
        ''post_response_metadata'', ''metadata_as_control_frame''],
        ''invalid target metadata policy''),
     (\<not> oneOf (proxy_RelayOpenOrderingPolicy p) [''intent_before_stream'',
        ''stream_before_intent'', ''descriptor_split_around_open'',
        ''metadata_before_descriptor''], ''invalid relay open ordering policy''),
     (\<not> oneOf (proxy_RelayIntentPaddingPolicy p) [''none'', ''bounded'',
        ''descriptor_padding'', ''metadata_padding''], ''invalid relay intent padding policy''),
     (\<not> oneOf (proxy_TargetClassMapping p) [''direct_generated'', ''table_mapped'',
        ''state_derived'', ''bucketed''], ''invalid target class mapping''),
     (proxy_MaxRequestBytes p \<le> 0 \<or> proxy_MaxResponseBytes p \<le> 0,
        ''proxy semantics byte limits are required''),
     (lim_MaxPayloadBytes limits > 0 \<and> (proxy_MaxRequestBytes p > lim_MaxPayloadBytes
        limits \<or> proxy_MaxResponseBytes p > lim_MaxPayloadBytes limits),
        ''proxy semantics limits exceed payload limit''),
     (proxy_MaxRequestBytes p > 524288 \<or> proxy_MaxResponseBytes p > 2097152,
        ''proxy semantics limits exceed lab safety bound''),
     (proxy_TargetClasses p = [], ''proxy target classes are required'')])
     (or_else (check_known_distinct SyntheticTargetClasses ''unknown synthetic target class''
         ''duplicate synthetic target class'' [] (proxy_TargetClasses p))
     (first_error [
       (list_ex (\<lambda>semantic. length (filter (\<lambda>msg. msg_Semantic msg = semantic) messages) \<noteq> 1)
          ProxySemantics, ''proxy semantic has wrong number of mappings'')]))"

definition validateCarrierPolicy :: "carrier_policy \<Rightarrow> safety_limits \<Rightarrow> ir_error option" where
  "validateCarrierPolicy p limits = first_error [
     (\<not> oneOf (car_CarrierFamily p) CarrierFamilies, ''invalid carrier family''),
     (\<not> oneOf (car_EnvelopeEncoding p) [''single_semantic'', ''coalesced_semantics'',
        ''split_semantic'', ''table_mapped_envelope'', ''state_derived_envelope''],
        ''invalid carrier envelope encoding''),
     (\<not> oneOf (car_FlushPolicy p) [''flush_each'', ''flush_on_threshold'',
        ''flush_on_priority'', ''flush_on_state_transition'', ''delayed_flush_bucket''],
        ''invalid carrier flush policy''),
     (\<not> oneOf (car_BatchPolicy p) [''no_batch'', ''fixed_batch'', ''profile_bucket_batch'',
        ''priority_split_batch'', ''state_transition_batch''], ''invalid carrier batch policy''),
     (\<not> oneOf (car_ChunkingPolicy p) [''no_chunk'', ''fixed_chunk'',
        ''profile_bucket_chunk'', ''priority_aware_chunk'', ''state_derived_chunk''],
        ''invalid carrier chunking policy''),
     (\<not> oneOf (car_ReliabilityPolicy p) [''ordered_only'', ''ack_required'',
        ''retry_bounded'', ''drop_detect'', ''reorder_recover''],
        ''invalid carrier reliability policy''),
     (\<not> oneOf (car_ReorderPolicy p) [''none'', ''stable'', ''deterministic_reorder'',
        ''lossy_reorder'', ''recoverable_reorder''], ''invalid carrier reorder policy''),
     (\<not> oneOf (car_BackpressurePolicy p) [''carrier_queue_backpressure'',
        ''stream_window_backpressure'', ''session_window_backpressure'',
        ''priority_backpressure'', ''drop_or_delay_metadata''],
        ''invalid carrier backpressure policy''),
     (\<not> oneOf (car_PriorityMappingPolicy p) [''direct_priority'', ''bucketed_priority'',
        ''state_derived_priority'', ''interactive_bias''],
        ''invalid carrier priority mapping policy''),
     (\<not> oneOf (car_EnvelopePaddingPolicy p) [''none'', ''small_bucket'', ''state_bucket'',
        ''priority_bucket'', ''carrier_family_bucket''],
        ''invalid carrier envelope padding policy''),
     (\<not> oneOf (car_TimingBucketPolicy p) [''none'', ''flush_bucket'',
        ''poll_cycle_bucket'', ''retry_bucket''], ''invalid carrier timing bucket policy''),
     (car_MaxEnvelopeBytes p \<le> 0 \<or> car_MaxEnvelopeBytes p > lim_MaxFrameBytes limits,
        ''invalid carrier envelope byte limit''),
     (car_MaxMessagesPerEnvelope p \<le> 0 \<or> car_MaxMessagesPerEnvelope p > 32,
        ''invalid carrier max messages per envelope''),
     (car_MaxCarrierQueueDepth p \<le> 0 \<or> car_MaxCarrierQueueDepth p > 256,
        ''invalid carrier queue depth''),
     (car_MaxRetryCount p < 0 \<or> car_MaxRetryCount p > 8, ''invalid carrier retry count'')]"

definition wireShapePolicyHash :: "ir_env \<Rightarrow> wire_shape_policy \<Rightarrow> ir_error + string" where
  "wireShapePolicyHash env p =
     (case json_wire_shape env (p\<lparr>ws_PolicyHash := ''''\<rparr>) of
        None \<Rightarrow> Inl ''json''
      | Some raw \<Rightarrow> Inr (hex_encode (sha256 env raw)))"

definition wire_field_error :: "wire_field_layout_plan \<Rightarrow> string \<Rightarrow> ir_error option" where
  "wire_field_error plan field = first_error [
     (\<not> oneOf field [''type'', ''length'', ''version'', ''nonce_like'', ''key_like'',
        ''certificate_like'', ''reserved'', ''padding_length'', ''padding'', ''payload'',
        ''auth_tag_like'', ''unknown_encrypted''], ''invalid wire-shape field kind''),
     (\<not> oneOf (lookup_string (wfl_VisibilityByField plan) field)
        [''cleartext'', ''encrypted'', ''derived'', ''absent''],
      ''invalid wire-shape field visibility''),
     (\<not> validWireSizeBucket (lookup_string (wfl_SizeBucketByField plan) field),
      ''invalid wire-shape field size bucket'')]"

fun first_item_error :: "('a \<Rightarrow> ir_error option) \<Rightarrow> 'a list \<Rightarrow> ir_error option" where
  "first_item_error check [] = None"
| "first_item_error check (x # xs) = or_else (check x) (first_item_error check xs)"

definition bucket_error :: "ir_error \<Rightarrow> string \<Rightarrow> ir_error option" where
  "bucket_error e bucket = first_error [(\<not> validWireSizeBucket bucket, e)]"

definition validateWireShapePolicy :: "ir_env \<Rightarrow> wire_shape_policy \<Rightarrow> ir_error option" where
  "validateWireShapePolicy env p =
     or_else (first_error [
     (ws_Version p \<noteq> ''wiregen-policy-v1'', ''invalid wire-shape policy version''),
     (ws_CorpusVersion p \<noteq> ''protocorpus-v1'', ''invalid wire-shape corpus version''),
     (\<not> safeWireToken (ws_PolicyID p) \<or> \<not> safeWireToken (ws_SelectedFamily p)
        \<or> \<not> safeWireToken (ws_SelectedCorpusEntry p) \<or> ws_ProfileSeed p = 0,
        ''invalid wire-shape policy identity''),
     (\<not> oneOf (ws_SelectedFamily p) [''structured_encrypted'', ''fully_encrypted'',
        ''greeting_based'', ''length_prefixed'', ''message_oriented'', ''stream_oriented'',
        ''control_rich'', ''minimal_handshake'', ''multi_round_handshake''],
        ''invalid wire-shape selected family''),
     (wpp_PhaseSequence (ws_PhasePlan p) = [] \<or> \<not> oneOf (wpp_HandshakeRTTBucket
        (ws_PhasePlan p)) [''0rtt'', ''1rtt'', ''1_5rtt'', ''2rtt'', ''multi_rtt'', ''unknown'']
        \<or> \<not> oneOf (wpp_DirectionPattern (ws_PhasePlan p)) [''client_first'',
        ''server_first'', ''alternating'', ''client_burst'', ''server_burst'',
        ''bidirectional_interleaved'', ''unknown''], ''invalid wire-shape phase plan'')])
     (or_else (first_item_error (\<lambda>phase. first_error [
          (\<not> oneOf phase [''greeting'', ''handshake'', ''control'', ''data'', ''close'', ''reset''],
           ''invalid wire-shape phase'')]) (wpp_PhaseSequence (ws_PhasePlan p)))
     (or_else (first_error [
     (\<not> safeWireToken (wfl_LayoutClass (ws_FieldLayoutPlan p)) \<or> wfl_FieldOrder
        (ws_FieldLayoutPlan p) = [] \<or> \<not> safeWireToken (wfl_PayloadPosition
        (ws_FieldLayoutPlan p)), ''invalid wire-shape field layout'')])
     (or_else (first_item_error (wire_field_error (ws_FieldLayoutPlan p))
          (wfl_FieldOrder (ws_FieldLayoutPlan p)))
     (or_else (first_error [
     (\<not> safeWireToken (wff_PacketCountBucket (ws_FirstFlightPlan p)) \<or> \<not> oneOf
        (wff_DirectionPattern (ws_FirstFlightPlan p)) [''client_first'', ''server_first'',
        ''alternating'', ''client_burst'', ''server_burst'', ''bidirectional_interleaved'',
        ''unknown''] \<or> wff_SizeBuckets (ws_FirstFlightPlan p) = [],
        ''invalid wire-shape first-flight plan'')])
     (or_else (first_item_error (bucket_error ''invalid wire-shape first-flight bucket'')
          (wff_SizeBuckets (ws_FirstFlightPlan p)))
     (or_else (first_error [
     (wfn_N (ws_FirstNPlan p) \<le> 0 \<or> wfn_N (ws_FirstNPlan p) > 16 \<or> \<not>
        safeWireToken (wfn_ShapeClass (ws_FirstNPlan p)) \<or> \<not> safeWireToken
        (wfn_DirectionClass (ws_FirstNPlan p)) \<or> \<not> safeWireToken (wfn_SizeClass
        (ws_FirstNPlan p)), ''invalid wire-shape first-n plan''),
     (\<not> safeWireToken (wfs_Strategy (ws_FrameSizePlan p)) \<or> \<not> safeWireToken
        (wfs_PaddingBudget (ws_FrameSizePlan p)) \<or> \<not> safeWireToken (wfs_PayloadSplit
        (ws_FrameSizePlan p)) \<or> wfs_SizeBuckets (ws_FrameSizePlan p) = [],
        ''invalid wire-shape frame-size plan'')])
     (or_else (first_item_error (bucket_error ''invalid wire-shape frame-size bucket'')
          (wfs_SizeBuckets (ws_FrameSizePlan p)))
     (or_else (first_error [
     (\<not> safeWireToken (wfr_Strategy (ws_FragmentRhythmPlan p)) \<or> \<not> safeWireToken
        (wfr_ReassemblyPattern (ws_FragmentRhythmPlan p)) \<or> wfr_FragmentBuckets
        (ws_FragmentRhythmPlan p) = [], ''invalid wire-shape fragment rhythm'')])
     (or_else (first_item_error (bucket_error ''invalid wire-shape fragment bucket'')
          (wfr_FragmentBuckets (ws_FragmentRhythmPlan p)))
     (or_else (first_error [
     (\<not> safeWireToken (wcp_Richness (ws_ControlPlan p)) \<or> wcp_PreDataControls
        (ws_ControlPlan p) < 0 \<or> wcp_PreDataControls (ws_ControlPlan p) > 8 \<or> \<not>
        safeWireToken (wcp_InterleaveClass (ws_ControlPlan p)) \<or> \<not> safeWireToken
        (wcp_CloseClass (ws_ControlPlan p)) \<or> \<not> safeWireToken (wcp_ResetClass
        (ws_ControlPlan p)), ''invalid wire-shape control plan''),
     (\<not> oneOf (wme_ExposureClass (ws_MetadataExposurePlan p)) [''none_visible'',
        ''minimal_visible'', ''mixed_visible_encrypted'',
        ''cleartext_header_encrypted_payload'', ''encrypted_header_encrypted_payload'',
        ''unknown''], ''invalid wire-shape metadata exposure''),
     (\<not> safeWireToken (wla_TriggerClass (ws_LengthAlonePlan p)),
        ''invalid wire-shape length-alone plan''),
     (ws_PolicyHash p = '''', ''wire-shape policy hash is required'')])
     (case wireShapePolicyHash env p of
        Inl e \<Rightarrow> Some e
      | Inr expected \<Rightarrow> first_error [
          (expected \<noteq> ws_PolicyHash p, ''wire-shape policy hash mismatch'')])))))))))))"

definition validateAdapterPolicy ::
  "adapter_policy \<Rightarrow> stream_policy \<Rightarrow> safety_limits \<Rightarrow> ir_error option" where
  "validateAdapterPolicy p stream limits =
     or_else (first_error [
     (\<not> oneOf (ap_FlowLifecyclePolicy p) [''strict'', ''half_close_aware'',
        ''drain_before_close'', ''reset_terminal''], ''invalid adapter flow lifecycle policy''),
     (\<not> oneOf (ap_RuntimeMappingPolicy p) [''one_flow_one_stream'',
        ''priority_mapped_stream'', ''metadata_bound_stream'', ''state_derived_mapping''],
        ''invalid adapter runtime mapping policy''),
     (\<not> oneOf (ap_TracePolicy p) [''safe_buckets'', ''metadata_only'', ''strict_hygiene''],
        ''invalid adapter trace policy''),
     (\<not> oneOf (ap_ErrorMappingPolicy p) [''flow_error'', ''flow_reset'',
        ''metadata_error'', ''close_with_error''], ''invalid adapter error mapping policy''),
     (\<not> oneOf (ap_BackpressurePolicy p) [''adapter_queue'', ''runtime_stream'',
        ''carrier_chain'', ''priority_backpressure''], ''invalid adapter backpressure policy''),
     (ap_MaxFlows p \<le> 0 \<or> ap_MaxFlows p > 256, ''invalid adapter max flows''),
     (ap_MaxFlowBytes p \<le> 0 \<or> ap_MaxFlowBytes p > lim_MaxPayloadBytes limits,
        ''invalid adapter max flow bytes''),
     (ap_MaxBufferedBytes p \<le> 0 \<or> ap_MaxBufferedBytes p > 16777216,
        ''invalid adapter max buffered bytes''),
     (ap_MaxEvents p \<le> 0 \<or> ap_MaxEvents p > 1048576, ''invalid adapter max events''),
     (ap_RequiredCapabilities p = [], ''adapter required capabilities are missing'')])
     (check_known_distinct AdapterCapabilities ''unknown adapter capability''
        ''duplicate adapter capability'' [] (ap_RequiredCapabilities p))"

definition validateSecurityPolicy :: "security_policy \<Rightarrow> ir_error option" where
  "validateSecurityPolicy p = first_error [
     (sec_SecurityVersion p = '''', ''security version is required''),
     (\<not> oneOf (sec_TranscriptMode p) [''canonical_v1'', ''canonical_with_capabilities_v1'',
        ''canonical_with_carrier_binding_v1'', ''canonical_full_binding_v1''],
        ''invalid transcript mode''),
     (sec_KDFSuite p \<noteq> ''kdf_hkdf_sha256'', ''invalid KDF suite''),
     (sec_AEADSuite p \<noteq> ''aead_aes_256_gcm'', ''invalid AEAD suite''),
     (sec_MACSuite p \<noteq> ''mac_hmac_sha256'', ''invalid MAC suite''),
     (\<not> oneOf (sec_NonceMode p) [''counter_xor_base'', ''counter_append_base'',
        ''directional_counter'', ''stream_partitioned_counter''], ''invalid nonce mode''),
     (\<not> oneOf (sec_ReplayPolicy p) [''ordered_only'', ''bounded_reorder'',
        ''windowed_replay''], ''invalid replay policy''),
     (sec_ReplayWindowSize p \<le> 1 \<or> sec_ReplayWindowSize p > 4096,
        ''invalid replay window size''),
     (\<not> oneOf (sec_DowngradePolicy p) [''strict_suite_and_capabilities'',
        ''strict_capabilities'', ''suite_bound_transcript''], ''invalid downgrade policy''),
     (\<not> oneOf (sec_CapabilityNegotiationPolicy p) [''strict_required'',
        ''intersection_with_required'', ''profile_declared_required''],
        ''invalid capability negotiation policy''),
     (\<not> oneOf (sec_ProfileCompatibilityPolicy p) [''strict_schema'',
        ''schema_and_feature'', ''full_policy_binding''],
        ''invalid profile compatibility policy''),
     (\<not> oneOf (sec_KeyRotationPolicy p) [''session_only'', ''message_lifetime_bound'',
        ''profile_lifetime_bound''], ''invalid key rotation policy''),
     (\<not> oneOf (sec_ConfigValidationPolicy p) [''strict_required'',
        ''strict_with_redaction'', ''strict_profile_bound''],
        ''invalid config validation policy''),
     (\<not> oneOf (sec_SecureEnvelopeMode p) [''metadata_authenticated'',
        ''synthetic_aead_test'', ''full_context_bound_envelope''],
        ''invalid secure envelope mode''),
     (sec_MaxSessionMessages p \<le> 0 \<or> sec_MaxSessionMessages p > 16777216,
        ''invalid max session messages''),
     (sec_MaxKeyLifetimeMessages p \<le> 0 \<or> sec_MaxKeyLifetimeMessages p >
        sec_MaxSessionMessages p, ''invalid max key lifetime messages'')]"

definition validateCompatibility ::
  "compatibility_metadata \<Rightarrow> security_policy \<Rightarrow> stream_policy \<Rightarrow> carrier_policy \<Rightarrow>
   safety_limits \<Rightarrow> ir_error option" where
  "validateCompatibility c sec stream carrier limits =
     or_else (first_error [
     (cm_SchemaVersion c \<noteq> SupportedVersion, ''invalid compatibility schema version''),
     (cm_CompilerSecurityVersion c = '''' \<or> cm_MinimumRuntimeVersion c = '''',
        ''compatibility versions are required''),
     (\<not> oneOf SecuritySuiteString (cm_SupportedSecuritySuites c),
        ''required security suite is not supported''),
     (cm_RequiredCapabilities c = [], ''required capabilities are missing'')])
     (or_else (check_known_distinct SecurityCapabilities ''unknown required capability''
         ''duplicate required capability'' [] (cm_RequiredCapabilities c))
     (first_error ([
       (\<not> oneOf (car_CarrierFamily carrier) (cm_SupportedCarrierFamilies c),
        ''profile carrier family missing from compatibility metadata''),
       (list_ex (\<lambda>family. \<not> oneOf family CarrierFamilies) (cm_SupportedCarrierFamilies c),
        ''unknown compatibility carrier family'')] @ [
     (cm_MaxEnvelopeBytes c \<le> 0 \<or> cm_MaxEnvelopeBytes c > lim_MaxFrameBytes limits,
        ''invalid compatibility envelope limit''),
     (cm_MaxStreamCount c \<le> 0 \<or> cm_MaxStreamCount c < str_MaxConcurrentStreams stream
        \<or> cm_MaxStreamCount c > 16, ''invalid compatibility stream count''),
     (cm_MaxReplayWindow c \<le> 1 \<or> cm_MaxReplayWindow c < sec_ReplayWindowSize sec \<or>
        cm_MaxReplayWindow c > 4096, ''invalid compatibility replay window'')])))"

definition validatePadding :: "padding_policy \<Rightarrow> ir_error option" where
  "validatePadding p = first_error [
     (\<not> oneOf (pad_Mode p) [''none'', ''bounded'', ''probabilistic'', ''fixed'', ''inter_frame''],
      ''invalid padding mode''),
     (pad_MinPaddingBytes p < 0 \<or> pad_MaxPaddingBytes p < pad_MinPaddingBytes p,
      ''invalid padding bounds''),
     (pad_Mode p = ''none'' \<and> (pad_MinPaddingBytes p \<noteq> 0 \<or> pad_MaxPaddingBytes p \<noteq> 0 \<or>
        \<not> float_eq (pad_Probability p) (Finite 0)),
      ''no-padding policy must have zero bounds and probability''),
     (float_less (pad_Probability p) (Finite 0) \<or> float_less (Finite 1) (pad_Probability p),
      ''invalid padding probability'')]"

definition validateInvalidInput :: "invalid_input_policy \<Rightarrow> ir_error option" where
  "validateInvalidInput p = first_error [
     (\<not> oneOf (inv_UnknownFirstMessage p) [''silent_close'', ''delayed_close'',
        ''generated_decoy_response'', ''ordinary_error_shaped_response''],
        ''invalid unknown-first-message behavior''),
     (\<not> oneOf (inv_MalformedFrame p) [''close'', ''ignore'', ''delayed_close'',
        ''generated_malformed_response''], ''invalid malformed-frame behavior''),
     (\<not> oneOf (inv_FailedAuth p) [''close'', ''delayed_close'', ''decoy_path'',
        ''fixed_local_only_rejection''], ''invalid failed-auth behavior''),
     (\<not> oneOf (inv_Replay p) [''close'', ''delayed_close'', ''reject_nonce'',
        ''ordinary_error_shaped_response''], ''invalid replay behavior''),
     (inv_DelayMsMin p < 0 \<or> inv_DelayMsMax p < inv_DelayMsMin p,
        ''invalid invalid-input delay bounds'')]"

section \<open>The whole profile\<close>

definition Validate :: "ir_env \<Rightarrow> profile option \<Rightarrow> ir_error option" where
  "Validate env profile =
     (case profile of
        None \<Rightarrow> Some ''profile is nil''
      | Some p \<Rightarrow>
          or_else (first_error [
            (pr_Version p = '''', ''version is required''),
            (pr_Version p \<noteq> SupportedVersion, ''unsupported version'')])
          (or_else (validateSupportedVersionTupleV1 p)
          (or_else (first_error [
            (pr_ID p = '''', ''profile id is required''),
            (cs_Type (pr_Carrier p) \<noteq> ''lab_tcp'', ''carrier must be lab_tcp'')])
          (or_else (if pr_GenerationHash p \<noteq> ''''
                    then case CanonicalHash env (Some p) of
                        Inl e \<Rightarrow> Some e
                      | Inr got \<Rightarrow>
                          first_error [(got \<noteq> pr_GenerationHash p, ''generation hash mismatch'')]
                    else None)
          (or_else (validateLimits p)
          (or_else (validateStates p)
          (or_else (validateMessages p)
          (or_else (validateFrameGrammar p)
          (or_else (validateScheduler (pr_Scheduler p))
          (or_else (validateStreamPolicy (pr_Stream p) (pr_Limits p))
          (or_else (validateProxySemanticsPolicy (pr_ProxySemantics p) (pr_Limits p) (pr_Messages p))
          (or_else (validateCarrierPolicy (pr_CarrierPolicy p) (pr_Limits p))
          (or_else (validateWireShapePolicy env (pr_WireShape p))
          (or_else (validateAdapterPolicy (pr_AdapterPolicy p) (pr_Stream p) (pr_Limits p))
          (or_else (validateSecurityPolicy (pr_Security p))
          (or_else (validateCompatibility (pr_Compatibility p) (pr_Security p) (pr_Stream p)
             (pr_CarrierPolicy p) (pr_Limits p))
          (or_else (validatePadding (pr_Padding p))
          (or_else (validateInvalidInput (pr_InvalidInput p))
          (first_error [
            (auth_Mode (pr_Auth p) \<noteq> ''hmac-sha256-transcript-test-only'', ''unsupported auth mode''),
            (auth_TestKeyHex (pr_Auth p) = '''' \<or> auth_NonceBytes (pr_Auth p) < 8 \<or>
             auth_ProofMessage (pr_Auth p) = '''',
             ''auth key, nonce size, and proof message are required'')])))))))))))))))))))"

section \<open>The search finds exactly the reachable states\<close>

definition edge_rel :: "edges \<Rightarrow> (string \<times> string) set" where
  "edge_rel es = {(s, t). t \<in> set (successors es s)}"

lemma bfs_sound: "bfs es seen queue want \<Longrightarrow> \<exists>q \<in> set queue. (q, want) \<in> (edge_rel es)\<^sup>*"
proof (induction es seen queue want rule: bfs.induct)
  case (1 es seen want)
  then show ?case by simp
next
  case (2 es seen cur queue want)
  show ?case
  proof (cases "cur = want")
    case True
    then show ?thesis by auto
  next
    case False
    obtain seen' queue' where v: "bfs_visit seen queue (successors es cur) = (seen', queue')"
      by (cases "bfs_visit seen queue (successors es cur)")
    then obtain q where q: "q \<in> set queue'" "(q, want) \<in> (edge_rel es)\<^sup>*"
      using "2.IH" [OF False v [symmetric]] "2.prems" False by auto
    then have "q \<in> set queue \<or> (cur, q) \<in> edge_rel es"
      using bfs_visit_spec [OF v] by (auto simp: edge_rel_def)
    then show ?thesis using q by (auto intro: converse_rtrancl_into_rtrancl)
  qed
qed

lemma closed_rtrancl:
  "(s, t) \<in> R\<^sup>* \<Longrightarrow> s \<in> S \<Longrightarrow> (\<And>a b. a \<in> S \<Longrightarrow> (a, b) \<in> R \<Longrightarrow> b \<in> S) \<Longrightarrow> t \<in> S"
  by (induction rule: rtrancl_induct) auto

lemma bfs_complete:
  assumes "\<not> bfs es seen queue want" and "set queue \<subseteq> set seen"
    and "\<forall>s \<in> set seen - set queue. s \<noteq> want \<and> set (successors es s) \<subseteq> set seen"
  shows "\<forall>s \<in> set seen. (s, want) \<notin> (edge_rel es)\<^sup>*"
  using assms
proof (induction es seen queue want rule: bfs.induct)
  case (1 es seen want)
  have "want \<in> set seen" if "s \<in> set seen" "(s, want) \<in> (edge_rel es)\<^sup>*" for s
    using that(2,1) by (rule closed_rtrancl) (use "1.prems" in \<open>auto simp: edge_rel_def\<close>)
  then show ?case using "1.prems"(3) by auto
next
  case (2 es seen cur queue want)
  have ne: "cur \<noteq> want" using "2.prems"(1) by auto
  obtain seen' queue' where v: "bfs_visit seen queue (successors es cur) = (seen', queue')"
    by (cases "bfs_visit seen queue (successors es cur)")
  obtain new where new: "set new \<subseteq> set (successors es cur) - set seen"
    "set seen' = set seen \<union> set new" "queue' = queue @ new" "set (successors es cur) \<subseteq> set seen'"
    using bfs_visit_spec [OF v] by blast
  have "\<forall>s \<in> set seen'. (s, want) \<notin> (edge_rel es)\<^sup>*"
  proof (rule "2.IH" [OF ne v [symmetric]])
    show "\<not> bfs es seen' queue' want" using "2.prems"(1) ne v by simp
    show "set queue' \<subseteq> set seen'" using new "2.prems"(2) by auto
    show "\<forall>s \<in> set seen' - set queue'. s \<noteq> want \<and> set (successors es s) \<subseteq> set seen'"
      using new "2.prems"(3) ne by auto
  qed
  then show ?case using new(2) by auto
qed

lemma reachable_iff: "reachable es start want \<longleftrightarrow> (start, want) \<in> (edge_rel es)\<^sup>*"
  using bfs_sound [of es "[start]" "[start]" want] bfs_complete [of es "[start]" "[start]" want]
  unfolding reachable_def by (auto simp del: bfs.simps)

text \<open>The edges that the transition loop collects are those of the transitions.\<close>

definition transition_rel :: "ir_transition list \<Rightarrow> (string \<times> string) set" where
  "transition_rel trs = (\<lambda>tr. (tr_From tr, tr_To tr)) ` set trs"

lemma edge_rel_add: "edge_rel (add_edge es s t) = insert (s, t) (edge_rel es)"
  by (auto simp: edge_rel_def add_edge_def successors_def split: if_splits)

lemma validate_transition_list_Inr:
  assumes "validate_transition_list roles es sc ss trs = Inr (es', sc', ss')"
  shows "edge_rel es' = edge_rel es \<union> transition_rel trs \<and>
    sc' = (sc \<or> (\<exists>tr \<in> set trs. tr_Role tr = RoleClient)) \<and>
    ss' = (ss \<or> (\<exists>tr \<in> set trs. tr_Role tr = RoleServer)) \<and>
    (\<forall>tr \<in> set trs. map_of roles (tr_From tr) \<noteq> None \<and> map_of roles (tr_To tr) \<noteq> None \<and>
       tr_Role tr \<in> {RoleClient, RoleServer} \<and> tr_OnMessage tr \<noteq> [])"
  using assms
proof (induction trs arbitrary: es sc ss)
  case Nil
  then show ?case by (simp add: transition_rel_def)
next
  case (Cons tr trs)
  then have checks: "map_of roles (tr_From tr) \<noteq> None" "map_of roles (tr_To tr) \<noteq> None"
    "tr_Role tr \<in> {RoleClient, RoleServer}" "tr_OnMessage tr \<noteq> []"
    and rec: "validate_transition_list roles (add_edge es (tr_From tr) (tr_To tr))
      (sc \<or> tr_Role tr = RoleClient) (ss \<or> tr_Role tr = RoleServer) trs = Inr (es', sc', ss')"
    by (auto simp: result_simps split: if_splits)
  show ?case
    using Cons.IH [OF rec] checks by (auto simp: edge_rel_add transition_rel_def)
qed

lemma validate_state_list_Inr:
  assumes "validate_state_list roles sts = Inr roles'" and "distinct (map fst roles)"
  shows "map fst roles' = map fst roles @ map state_ID sts \<and> distinct (map fst roles') \<and>
    (\<forall>st \<in> set sts. state_ID st \<noteq> [] \<and> state_Role st \<in> {RoleClient, RoleServer, RoleShared})"
  using assms
proof (induction sts arbitrary: roles)
  case Nil
  then show ?case by simp
next
  case (Cons st sts)
  then have checks: "state_ID st \<noteq> []" "state_Role st \<in> {RoleClient, RoleServer, RoleShared}"
    "map_of roles (state_ID st) = None"
    and rec: "validate_state_list (AList.update (state_ID st) (state_Role st) roles) sts = Inr roles'"
    by (auto simp: result_simps simp del: not_None_eq)
  have "AList.update (state_ID st) (state_Role st) roles = roles @ [(state_ID st, state_Role st)]"
    using checks(3) by (rule update_absent)
  moreover have "state_ID st \<notin> set (map fst roles)" using checks(3) by (simp add: map_of_eq_None_iff)
  ultimately have "distinct (map fst (AList.update (state_ID st) (state_Role st) roles))"
    and keys: "map fst (AList.update (state_ID st) (state_Role st) roles) = map fst roles @ [state_ID st]"
    using Cons.prems(2) by simp_all
  note ih = Cons.IH [OF rec this(1)]
  have "map fst roles' = map fst roles @ map state_ID (st # sts)" using ih keys by auto
  moreover have "\<forall>s \<in> set (st # sts). state_ID s \<noteq> [] \<and>
      state_Role s \<in> {RoleClient, RoleServer, RoleShared}"
    using ih checks(1,2) by auto
  ultimately show ?case using ih by blast
qed

lemma map_of_keys: "map_of al k \<noteq> None \<longleftrightarrow> k \<in> set (map fst al)"
  by (simp add: map_of_eq_None_iff)

lemma validate_step_list_None:
  "validate_step_list roles steps = None \<longleftrightarrow>
   (\<forall>st \<in> set steps. map_of roles (step_FromState st) \<noteq> None \<and>
      map_of roles (step_ToState st) \<noteq> None \<and> step_WireSymbol st \<noteq> [] \<and>
      step_Message st \<noteq> [] \<and> 0 \<le> step_PayloadSize st)"
  by (induction steps) (auto simp: result_simps)

lemma first_item_error_None [result_simps]:
  "first_item_error f xs = None \<longleftrightarrow> (\<forall>x \<in> set xs. f x = None)"
  by (induction xs) (auto simp: result_simps)

lemma check_known_distinct_None:
  "check_known_distinct known e1 e2 seen cs = None \<longleftrightarrow>
   set cs \<subseteq> set known \<and> distinct cs \<and> set cs \<inter> set seen = {}"
  by (induction cs arbitrary: seen) (auto simp: result_simps)

lemma oneOf_iff [simp]: "oneOf v xs \<longleftrightarrow> v \<in> set xs"
  by (auto simp: oneOf_def list_ex_iff)

lemma oneOfInt_iff [simp]: "oneOfInt v xs \<longleftrightarrow> v \<in> set xs"
  by (auto simp: oneOfInt_def list_ex_iff)

lemma validateStates_sound:
  assumes "validateStates p = None"
  shows "distinct (map state_ID (pr_States p)) \<and>
    (\<forall>tr \<in> set (pr_Transitions p). {tr_From tr, tr_To tr} \<subseteq> state_ID ` set (pr_States p) \<and>
       tr_Role tr \<in> {RoleClient, RoleServer}) \<and>
    (\<exists>st \<in> set (pr_States p). state_Terminal st) \<and>
    (fc_StartState (pr_FirstContact p), fc_RelayReadyState (pr_FirstContact p)) \<in>
      (transition_rel (pr_Transitions p))\<^sup>* \<and>
    (\<forall>st \<in> set (fc_Steps (pr_FirstContact p)). {step_FromState st, step_ToState st} \<subseteq>
       state_ID ` set (pr_States p)) \<and>
    (\<exists>first rest. fc_Steps (pr_FirstContact p) = first # rest \<and> step_Role first = RoleClient \<and>
       auth_NonceBytes (pr_Auth p) \<le> step_PayloadSize first)"
proof -
  obtain roles where roles: "validate_state_list [] (pr_States p) = Inr roles"
    using assms by (auto simp: validateStates_def split: sum.splits)
  have keys: "map fst roles = map state_ID (pr_States p)" "distinct (map fst roles)"
    using validate_state_list_Inr [OF roles] by auto
  obtain es sc ss where trs: "validate_transition_list roles [] False False (pr_Transitions p) = Inr (es, sc, ss)"
    using assms roles by (auto simp: validateStates_def result_simps split: sum.splits)
  have parts: "list_ex state_Terminal (pr_States p)" "fc_Steps (pr_FirstContact p) \<noteq> []"
    "reachable es (fc_StartState (pr_FirstContact p)) (fc_RelayReadyState (pr_FirstContact p))"
    "validate_step_list roles (fc_Steps (pr_FirstContact p)) = None"
    using assms roles trs by (auto simp: validateStates_def result_simps)
  note t = validate_transition_list_Inr [OF trs]
  have look: "map_of roles s \<noteq> None \<longleftrightarrow> s \<in> state_ID ` set (pr_States p)" for s
    unfolding map_of_keys keys(1) by simp
  have rel: "edge_rel es = transition_rel (pr_Transitions p)"
    using t by (auto simp: edge_rel_def successors_def)
  have r: "(fc_StartState (pr_FirstContact p), fc_RelayReadyState (pr_FirstContact p)) \<in>
      (transition_rel (pr_Transitions p))\<^sup>*"
    using parts(3) by (simp add: reachable_iff rel)
  have s: "\<forall>st \<in> set (fc_Steps (pr_FirstContact p)). {step_FromState st, step_ToState st} \<subseteq>
      state_ID ` set (pr_States p)"
    using parts(4) look unfolding validate_step_list_None by blast
  have tr: "\<forall>tr \<in> set (pr_Transitions p). {tr_From tr, tr_To tr} \<subseteq> state_ID ` set (pr_States p) \<and>
      tr_Role tr \<in> {RoleClient, RoleServer}"
    using t look by blast
  have f: "\<exists>first rest. fc_Steps (pr_FirstContact p) = first # rest \<and> step_Role first = RoleClient \<and>
       auth_NonceBytes (pr_Auth p) \<le> step_PayloadSize first"
    using assms roles trs by (auto simp: validateStates_def result_simps split: list.splits)
  show ?thesis using keys r s tr f parts by (auto simp: list_ex_iff)
qed

text \<open>Parameters that make the hypotheses of later properties concrete.\<close>

definition sample_ir_env :: ir_env where
  "sample_ir_env = \<lparr> json_profile = (\<lambda>_. Some []), json_wire_shape = (\<lambda>_. Some []),
    json_effective = (\<lambda>_. Some []), sha256 = (\<lambda>_. replicate 32 1) \<rparr>"

end
