(* ===== verification/Padding_Engine.thy ===== *)
theory Padding_Engine
  imports IR_Validate
begin

text \<open>
  The padding engine (\<open>internal/protocol/padding\<close>): the size draw, the fill and the two
  generators. The pseudo-random source of the Go library is a parameter \<open>R\<close>: its seeding and
  its two draws on a state of any type, with the documented range of \<open>Intn\<close> as the hypothesis
  \<open>rng_ok\<close>. A panic of the source (\<open>Intn\<close> of a number that is not positive, \<open>make\<close> with a
  negative length) is an error value.
\<close>

section \<open>The engine\<close>

record 'r rng =
  rng_Seed :: "int \<Rightarrow> 'r"
  rng_Intn :: "int \<Rightarrow> 'r \<Rightarrow> int \<times> 'r"
  rng_Float64 :: "'r \<Rightarrow> float64 \<times> 'r"

text \<open>What the documentation of \<open>math/rand\<close> promises of \<open>Intn(n)\<close> for positive \<open>n\<close>.\<close>

definition rng_ok :: "'r rng \<Rightarrow> bool" where
  "rng_ok R \<longleftrightarrow> (\<forall>n r. 0 < n \<longrightarrow> 0 \<le> fst (rng_Intn R n r) \<and> fst (rng_Intn R n r) < n)"

datatype padding_error = PadInvalidBounds | PadDestinationTooShort | PadPanic

record 'r engine =
  en_policy :: padding_policy
  en_rng :: 'r

definition New :: "'r rng \<Rightarrow> padding_policy \<Rightarrow> int \<Rightarrow> 'r engine" where
  "New R policy seed = \<lparr>en_policy = policy, en_rng = rng_Seed R seed\<rparr>"

definition ResetSeed :: "'r rng \<Rightarrow> int \<Rightarrow> 'r engine \<Rightarrow> 'r engine" where
  "ResetSeed R seed e = e\<lparr>en_rng := rng_Seed R seed\<rparr>"

text \<open>\<open>selectSize\<close>: \<open>None\<close> when the draw selects no padding.\<close>

definition skip_draw :: "'r rng \<Rightarrow> 'r engine \<Rightarrow> bool \<times> 'r" where
  "skip_draw R e =
     (if pad_Mode (en_policy e) = ''probabilistic'' then
        (let (x, r) = rng_Float64 R (en_rng e) in (float_less (pad_Probability (en_policy e)) x, r))
      else (False, en_rng e))"

definition selectSize :: "'r rng \<Rightarrow> 'r engine \<Rightarrow> (padding_error + int option) \<times> 'r engine" where
  "selectSize R e =
     (let (skip, r) = skip_draw R e; e = e\<lparr>en_rng := r\<rparr>;
          lo = pad_MinPaddingBytes (en_policy e); hi = pad_MaxPaddingBytes (en_policy e)
      in if skip then (Inr None, e)
         else if hi < lo then (Inl PadInvalidBounds, e)
         else if hi > lo then
           (let n = int64 (hi - lo + 1)
            in if n \<le> 0 then (Inl PadPanic, e)
               else let (k, r) = rng_Intn R n r
                    in (Inr (Some (int64 (lo + k))), e\<lparr>en_rng := r\<rparr>))
         else (Inr (Some lo), e))"

fun pad_fill :: "'r rng \<Rightarrow> nat \<Rightarrow> 'r \<Rightarrow> bytes \<times> 'r" where
  "pad_fill R 0 r = ([], r)"
| "pad_fill R (Suc n) r =
     (let (k, r) = rng_Intn R 256 r; (bs, r) = pad_fill R n r in (word_of_int k # bs, r))"

definition Generate :: "'r rng \<Rightarrow> 'r engine \<Rightarrow> (padding_error + bytes) \<times> 'r engine" where
  "Generate R e =
     (if pad_Mode (en_policy e) = ''none'' then (Inr [], e)
      else case selectSize R e of
        (Inl err, e) \<Rightarrow> (Inl err, e)
      | (Inr None, e) \<Rightarrow> (Inr [], e)
      | (Inr (Some len), e) \<Rightarrow>
          if len < 0 then (Inl PadPanic, e)
          else let (bs, r) = pad_fill R (nat len) (en_rng e) in (Inr bs, e\<lparr>en_rng := r\<rparr>))"

text \<open>\<open>GenerateInto\<close> returns the number of bytes and the destination after the call.\<close>

definition GenerateInto :: "'r rng \<Rightarrow> bytes \<Rightarrow> 'r engine \<Rightarrow> (padding_error + (int \<times> bytes)) \<times> 'r engine" where
  "GenerateInto R dst e =
     (let lo = pad_MinPaddingBytes (en_policy e); hi = pad_MaxPaddingBytes (en_policy e)
      in if pad_Mode (en_policy e) = ''none'' then (Inr (0, dst), e)
         else if lo < 0 \<or> hi < lo \<or> int64 (hi - lo) = 2 ^ 63 - 1 then (Inl PadInvalidBounds, e)
         else if int (length dst) < hi then (Inl PadDestinationTooShort, e)
         else case selectSize R e of
           (Inl err, e) \<Rightarrow> (Inl err, e)
         | (Inr None, e) \<Rightarrow> (Inr (0, dst), e)
         | (Inr (Some len), e) \<Rightarrow>
             let (bs, r) = pad_fill R (nat len) (en_rng e)
             in (Inr (len, copy_at 0 bs dst), e\<lparr>en_rng := r\<rparr>))"

section \<open>Sizes\<close>

lemma length_pad_fill [simp]: "length (fst (pad_fill R n r)) = n"
  by (induction n arbitrary: r) (auto simp: Let_def split: prod.splits, metis fst_conv)

text \<open>The bounds for which the size draw neither fails nor panics.\<close>

definition draw_bounds :: "padding_policy \<Rightarrow> bool" where
  "draw_bounds p \<longleftrightarrow> 0 \<le> pad_MinPaddingBytes p \<and> pad_MinPaddingBytes p \<le> pad_MaxPaddingBytes p \<and>
     pad_MaxPaddingBytes p < 2 ^ 63 \<and> pad_MaxPaddingBytes p - pad_MinPaddingBytes p < 2 ^ 63 - 1"

lemma selectSize_policy: "en_policy (snd (selectSize R e)) = en_policy e"
  by (auto simp: selectSize_def Let_def split: prod.splits)

lemma selectSize_result:
  assumes "rng_ok R" and "draw_bounds (en_policy e)"
  shows "fst (selectSize R e) = Inr None \<or>
    (\<exists>n. fst (selectSize R e) = Inr (Some n) \<and> pad_MinPaddingBytes (en_policy e) \<le> n \<and>
         n \<le> pad_MaxPaddingBytes (en_policy e))"
proof -
  obtain skip r where s: "skip_draw R e = (skip, r)" by (cases "skip_draw R e")
  let ?lo = "pad_MinPaddingBytes (en_policy e)" and ?hi = "pad_MaxPaddingBytes (en_policy e)"
  have n: "int64 (?hi - ?lo + 1) = ?hi - ?lo + 1"
    using assms(2) by (intro int64_id) (auto simp: draw_bounds_def in_int64_def)
  obtain k r' where k: "rng_Intn R (?hi - ?lo + 1) r = (k, r')" by (cases "rng_Intn R (?hi - ?lo + 1) r")
  have "0 \<le> k \<and> k < ?hi - ?lo + 1" if "?lo < ?hi"
  proof -
    have "0 < ?hi - ?lo + 1" using that by simp
    then show ?thesis using assms(1) k unfolding rng_ok_def by (metis fst_conv)
  qed
  moreover from this have "int64 (?lo + k) = ?lo + k" if "?lo < ?hi"
    using that assms(2) by (intro int64_id) (auto simp: draw_bounds_def in_int64_def)
  ultimately show ?thesis
    using assms(2) by (auto simp: selectSize_def s n k Let_def draw_bounds_def)
qed

lemma Generate_policy: "en_policy (snd (Generate R e)) = en_policy e"
  using selectSize_policy [of R e]
  by (auto simp: Generate_def Let_def split: prod.splits sum.splits option.splits)

lemma Generate_bounds:
  assumes "rng_ok R" and "draw_bounds (en_policy e)"
  shows "\<exists>bs. fst (Generate R e) = Inr bs \<and> (bs = [] \<or>
    pad_MinPaddingBytes (en_policy e) \<le> int (length bs) \<and>
    int (length bs) \<le> pad_MaxPaddingBytes (en_policy e))"
proof (cases "pad_Mode (en_policy e) = ''none''")
  case True
  then show ?thesis by (simp add: Generate_def)
next
  case False
  obtain res e' where s: "selectSize R e = (res, e')" by (cases "selectSize R e")
  from selectSize_result [OF assms] consider "res = Inr None"
    | n where "res = Inr (Some n)" "pad_MinPaddingBytes (en_policy e) \<le> n" "n \<le> pad_MaxPaddingBytes (en_policy e)"
    by (auto simp: s)
  then show ?thesis
  proof cases
    case 1
    then show ?thesis using False by (simp add: Generate_def s)
  next
    case (2 n)
    obtain bs r where f: "pad_fill R (nat n) (en_rng e') = (bs, r)" by (cases "pad_fill R (nat n) (en_rng e')")
    have "0 \<le> n" using 2 assms(2) by (simp add: draw_bounds_def)
    moreover have "length bs = nat n" using length_pad_fill [of R "nat n" "en_rng e'"] by (simp add: f)
    ultimately show ?thesis using 2 False by (simp add: Generate_def s f)
  qed
qed

lemma GenerateInto_Generate:
  assumes "rng_ok R" and "draw_bounds (en_policy e)"
    and "pad_Mode (en_policy e) = ''none'' \<or> pad_MaxPaddingBytes (en_policy e) \<le> int (length dst)"
  shows "GenerateInto R dst e = (case Generate R e of
      (Inl err, e') \<Rightarrow> (Inl err, e')
    | (Inr bs, e') \<Rightarrow> (Inr (int (length bs), bs @ drop (length bs) dst), e'))"
proof (cases "pad_Mode (en_policy e) = ''none''")
  case True
  then show ?thesis by (simp add: Generate_def GenerateInto_def)
next
  case False
  let ?lo = "pad_MinPaddingBytes (en_policy e)" and ?hi = "pad_MaxPaddingBytes (en_policy e)"
  have d: "int64 (?hi - ?lo) = ?hi - ?lo"
    using assms(2) by (intro int64_id) (auto simp: draw_bounds_def in_int64_def)
  obtain res e' where s: "selectSize R e = (res, e')" by (cases "selectSize R e")
  have into: "GenerateInto R dst e = (case selectSize R e of
        (Inl err, e) \<Rightarrow> (Inl err, e)
      | (Inr None, e) \<Rightarrow> (Inr (0, dst), e)
      | (Inr (Some len), e) \<Rightarrow>
          let (bs, r) = pad_fill R (nat len) (en_rng e) in (Inr (len, copy_at 0 bs dst), e\<lparr>en_rng := r\<rparr>))"
    using False assms(2,3) d by (simp add: GenerateInto_def Let_def draw_bounds_def)
  from selectSize_result [OF assms(1,2)] consider "res = Inr None"
    | n where "res = Inr (Some n)" "?lo \<le> n" "n \<le> ?hi"
    by (auto simp: s)
  then show ?thesis
  proof cases
    case 1
    then show ?thesis using False by (simp add: into Generate_def s)
  next
    case (2 n)
    obtain bs r where f: "pad_fill R (nat n) (en_rng e') = (bs, r)" by (cases "pad_fill R (nat n) (en_rng e')")
    have "0 \<le> n" using 2 assms(2) by (simp add: draw_bounds_def)
    moreover have "length bs = nat n" using length_pad_fill [of R "nat n" "en_rng e'"] by (simp add: f)
    moreover have "nat n \<le> length dst" using 2 False assms(3) by simp
    ultimately show ?thesis using 2 False by (simp add: into Generate_def s f copy_at_def)
  qed
qed

section \<open>Properties\<close>

text \<open>A counter in place of the pseudo-random source, for concrete runs.\<close>

definition counter_rng :: "nat rng" where
  "counter_rng = \<lparr>rng_Seed = nat, rng_Intn = (\<lambda>n r. (int r mod n, Suc r)),
     rng_Float64 = (\<lambda>r. (Finite 0, Suc r))\<rparr>"

lemma counter_rng_ok: "rng_ok counter_rng"
  by (simp add: rng_ok_def counter_rng_def)

text \<open>
  C19: For every padding policy that profile validation accepts and whose upper bound is below
  \<open>2 ^ 63 - 1\<close>, so that the width of the draw is representable, and for every state of the random
  source, \<open>Generate\<close> returns: the padding is empty or its length lies between the policy's bounds,
  and \<open>GenerateInto\<close> on a buffer of at least the maximal length produces the same bytes, the same count
  and the same engine state, keeping the rest of the buffer.
\<close>

theorem padding_generators_agree:
  assumes "rng_ok R" and "validatePadding (en_policy e) = None"
    and "pad_MaxPaddingBytes (en_policy e) < 2 ^ 63 - 1"
    and "pad_MaxPaddingBytes (en_policy e) \<le> int (length dst)"
  shows "\<exists>bs e'. Generate R e = (Inr bs, e') \<and>
    (bs = [] \<or> pad_MinPaddingBytes (en_policy e) \<le> int (length bs) \<and>
       int (length bs) \<le> pad_MaxPaddingBytes (en_policy e)) \<and>
    GenerateInto R dst e = (Inr (int (length bs), bs @ drop (length bs) dst), e')"
proof -
  have b: "draw_bounds (en_policy e)"
    using assms(2,3) by (auto simp: validatePadding_def draw_bounds_def)
  obtain bs where bs: "fst (Generate R e) = Inr bs" "bs = [] \<or>
      pad_MinPaddingBytes (en_policy e) \<le> int (length bs) \<and>
      int (length bs) \<le> pad_MaxPaddingBytes (en_policy e)"
    using Generate_bounds [OF assms(1) b] by blast
  obtain e' where "Generate R e = (Inr bs, e')" using bs(1) by (cases "Generate R e") simp
  then show ?thesis using bs(2) GenerateInto_Generate [OF assms(1) b, of dst] assms(4) by simp
qed

theorem padding_generators_agree_witness:
  "fst (Generate counter_rng (New counter_rng
      \<lparr>pad_Mode = ''bounded'', pad_MinPaddingBytes = 2, pad_MaxPaddingBytes = 4, pad_Probability = Finite 0\<rparr> 7)) =
     Inr [8, 9, 10] \<and>
   fst (GenerateInto counter_rng [0, 0, 0, 0, 0] (New counter_rng
      \<lparr>pad_Mode = ''bounded'', pad_MinPaddingBytes = 2, pad_MaxPaddingBytes = 4, pad_Probability = Finite 0\<rparr> 7)) =
     Inr (3, [8, 9, 10, 0, 0])"
proof -
  let ?p = "\<lparr>pad_Mode = ''bounded'', pad_MinPaddingBytes = 2, pad_MaxPaddingBytes = 4, pad_Probability = Finite 0\<rparr>"
  let ?e = "New counter_rng ?p 7"
  have e: "en_policy ?e = ?p" by (simp add: New_def)
  have g: "fst (Generate counter_rng ?e) = Inr [8, 9, 10]" by code_simp
  have "validatePadding ?p = None" by code_simp
  then show ?thesis
    using padding_generators_agree [of counter_rng ?e "[0, 0, 0, 0, 0]"] counter_rng_ok g
    by (auto simp: e)
qed

text \<open>
  C20: Profile validation puts no upper bound on \<open>MaxPaddingBytes\<close>. For the largest integer the
  width of the draw overflows: \<open>Generate\<close> panics inside the random source, where
  \<open>GenerateInto\<close> reports invalid bounds, for every random source and engine state.
\<close>

theorem padding_bound_overflow:
  assumes "en_policy e = \<lparr>pad_Mode = ''bounded'', pad_MinPaddingBytes = 0,
    pad_MaxPaddingBytes = 2 ^ 63 - 1, pad_Probability = Finite 0\<rparr>"
  shows "validatePadding (en_policy e) = None \<and> fst (Generate R e) = Inl PadPanic \<and>
    fst (GenerateInto R dst e) = Inl PadInvalidBounds"
proof -
  have "int64 (2 ^ 63 - 1 - 0 + 1) = - (2 ^ 63)" by (simp add: int64_wrap)
  then show ?thesis using assms
    by (auto simp: validatePadding_def oneOf_def Generate_def GenerateInto_def selectSize_def
        skip_draw_def Let_def float_eq_def int64_id in_int64_def)
qed

theorem padding_bound_overflow_witness:
  "fst (Generate counter_rng (New counter_rng \<lparr>pad_Mode = ''bounded'', pad_MinPaddingBytes = 0,
     pad_MaxPaddingBytes = 2 ^ 63 - 1, pad_Probability = Finite 0\<rparr> 0)) = Inl PadPanic"
  using padding_bound_overflow [of "New counter_rng \<lparr>pad_Mode = ''bounded'', pad_MinPaddingBytes = 0,
     pad_MaxPaddingBytes = 2 ^ 63 - 1, pad_Probability = Finite 0\<rparr> 0" counter_rng "[]"]
  by (simp add: New_def)

end
