(* ===== verification/Crc32.thy ===== *)
theory Crc32
  imports Prelude
begin

text \<open>
  The IEEE CRC-32 of \<open>hash/crc32\<close> as the frame codec uses it: the table of the reversed
  polynomial, the table-driven update and the checksum. The theory relates the table-driven
  update to the bitwise shift register, and derives that checksums compose over
  concatenation and that a change confined to four consecutive bytes always alters the
  checksum.
\<close>

section \<open>The table-driven update\<close>

definition crc_step :: "u32 \<Rightarrow> u32" where
  "crc_step c = (if bit c 0 then drop_bit 1 c XOR 0xEDB88320 else drop_bit 1 c)"

definition crc_table :: "byte \<Rightarrow> u32" where
  "crc_table i = (crc_step ^^ 8) (ucast i)"

definition crc_byte :: "u32 \<Rightarrow> byte \<Rightarrow> u32" where
  "crc_byte c v = crc_table (ucast c XOR v) XOR drop_bit 8 c"

definition crc32_Update :: "u32 \<Rightarrow> bytes \<Rightarrow> u32" where
  "crc32_Update c p = NOT (foldl crc_byte (NOT c) p)"

definition ChecksumIEEE :: "bytes \<Rightarrow> u32" where
  "ChecksumIEEE p = crc32_Update 0 p"

text \<open>The published checksum of the one-byte message \<open>a\<close>.\<close>

lemma crc_check_value: "ChecksumIEEE [97] = 0xE8B7BE43"
  by code_simp

text \<open>Updating in two pieces is updating with the concatenation.\<close>

lemma crc32_Update_append: "crc32_Update (crc32_Update c a) b = crc32_Update c (a @ b)"
  by (simp add: crc32_Update_def)

section \<open>The shift register\<close>

lemma crc_step_xor: "crc_step (a XOR b) = crc_step a XOR crc_step b"
  by (auto simp: crc_step_def bit_xor_iff drop_bit_xor ac_simps xor.left_commute)

lemma crc_steps_xor: "(crc_step ^^ n) (a XOR b) = (crc_step ^^ n) a XOR (crc_step ^^ n) b"
  by (induction n) (simp_all add: crc_step_xor)

lemma xor_cancel: "a XOR k = b XOR k \<Longrightarrow> a = (b :: u32)"
proof -
  assume "a XOR k = b XOR k"
  then have "(a XOR k) XOR k = (b XOR k) XOR k" by simp
  then show "a = b" by (simp add: xor.assoc)
qed

lemma crc_step_inj: "crc_step a = crc_step b \<Longrightarrow> a = b"
proof -
  assume eq: "crc_step a = crc_step b"
  have poly: "bit (0xEDB88320 :: u32) 31" by (simp add: bit_iff_odd)
  have "\<not> bit c 32" for c :: u32 using bit_imp_le_length [of c 32] by auto
  then have top: "bit (crc_step c) 31 = bit c 0" for c
    using poly by (simp add: crc_step_def bit_xor_iff bit_drop_bit_eq)
  then have 0: "bit a 0 = bit b 0" using eq by metis
  then have "drop_bit 1 a = drop_bit 1 b" using eq by (auto simp: crc_step_def dest: xor_cancel split: if_splits)
  then have "bit a (Suc n) = bit b (Suc n)" for n
    by (metis bit_drop_bit_eq comp_apply plus_1_eq_Suc)
  then have "bit a n = bit b n" for n using 0 by (cases n) auto
  then show "a = b" by (intro bit_eqI) simp
qed

lemma crc_steps_inj: "(crc_step ^^ n) a = (crc_step ^^ n) b \<Longrightarrow> a = b"
  by (induction n) (auto dest: crc_step_inj)

lemma crc_steps_shift: "(\<And>i. i < n \<Longrightarrow> \<not> bit x i) \<Longrightarrow> (crc_step ^^ n) x = drop_bit n x"
proof (induction n)
  case 0
  then show ?case by simp
next
  case (Suc n)
  have "\<not> bit (drop_bit n x) 0" using Suc.prems [of n] by (simp add: bit_drop_bit_eq)
  then have "crc_step (drop_bit n x) = drop_bit (Suc n) x" by (simp add: crc_step_def)
  then show ?case using Suc by simp
qed

lemma crc_byte_steps: "crc_byte c v = (crc_step ^^ 8) (c XOR ucast v)"
proof -
  let ?lo = "ucast (ucast c XOR v) :: u32" and ?hi = "push_bit 8 (drop_bit 8 c)"
  have "c XOR ucast v = ?lo XOR ?hi"
    by (rule bit_eqI) (auto simp: bit_xor_iff bit_ucast_iff bit_push_bit_iff bit_drop_bit_eq
        dest: bit_imp_le_length)
  moreover have "(crc_step ^^ 8) ?hi = drop_bit 8 ?hi"
    by (rule crc_steps_shift) (simp add: bit_push_bit_iff)
  moreover have "drop_bit 8 ?hi = drop_bit 8 c"
    using bit_imp_le_length [of c] by (intro bit_eqI) (fastforce simp: bit_push_bit_iff bit_drop_bit_eq)
  ultimately show ?thesis by (simp add: crc_byte_def crc_table_def crc_steps_xor)
qed

text \<open>The bytes of a burst as the word that enters the register.\<close>

fun burst_word :: "bytes \<Rightarrow> u32" where
  "burst_word [] = 0"
| "burst_word (b # bs) = ucast b XOR push_bit 8 (burst_word bs)"

lemma crc_steps_push:
  assumes "\<And>i. bit x i \<Longrightarrow> i < 24"
  shows "(crc_step ^^ 8) (push_bit 8 x) = x"
proof -
  have "(crc_step ^^ 8) (push_bit 8 x) = drop_bit 8 (push_bit 8 x)"
    by (rule crc_steps_shift) (simp add: bit_push_bit_iff)
  also have "\<dots> = x"
    by (rule bit_eqI) (use assms in \<open>auto simp: bit_push_bit_iff bit_drop_bit_eq\<close>)
  finally show ?thesis .
qed

lemma bit_burst_word: "bit (burst_word bs) i \<Longrightarrow> i < 8 * length bs"
proof (induction bs arbitrary: i)
  case Nil
  then show ?case by simp
next
  case (Cons b bs)
  then have "bit b i \<or> 8 \<le> i \<and> bit (burst_word bs) (i - 8)"
    by (auto simp: bit_xor_iff bit_ucast_iff bit_push_bit_iff)
  then show ?case using Cons.IH [of "i - 8"] bit_imp_le_length [of b i] by auto
qed

lemma burst_word_inj: "length a = length b \<Longrightarrow> length a \<le> 4 \<Longrightarrow> burst_word a = burst_word b \<Longrightarrow> a = b"
proof (induction a b rule: list_induct2)
  case Nil
  then show ?case by simp
next
  case (Cons x xs y ys)
  have eq: "bit (ucast x XOR push_bit 8 (burst_word xs) :: u32) i =
      bit (ucast y XOR push_bit 8 (burst_word ys) :: u32) i" for i
    using Cons.prems by simp
  have "bit x i = bit y i" for i
    using eq [of i] bit_imp_le_length [of x i] bit_imp_le_length [of y i]
    by (cases "i < 8") (auto simp: bit_xor_iff bit_ucast_iff bit_push_bit_iff)
  then have "x = y" by (intro bit_eqI) simp
  have "bit (burst_word xs) i = bit (burst_word ys) i" for i
  proof (cases "i < 24")
    case True
    then show ?thesis
      using eq [of "i + 8"] bit_imp_le_length [of x "i + 8"] bit_imp_le_length [of y "i + 8"]
      by (auto simp: bit_xor_iff bit_ucast_iff bit_push_bit_iff)
  next
    case False
    then show ?thesis
      using bit_burst_word [of xs i] bit_burst_word [of ys i] Cons.prems(1) Cons.hyps by auto
  qed
  then have w: "burst_word xs = burst_word ys" by (rule bit_eqI)
  have "length xs \<le> 4" using Cons.prems(1) by simp
  then have "xs = ys" by (rule Cons.IH) (rule w)
  then show ?case using \<open>x = y\<close> by simp
qed

lemma crc_burst:
  "length w \<le> 4 \<Longrightarrow> foldl crc_byte c w = (crc_step ^^ (8 * length w)) (c XOR burst_word w)"
proof (induction w arbitrary: c)
  case Nil
  then show ?case by simp
next
  case (Cons b w)
  have "bit (burst_word w) i \<Longrightarrow> i < 24" for i using bit_burst_word [of w i] Cons.prems by simp
  then have push: "(crc_step ^^ 8) (push_bit 8 (burst_word w)) = burst_word w" by (rule crc_steps_push)
  have "foldl crc_byte c (b # w) =
      (crc_step ^^ (8 * length w)) ((crc_step ^^ 8) (c XOR ucast b) XOR burst_word w)"
    using Cons.IH [of "crc_byte c b"] Cons.prems by (simp add: crc_byte_steps [of c b])
  also have "(crc_step ^^ 8) (c XOR ucast b) XOR burst_word w =
      (crc_step ^^ 8) (c XOR burst_word (b # w))"
    by (simp add: crc_steps_xor push xor.assoc)
  also have "(crc_step ^^ (8 * length w)) ((crc_step ^^ 8) (c XOR burst_word (b # w))) =
      (crc_step ^^ (8 * length (b # w))) (c XOR burst_word (b # w))"
    using funpow_add [of "8 * length w" 8 crc_step] by (simp add: add.commute)
  finally show ?case .
qed

lemma crc_fold_inj: "foldl crc_byte c bs = foldl crc_byte d bs \<Longrightarrow> c = d"
proof (induction bs arbitrary: c d)
  case Nil
  then show ?case by simp
next
  case (Cons b bs)
  then have "crc_byte c b = crc_byte d b" by simp
  then have "c XOR ucast b = d XOR ucast b" unfolding crc_byte_steps by (rule crc_steps_inj)
  then show ?case by (rule xor_cancel)
qed

text \<open>A change within four consecutive bytes changes the checksum.\<close>

lemma crc_detects_burst:
  assumes "length w = length w'" and "length w \<le> 4"
    and "crc32_Update c (a @ w @ b) = crc32_Update c (a @ w' @ b)"
  shows "w = w'"
proof -
  let ?c = "foldl crc_byte (NOT c) a"
  have "foldl crc_byte (foldl crc_byte ?c w) b = foldl crc_byte (foldl crc_byte ?c w') b"
    using assms(3) by (simp add: crc32_Update_def)
  then have "foldl crc_byte ?c w = foldl crc_byte ?c w'" by (rule crc_fold_inj)
  then have "?c XOR burst_word w = ?c XOR burst_word w'"
    using crc_steps_inj assms(1,2) by (simp add: crc_burst)
  then have "?c XOR (?c XOR burst_word w) = ?c XOR (?c XOR burst_word w')" by simp
  then have "burst_word w = burst_word w'" by (simp add: xor.assoc [symmetric])
  then show ?thesis using burst_word_inj assms by blast
qed

end
