(* ===== verification/Framing_Spec.thy ===== *)
theory Framing_Spec
  imports Padding_Engine Crc32
begin

text \<open>
  The codec specification of \<open>internal/protocol/framing\<close> and the pieces of a frame that depend
  only on it: the projection of a profile into a \<open>codecSpec\<close>, the message lookups, the stream
  id encodings, the header fields in the profile's order and the length wrapper. Each piece
  has its round trip.
\<close>

section \<open>Codec specifications\<close>

datatype fragment_error_kind = FragmentErrorEmpty | FragmentErrorMissing
  | FragmentErrorConflictingCount | FragmentErrorSemantic | FragmentErrorStream
  | FragmentErrorMessage | FragmentErrorOperation | FragmentErrorOutOfRange
  | FragmentErrorDuplicate | FragmentErrorReordered

datatype framing_error = FrErr string | FrUnexpectedEOF | FrEOF | FrFragment fragment_error_kind
  | FrPadding padding_error | FrProfile ir_error | FrLiveBuffer

record codec_message =
  cm_semantic :: string
  cm_wireSymbol :: string
  cm_typeTag :: bytes

record codec_spec =
  sp_messages :: "codec_message list"
  sp_lengthMode :: string
  sp_checksumMode :: string
  sp_headerOrder :: "string list"
  sp_fragmentationMode :: string
  sp_paddingPlacement :: string
  sp_padding :: padding_policy
  sp_maxFrameBytes :: int
  sp_maxPayloadBytes :: int
  sp_maxBatchBytes :: int
  sp_streamEncodingMode :: string
  sp_profileXORStreamMask :: u32
  sp_tableStreamMask :: u32
  sp_crc32PrefixState :: u32

text \<open>\<open>fmt.Sprint\<close> of a slice of strings: the elements between brackets, one space apart.\<close>

fun join_spaces :: "string list \<Rightarrow> string" where
  "join_spaces [] = ''''"
| "join_spaces [s] = s"
| "join_spaces (s # t # ss) = s @ '' '' @ join_spaces (t # ss)"

definition sprint_strings :: "string list \<Rightarrow> string" where
  "sprint_strings ss = ''['' @ join_spaces ss @ '']''"

definition crc_string :: "string \<Rightarrow> u32" where
  "crc_string s = ChecksumIEEE (string_bytes s)"

fun symbol_index :: "string \<Rightarrow> nat \<Rightarrow> message_symbol list \<Rightarrow> nat option" where
  "symbol_index wire i [] = None"
| "symbol_index wire i (m # ms) = (if msg_WireSymbol m = wire then Some i else symbol_index wire (Suc i) ms)"

definition legacyTypeTagFromProfile :: "profile \<Rightarrow> message_symbol \<Rightarrow> bytes" where
  "legacyTypeTagFromProfile p m =
     (let mode = fg_TypeMode (pr_FrameGrammar p) in
      if mode = ''table_indexed_symbol'' then
        (case symbol_index (msg_WireSymbol m) 0 (pr_Messages p) of
           Some i \<Rightarrow> [word_of_nat i, ucast (crc_string (pr_ID p @ '':'' @ msg_WireSymbol m))]
         | None \<Rightarrow> [])
      else if mode = ''derived_from_state'' then
        put_be 4 (unat (crc_string (pr_ID p @ '':state:'' @ msg_WireSymbol m)))
      else if mode = ''derived_from_header_order'' then
        put_be 4 (unat (crc_string
          (sprint_strings (fg_HeaderOrder (pr_FrameGrammar p)) @ '':'' @ msg_WireSymbol m)))
      else string_bytes (msg_WireSymbol m))"

definition legacyStreamMaskFromProfile :: "profile \<Rightarrow> string \<Rightarrow> u32" where
  "legacyStreamMaskFromProfile p salt = crc_string
     (pr_ID p @ '':'' @ salt @ '':'' @ sprint_strings (fg_HeaderOrder (pr_FrameGrammar p)))"

text \<open>
  The projection of a profile that has passed validation; \<open>codecSpecFromProfile\<close> guards it
  with \<open>Validate\<close>.
\<close>

definition profile_spec :: "profile \<Rightarrow> codec_spec" where
  "profile_spec p =
     \<lparr>sp_messages = map (\<lambda>m. \<lparr>cm_semantic = msg_Semantic m, cm_wireSymbol = msg_WireSymbol m,
          cm_typeTag = legacyTypeTagFromProfile p m\<rparr>) (pr_Messages p),
      sp_lengthMode = fg_LengthMode (pr_FrameGrammar p),
      sp_checksumMode = fg_ChecksumMode (pr_FrameGrammar p),
      sp_headerOrder = fg_HeaderOrder (pr_FrameGrammar p),
      sp_fragmentationMode = fg_FragmentationMode (pr_FrameGrammar p),
      sp_paddingPlacement = fg_PaddingPlacement (pr_FrameGrammar p),
      sp_padding = pr_Padding p,
      sp_maxFrameBytes = lim_MaxFrameBytes (pr_Limits p),
      sp_maxPayloadBytes = lim_MaxPayloadBytes (pr_Limits p),
      sp_maxBatchBytes = sched_MaxBatchBytes (pr_Scheduler p),
      sp_streamEncodingMode = str_IDEncodingMode (pr_Stream p),
      sp_profileXORStreamMask = legacyStreamMaskFromProfile p ''profile'',
      sp_tableStreamMask = legacyStreamMaskFromProfile p ''table'',
      sp_crc32PrefixState = crc32_Update 0 (string_bytes (pr_ID p))\<rparr>"

definition codecSpecFromProfile :: "ir_env \<Rightarrow> profile option \<Rightarrow> framing_error + codec_spec" where
  "codecSpecFromProfile env profile =
     (case Validate env profile of
        Some err \<Rightarrow> Inl (FrProfile err)
      | None \<Rightarrow> (case profile of None \<Rightarrow> Inl (FrProfile ''profile is nil'') | Some p \<Rightarrow> Inr (profile_spec p)))"

definition messageBySemantic :: "codec_spec \<Rightarrow> string \<Rightarrow> codec_message option" where
  "messageBySemantic spec semantic = find (\<lambda>m. cm_semantic m = semantic) (sp_messages spec)"

definition messageByTag :: "codec_spec \<Rightarrow> bytes \<Rightarrow> codec_message option" where
  "messageByTag spec tag = find (\<lambda>m. cm_typeTag m = tag) (sp_messages spec)"

section \<open>Stream ids\<close>

definition writeStreamID :: "codec_spec \<Rightarrow> u32 \<Rightarrow> framing_error + bytes" where
  "writeStreamID spec streamID =
     (let mode = sp_streamEncodingMode spec in
      if mode = ''fixed32_be'' \<or> mode = '''' then Inr (put_be 4 (unat streamID))
      else if mode = ''profile_xor32'' then
        Inr (put_be 4 (unat (streamID XOR sp_profileXORStreamMask spec)))
      else if mode = ''table_mapped32_le'' then
        Inr (put_le 4 (unat (streamID XOR sp_tableStreamMask spec)))
      else if mode = ''varint'' then Inr (put_uvarint (unat streamID))
      else Inl (FrErr ''unsupported stream id encoding''))"

definition encodeStreamIDWithSpec :: "codec_spec \<Rightarrow> u32 \<Rightarrow> framing_error + bytes" where
  "encodeStreamIDWithSpec spec streamID = writeStreamID spec streamID"

definition decodeStreamIDWithSpec :: "codec_spec \<Rightarrow> bytes \<Rightarrow> framing_error + u32" where
  "decodeStreamIDWithSpec spec encoded =
     (let mode = sp_streamEncodingMode spec in
      if mode = ''fixed32_be'' \<or> mode = '''' then
        (if length encoded \<noteq> 4 then Inl (FrErr ''invalid fixed stream id length'')
         else Inr (word_of_nat (get_be encoded)))
      else if mode = ''profile_xor32'' then
        (if length encoded \<noteq> 4 then Inl (FrErr ''invalid xor stream id length'')
         else Inr (word_of_nat (get_be encoded) XOR sp_profileXORStreamMask spec))
      else if mode = ''table_mapped32_le'' then
        (if length encoded \<noteq> 4 then Inl (FrErr ''invalid table stream id length'')
         else Inr (word_of_nat (get_le encoded) XOR sp_tableStreamMask spec))
      else if mode = ''varint'' then
        (let (v, n) = uvarint encoded in
         if n \<le> 0 \<or> v > 2 ^ 32 - 1 then Inl (FrErr ''invalid varint stream id'')
         else Inr (word_of_nat v))
      else Inl (FrErr ''unsupported stream id encoding''))"

lemma xor_mask_twice: "(w XOR m) XOR m = (w :: u32)"
  by (simp add: xor.assoc)

lemma unat_u32_less: "unat (w :: u32) < 2 ^ 32"
  using unsigned_less [where w = w and 'a = nat] by simp

lemma decode_writeStreamID:
  assumes "writeStreamID spec w = Inr b"
  shows "decodeStreamIDWithSpec spec b = Inr w \<and> 0 < length b \<and> length b \<le> 5"
proof -
  have "unat w < 2 ^ 64" "unat w < 128 ^ 5" using unat_u32_less [of w] by simp_all
  then have "uvarint (put_uvarint (unat w)) = (unat w, int (uvarint_size (unat w)))"
    "uvarint_size (unat w) \<le> 5"
    using uvarint_put [of "unat w" "[]"] uvarint_size_le [of "unat w" 5] by simp_all
  then show ?thesis
    using assms unat_u32_less [of w] uvarint_size_pos [of "unat w"]
    by (auto simp: writeStreamID_def decodeStreamIDWithSpec_def Let_def get_put_be_u32
        get_put_le_u32 xor_mask_twice length_put_uvarint split: if_splits)
qed

interpretation stream_id: byte_codec "\<lambda>_. True" "encodeStreamIDWithSpec spec" "decodeStreamIDWithSpec spec"
  for spec
  by unfold_locales (simp add: encodeStreamIDWithSpec_def decode_writeStreamID)

section \<open>Header fields\<close>

text \<open>
  One header field as \<open>writeHeaderFields\<close> emits it: \<open>length\<close> and unknown fields write nothing.
  The 16-bit conversions of the fragment and padding numbers truncate.
\<close>

definition u16_bytes :: "int \<Rightarrow> bytes" where
  "u16_bytes x = put_be 2 (nat (x mod 2 ^ 16))"

definition header_field :: "codec_message \<Rightarrow> bytes \<Rightarrow> int \<Rightarrow> int \<Rightarrow> int \<Rightarrow> string \<Rightarrow> bytes" where
  "header_field msg stream fragIndex fragCount padLen field =
     (if field = ''type'' then word_of_nat (length (cm_typeTag msg)) # cm_typeTag msg
      else if field = ''stream'' then word_of_nat (length stream) # stream
      else if field = ''flags'' then
        ((if fragCount > 1 then 1 else 0) OR (if padLen > 0 then 2 else 0)) #
          u16_bytes fragIndex @ u16_bytes fragCount @ u16_bytes padLen
      else [])"

definition writeHeaderFields ::
  "codec_spec \<Rightarrow> codec_message \<Rightarrow> u32 \<Rightarrow> int \<Rightarrow> int \<Rightarrow> int \<Rightarrow> framing_error + bytes" where
  "writeHeaderFields spec msg streamID fragIndex fragCount padLen =
     bind_result (writeStreamID spec streamID) (\<lambda>stream.
       if length (cm_typeTag msg) > 255 then Inl (FrErr ''type tag too long'')
       else Inr (concat (map (header_field msg stream fragIndex fragCount padLen) (sp_headerOrder spec))))"

definition header_field_size :: "codec_message \<Rightarrow> nat \<Rightarrow> string \<Rightarrow> int" where
  "header_field_size msg n field =
     (if field = ''type'' then 1 + int (length (cm_typeTag msg))
      else if field = ''stream'' then 1 + int n
      else if field = ''flags'' then 7 else 0)"

fun header_size_loop :: "codec_message \<Rightarrow> nat \<Rightarrow> int \<Rightarrow> int \<Rightarrow> string list \<Rightarrow> framing_error + int" where
  "header_size_loop msg n limit used [] = Inr used"
| "header_size_loop msg n limit used (field # fs) =
     (let fieldBytes = header_field_size msg n field in
      if fieldBytes > limit - used then Inl (FrErr ''frame exceeds profile limit'')
      else header_size_loop msg n limit (used + fieldBytes) fs)"

definition headerFieldsSize :: "codec_spec \<Rightarrow> codec_message \<Rightarrow> u32 \<Rightarrow> int \<Rightarrow> framing_error + int" where
  "headerFieldsSize spec msg streamID limit =
     bind_result (writeStreamID spec streamID) (\<lambda>stream.
       if length (cm_typeTag msg) > 255 then Inl (FrErr ''type tag too long'')
       else if limit < 0 then Inl (FrErr ''frame exceeds profile limit'')
       else header_size_loop msg (length stream) limit 0 (sp_headerOrder spec))"

definition encodeHeaderFieldsWithSpec ::
  "codec_spec \<Rightarrow> codec_message \<Rightarrow> u32 \<Rightarrow> int \<Rightarrow> int \<Rightarrow> int \<Rightarrow> framing_error + bytes" where
  "encodeHeaderFieldsWithSpec spec msg streamID fragIndex fragCount padLen =
     bind_result (headerFieldsSize spec msg streamID (sp_maxFrameBytes spec)) (\<lambda>len.
     bind_result (writeHeaderFields spec msg streamID fragIndex fragCount padLen) (\<lambda>b.
       Inr (copy_at 0 b (replicate (nat len) 0))))"

record header_state =
  hs_msg :: "codec_message option"
  hs_streamID :: u32
  hs_fragIndex :: int
  hs_fragCount :: int
  hs_padLen :: int
  hs_rest :: bytes

definition decode_type_field :: "codec_spec \<Rightarrow> header_state \<Rightarrow> framing_error + header_state" where
  "decode_type_field spec st = (case hs_rest st of [] \<Rightarrow> Inl FrUnexpectedEOF
     | l # rest \<Rightarrow>
       (if length rest < unat l then Inl FrUnexpectedEOF
        else case messageByTag spec (take (unat l) rest) of
          None \<Rightarrow> Inl (FrErr ''unknown type tag'')
        | Some m \<Rightarrow> Inr (st\<lparr>hs_msg := Some m, hs_rest := drop (unat l) rest\<rparr>)))"

definition decode_stream_field :: "codec_spec \<Rightarrow> header_state \<Rightarrow> framing_error + header_state" where
  "decode_stream_field spec st = (case hs_rest st of [] \<Rightarrow> Inl FrUnexpectedEOF
     | l # rest \<Rightarrow>
       (if unat l = 0 \<or> length rest < unat l then Inl FrUnexpectedEOF
        else bind_result (decodeStreamIDWithSpec spec (take (unat l) rest)) (\<lambda>w.
          Inr (st\<lparr>hs_streamID := w, hs_rest := drop (unat l) rest\<rparr>))))"

definition decode_flags_field :: "header_state \<Rightarrow> framing_error + header_state" where
  "decode_flags_field st = (let rest = hs_rest st in
     if length rest < 7 then Inl FrUnexpectedEOF
     else Inr (st\<lparr>hs_fragIndex := int (get_be (take 2 (drop 1 rest))),
                  hs_fragCount := int (get_be (take 2 (drop 3 rest))),
                  hs_padLen := int (get_be (take 2 (drop 5 rest))),
                  hs_rest := drop 7 rest\<rparr>))"

definition decode_field :: "codec_spec \<Rightarrow> string \<Rightarrow> header_state \<Rightarrow> framing_error + header_state" where
  "decode_field spec field st =
     (if field = ''type'' then decode_type_field spec st
      else if field = ''stream'' then decode_stream_field spec st
      else if field = ''flags'' then decode_flags_field st
      else Inr st)"

fun decode_fields :: "codec_spec \<Rightarrow> string list \<Rightarrow> header_state \<Rightarrow> framing_error + header_state" where
  "decode_fields spec [] st = Inr st"
| "decode_fields spec (field # fs) st =
     bind_result (decode_field spec field st) (decode_fields spec fs)"

definition decodeHeaderAndPayloadWithSpec :: "codec_spec \<Rightarrow> bytes \<Rightarrow>
    framing_error + (codec_message \<times> u32 \<times> int \<times> int \<times> int \<times> bytes)" where
  "decodeHeaderAndPayloadWithSpec spec body =
     bind_result (decode_fields spec (sp_headerOrder spec)
       \<lparr>hs_msg = None, hs_streamID = 0, hs_fragIndex = 0, hs_fragCount = 1, hs_padLen = 0, hs_rest = body\<rparr>)
     (\<lambda>st. case hs_msg st of
        None \<Rightarrow> Inl (FrErr ''missing type tag'')
      | Some msg \<Rightarrow>
          if hs_fragCount st \<le> 0 then Inl (FrErr ''invalid fragment count'')
          else Inr (msg, hs_streamID st, hs_fragIndex st, hs_fragCount st, hs_padLen st, hs_rest st))"

section \<open>The length wrapper\<close>

definition lengthWrapperSize :: "codec_spec \<Rightarrow> int \<Rightarrow> framing_error + int" where
  "lengthWrapperSize spec bodyBytes =
     (let mode = sp_lengthMode spec in
      if mode = ''varint_prefix'' then Inr (int (uvarint_size (nat bodyBytes)))
      else if mode = ''fixed_2_prefix'' then
        (if bodyBytes > 65535 then Inl (FrErr ''frame too large for fixed 2-byte length'') else Inr 2)
      else if mode = ''fixed_4_prefix'' \<or> mode = ''length_suffix_lab'' then Inr 4
      else Inl (FrErr ''unsupported length mode''))"

definition wrapLengthWithSpec :: "codec_spec \<Rightarrow> bytes \<Rightarrow> framing_error + bytes" where
  "wrapLengthWithSpec spec body =
     (let mode = sp_lengthMode spec in
      if mode = ''varint_prefix'' then Inr (put_uvarint (length body) @ body)
      else if mode = ''fixed_2_prefix'' then
        (if length body > 65535 then Inl (FrErr ''frame too large for fixed 2-byte length'')
         else Inr (put_be 2 (length body) @ body))
      else if mode = ''fixed_4_prefix'' then Inr (put_be 4 (length body) @ body)
      else if mode = ''length_suffix_lab'' then Inr (body @ put_be 4 (length body))
      else Inl (FrErr ''unsupported length mode''))"

definition unwrapLengthWithSpec :: "codec_spec \<Rightarrow> bytes \<Rightarrow> framing_error + bytes" where
  "unwrapLengthWithSpec spec frame =
     (let mode = sp_lengthMode spec in
      if mode = ''varint_prefix'' then
        (let (len, n) = uvarint frame in
         if n \<le> 0 then Inl (FrErr ''invalid varint length'')
         else if int64 (int len) \<noteq> int (length frame) - n then Inl (FrErr ''frame length mismatch'')
         else Inr (drop (nat n) frame))
      else if mode = ''fixed_2_prefix'' then
        (if length frame < 2 then Inl FrUnexpectedEOF
         else if int (get_be (take 2 frame)) \<noteq> int (length frame) - 2 then Inl (FrErr ''frame length mismatch'')
         else Inr (drop 2 frame))
      else if mode = ''fixed_4_prefix'' then
        (if length frame < 4 then Inl FrUnexpectedEOF
         else if int (get_be (take 4 frame)) \<noteq> int (length frame) - 4 then Inl (FrErr ''frame length mismatch'')
         else Inr (drop 4 frame))
      else if mode = ''length_suffix_lab'' then
        (if length frame < 4 then Inl FrUnexpectedEOF
         else if int (get_be (drop (length frame - 4) frame)) \<noteq> int (length frame) - 4
         then Inl (FrErr ''frame length mismatch'')
         else Inr (take (length frame - 4) frame))
      else Inl (FrErr ''unsupported length mode''))"

lemma unwrap_wrapLength:
  assumes "length body < 2 ^ 32" and "wrapLengthWithSpec spec body = Inr frame"
  shows "unwrapLengthWithSpec spec frame = Inr body"
proof -
  consider (varint) "sp_lengthMode spec = ''varint_prefix''" "frame = put_uvarint (length body) @ body"
    | (two) "sp_lengthMode spec = ''fixed_2_prefix''" "length body \<le> 65535" "frame = put_be 2 (length body) @ body"
    | (four) "sp_lengthMode spec = ''fixed_4_prefix''" "frame = put_be 4 (length body) @ body"
    | (suffix) "sp_lengthMode spec = ''length_suffix_lab''" "frame = body @ put_be 4 (length body)"
    using assms(2) by (auto simp: wrapLengthWithSpec_def Let_def split: if_splits)
  then show ?thesis
  proof cases
    case varint
    have "int64 (int (length body)) = int (length body)"
      using assms(1) by (intro int64_id) (simp add: in_int64_def)
    moreover have "uvarint frame = (length body, int (uvarint_size (length body)))"
      unfolding varint(2) using assms(1) by (intro uvarint_put) simp
    ultimately show ?thesis
      using uvarint_size_pos [of "length body"] length_put_uvarint [of "length body"] varint
      by (simp add: unwrapLengthWithSpec_def)
  next
    case two
    then have "get_be (put_be 2 (length body)) = length body" by (intro get_put_be_small) simp
    then show ?thesis using two by (simp add: unwrapLengthWithSpec_def)
  next
    case four
    have "get_be (put_be 4 (length body)) = length body" using assms(1) by (intro get_put_be_small) simp
    then show ?thesis using four by (simp add: unwrapLengthWithSpec_def)
  next
    case suffix
    have "get_be (put_be 4 (length body)) = length body" using assms(1) by (intro get_put_be_small) simp
    then show ?thesis using suffix by (simp add: unwrapLengthWithSpec_def)
  qed
qed

interpretation length_wrapper: byte_codec "\<lambda>body. length body < 2 ^ 32"
    "wrapLengthWithSpec spec" "unwrapLengthWithSpec spec"
  for spec
  by unfold_locales (rule unwrap_wrapLength)

section \<open>Reading a written header\<close>

lemma get_u16_bytes [simp]: "int (get_be (u16_bytes x)) = x mod 2 ^ 16"
  by (simp add: u16_bytes_def get_put_be)

lemma length_u16_bytes [simp]: "length (u16_bytes x) = 2"
  by (simp add: u16_bytes_def)

text \<open>What the decoder knows after reading the written fields \<open>fs\<close>.\<close>

definition header_result ::
  "codec_message \<Rightarrow> u32 \<Rightarrow> int \<Rightarrow> int \<Rightarrow> int \<Rightarrow> string list \<Rightarrow> header_state \<Rightarrow> bytes \<Rightarrow> header_state" where
  "header_result msg w fragIndex fragCount padLen fs st rest =
     \<lparr>hs_msg = (if ''type'' \<in> set fs then Some msg else hs_msg st),
      hs_streamID = (if ''stream'' \<in> set fs then w else hs_streamID st),
      hs_fragIndex = (if ''flags'' \<in> set fs then fragIndex mod 2 ^ 16 else hs_fragIndex st),
      hs_fragCount = (if ''flags'' \<in> set fs then fragCount mod 2 ^ 16 else hs_fragCount st),
      hs_padLen = (if ''flags'' \<in> set fs then padLen mod 2 ^ 16 else hs_padLen st),
      hs_rest = rest\<rparr>"

lemma decode_field_written:
  assumes "writeStreamID spec w = Inr stream" and "length (cm_typeTag msg) \<le> 255"
    and "messageByTag spec (cm_typeTag msg) = Some msg"
    and "hs_rest st = header_field msg stream fragIndex fragCount padLen field @ rest"
  shows "decode_field spec field st = Inr (header_result msg w fragIndex fragCount padLen [field] st rest)"
proof -
  have stream: "decodeStreamIDWithSpec spec stream = Inr w" "0 < length stream" "length stream \<le> 5"
    using decode_writeStreamID [OF assms(1)] by simp_all
  consider (type) "field = ''type''" | (stream) "field = ''stream''" | (flags) "field = ''flags''"
    | (other) "field \<noteq> ''type''" "field \<noteq> ''stream''" "field \<noteq> ''flags''"
    by blast
  then show ?thesis
  proof cases
    case type
    have "unat (word_of_nat (length (cm_typeTag msg)) :: byte) = length (cm_typeTag msg)"
      using assms(2) by (simp add: unat_byte_of_nat)
    then show ?thesis
      using type assms(3,4) by (simp add: decode_field_def decode_type_field_def header_field_def header_result_def)
  next
    case stream
    have "unat (word_of_nat (length stream) :: byte) = length stream"
      using \<open>length stream \<le> 5\<close> by (simp add: unat_byte_of_nat)
    then show ?thesis
      using stream \<open>decodeStreamIDWithSpec spec stream = Inr w\<close> \<open>0 < length stream\<close> assms(4)
      by (simp add: decode_field_def decode_stream_field_def header_field_def header_result_def)
  next
    case flags
    obtain f where f: "hs_rest st = f # u16_bytes fragIndex @ u16_bytes fragCount @ u16_bytes padLen @ rest"
      using flags assms(4) by (simp add: header_field_def)
    have "decode_field spec field st = Inr (st\<lparr>hs_fragIndex := fragIndex mod 2 ^ 16,
        hs_fragCount := fragCount mod 2 ^ 16, hs_padLen := padLen mod 2 ^ 16, hs_rest := rest\<rparr>)"
      using flags by (simp add: decode_field_def decode_flags_field_def f)
    then show ?thesis using flags by (simp add: header_result_def)
  next
    case other
    then show ?thesis using assms(4) by (simp add: decode_field_def header_field_def header_result_def)
  qed
qed

lemma decode_fields_written:
  assumes "writeStreamID spec w = Inr stream" and "length (cm_typeTag msg) \<le> 255"
    and "messageByTag spec (cm_typeTag msg) = Some msg"
  shows "hs_rest st = concat (map (header_field msg stream fragIndex fragCount padLen) fs) @ rest \<Longrightarrow>
    decode_fields spec fs st = Inr (header_result msg w fragIndex fragCount padLen fs st rest)"
proof (induction fs arbitrary: st)
  case Nil
  then show ?case by (simp add: header_result_def)
next
  case (Cons field fs)
  let ?tail = "concat (map (header_field msg stream fragIndex fragCount padLen) fs) @ rest"
  let ?st = "header_result msg w fragIndex fragCount padLen [field] st ?tail"
  have "decode_field spec field st = Inr ?st"
    by (rule decode_field_written [OF assms]) (simp add: Cons.prems)
  moreover have "decode_fields spec fs ?st = Inr (header_result msg w fragIndex fragCount padLen fs ?st rest)"
    by (rule Cons.IH) (simp add: header_result_def)
  moreover have "header_result msg w fragIndex fragCount padLen fs ?st rest =
      header_result msg w fragIndex fragCount padLen (field # fs) st rest"
    by (simp add: header_result_def)
  ultimately show ?case by simp
qed

text \<open>
  The round trip of the header: a header with type, stream and flags fields in any order, each
  any number of times, is read back with the fragment numbers and the padding length reduced
  to sixteen bits.
\<close>

lemma decode_header_written:
  assumes "writeHeaderFields spec msg w fragIndex fragCount padLen = Inr header"
    and "messageByTag spec (cm_typeTag msg) = Some msg"
    and "{''type'', ''stream'', ''flags''} \<subseteq> set (sp_headerOrder spec)"
  shows "decodeHeaderAndPayloadWithSpec spec (header @ rest) =
    (if fragCount mod 2 ^ 16 = 0 then Inl (FrErr ''invalid fragment count'')
     else Inr (msg, w, fragIndex mod 2 ^ 16, fragCount mod 2 ^ 16, padLen mod 2 ^ 16, rest))"
proof -
  obtain stream where s: "writeStreamID spec w = Inr stream" "length (cm_typeTag msg) \<le> 255"
      "header = concat (map (header_field msg stream fragIndex fragCount padLen) (sp_headerOrder spec))"
    using assms(1) by (auto simp: writeHeaderFields_def bind_result_eq_Inr split: if_splits)
  let ?st = "\<lparr>hs_msg = None, hs_streamID = 0, hs_fragIndex = 0, hs_fragCount = 1, hs_padLen = 0,
    hs_rest = header @ rest\<rparr>"
  have "decode_fields spec (sp_headerOrder spec) ?st =
      Inr (header_result msg w fragIndex fragCount padLen (sp_headerOrder spec) ?st rest)"
    by (rule decode_fields_written [OF s(1,2) assms(2)]) (simp add: s(3))
  moreover have "fragCount mod 2 ^ 16 \<le> 0 \<longleftrightarrow> fragCount mod 2 ^ 16 = 0"
    using pos_mod_sign [of "2 ^ 16" fragCount] by auto
  ultimately show ?thesis
    using assms(3) by (simp add: decodeHeaderAndPayloadWithSpec_def header_result_def)
qed

text \<open>The size computed for the header is the number of bytes it takes.\<close>

lemma length_header_field:
  "int (length (header_field msg stream fragIndex fragCount padLen field)) =
     header_field_size msg (length stream) field"
  by (simp add: header_field_def header_field_size_def)

lemma header_field_size_nonneg: "0 \<le> header_field_size msg n field"
  by (simp add: header_field_size_def)

lemma header_size_loop_Inr:
  "header_size_loop msg n limit used fs = Inr len \<Longrightarrow> used \<le> limit \<Longrightarrow>
   len = used + sum_list (map (header_field_size msg n) fs) \<and> used \<le> len \<and> len \<le> limit"
proof (induction fs arbitrary: used)
  case Nil
  then show ?case by simp
next
  case (Cons field fs)
  then show ?case
    using header_field_size_nonneg [of msg n field] by (fastforce simp: Let_def split: if_splits)
qed

lemma headerFieldsSize_written:
  assumes "headerFieldsSize spec msg w limit = Inr len"
  shows "\<exists>header. writeHeaderFields spec msg w fragIndex fragCount padLen = Inr header \<and>
    int (length header) = len \<and> len \<le> limit"
proof -
  obtain stream where s: "writeStreamID spec w = Inr stream" "length (cm_typeTag msg) \<le> 255" "0 \<le> limit"
      "header_size_loop msg (length stream) limit 0 (sp_headerOrder spec) = Inr len"
    using assms by (auto simp: headerFieldsSize_def bind_result_eq_Inr split: if_splits)
  have "int (length (concat (map (header_field msg stream fragIndex fragCount padLen) fs))) =
      sum_list (map (header_field_size msg (length stream)) fs)" for fs
    by (induction fs) (simp_all add: length_header_field)
  then show ?thesis
    using header_size_loop_Inr [OF s(4,3)] s(1,2) by (simp add: writeHeaderFields_def)
qed

lemma header_size_loop_ok:
  "used + sum_list (map (header_field_size msg n) fs) \<le> limit \<Longrightarrow>
   header_size_loop msg n limit used fs = Inr (used + sum_list (map (header_field_size msg n) fs))"
proof (induction fs arbitrary: used)
  case Nil
  then show ?case by simp
next
  case (Cons field fs)
  have "0 \<le> sum_list (map (header_field_size msg n) fs)"
    by (rule sum_list_nonneg) (auto simp: header_field_size_nonneg)
  then show ?case using Cons.IH [of "used + header_field_size msg n field"] Cons.prems
    by (simp add: Let_def add.assoc)
qed

lemma headerFieldsSize_ok:
  assumes "writeHeaderFields spec msg w i n k = Inr header" and "int (length header) \<le> limit"
  shows "headerFieldsSize spec msg w limit = Inr (int (length header))"
proof -
  obtain stream where s: "writeStreamID spec w = Inr stream" "length (cm_typeTag msg) \<le> 255"
      "header = concat (map (header_field msg stream i n k) (sp_headerOrder spec))"
    using assms(1) by (auto simp: writeHeaderFields_def bind_result_eq_Inr split: if_splits)
  have "int (length (concat (map (header_field msg stream i n k) fs))) =
      sum_list (map (header_field_size msg (length stream)) fs)" for fs
    by (induction fs) (simp_all add: length_header_field)
  then have "int (length header) = 0 + sum_list (map (header_field_size msg (length stream)) (sp_headerOrder spec))"
    using s(3) by simp
  then show ?thesis
    using header_size_loop_ok [of 0 msg "length stream" "sp_headerOrder spec" limit] s(1,2) assms(2)
    by (simp add: headerFieldsSize_def)
qed

text \<open>The length of the header does not depend on the fragment numbers.\<close>

lemma writeHeaderFields_length:
  assumes "writeHeaderFields spec msg w i n k = Inr header"
  shows "\<exists>h. writeHeaderFields spec msg w i' n' k' = Inr h \<and> length h = length header"
  using headerFieldsSize_written [OF headerFieldsSize_ok [OF assms order_refl], of i' n' k'] by auto

end
