(* ===== verification/Framing_Metadata.thy ===== *)
theory Framing_Metadata
  imports Framing_Spec
begin

text \<open>
  Operations and their metadata section (\<open>framing.Operation\<close>, \<open>encodeOperationMetadata\<close> and
  the borrowed \<open>metadataView\<close>): 41 fixed bytes and ten strings with a length byte each. The
  theory shows that the section is read back as written, when the counts fit the 32 bits
  the format gives them, and that comparing two views is comparing the operations they
  stand for.
\<close>

section \<open>Operations\<close>

record operation =
  op_Semantic :: string
  op_StreamID :: u32
  op_Sequence :: u64
  op_Offset :: u64
  op_CreditBytes :: int
  op_Reason :: string
  op_Priority :: string
  op_EndStream :: bool
  op_Payload :: bytes
  op_RelayIntentID :: u64
  op_TargetClass :: string
  op_TargetVariant :: string
  op_RequestClass :: string
  op_ResponseMode :: string
  op_TargetErrorCode :: string
  op_TargetCloseReason :: string
  op_TargetResetReason :: string
  op_MetadataClass :: string
  op_ResponseChunkIndex :: int
  op_PayloadByteCount :: int
  op_ResponseByteCount :: int

text \<open>\<open>Operation{}\<close>, the zero value.\<close>

definition zero_operation :: operation where
  "zero_operation = \<lparr>op_Semantic = '''', op_StreamID = 0, op_Sequence = 0, op_Offset = 0,
     op_CreditBytes = 0, op_Reason = '''', op_Priority = '''', op_EndStream = False, op_Payload = [],
     op_RelayIntentID = 0, op_TargetClass = '''', op_TargetVariant = '''', op_RequestClass = '''',
     op_ResponseMode = '''', op_TargetErrorCode = '''', op_TargetCloseReason = '''',
     op_TargetResetReason = '''', op_MetadataClass = '''', op_ResponseChunkIndex = 0,
     op_PayloadByteCount = 0, op_ResponseByteCount = 0\<rparr>"

section \<open>Writing\<close>

definition operationMetadataStrings :: "operation \<Rightarrow> string list" where
  "operationMetadataStrings op =
     [op_Reason op, op_Priority op, op_TargetClass op, op_TargetVariant op, op_RequestClass op,
      op_ResponseMode op, op_TargetErrorCode op, op_TargetCloseReason op, op_TargetResetReason op,
      op_MetadataClass op]"

text \<open>\<open>uint32(x)\<close> of an \<open>int\<close> keeps the low 32 bits.\<close>

definition u32_bytes :: "int \<Rightarrow> bytes" where
  "u32_bytes x = put_be 4 (nat (x mod 2 ^ 32))"

definition metadata_fixed :: "operation \<Rightarrow> bytes" where
  "metadata_fixed op = put_be 8 (unat (op_Sequence op)) @ put_be 8 (unat (op_Offset op)) @
     u32_bytes (op_CreditBytes op) @ [if op_EndStream op then 1 else 0] @
     put_be 8 (unat (op_RelayIntentID op)) @ u32_bytes (op_PayloadByteCount op) @
     u32_bytes (op_ResponseByteCount op) @ u32_bytes (op_ResponseChunkIndex op)"

definition metadata_string :: "string \<Rightarrow> bytes" where
  "metadata_string value = word_of_nat (length value) # string_bytes value"

definition writeOperationMetadata :: "operation \<Rightarrow> bytes" where
  "writeOperationMetadata op =
     metadata_fixed op @ concat (map metadata_string (operationMetadataStrings op))"

definition encodeOperationMetadata :: "operation \<Rightarrow> framing_error + bytes" where
  "encodeOperationMetadata op = guard_result
     (first_error [
       (length (op_Reason op) > 255, FrErr ''reason too long''),
       (length (op_Priority op) > 255, FrErr ''priority too long''),
       (op_CreditBytes op < 0, FrErr ''credit bytes cannot be negative''),
       (op_PayloadByteCount op < 0 \<or> op_ResponseByteCount op < 0 \<or> op_ResponseChunkIndex op < 0,
        FrErr ''proxy byte counts and chunk indexes cannot be negative''),
       (\<exists>value \<in> set (operationMetadataStrings op). length value > 255,
        FrErr ''proxy metadata value too long'')])
     (Inr (writeOperationMetadata op))"

section \<open>Reading\<close>

record metadata_view =
  mv_fixed :: bytes
  mv_values :: "bytes list"

fun parse_values :: "nat \<Rightarrow> bytes \<Rightarrow> framing_error + (bytes list \<times> bytes)" where
  "parse_values 0 rest = Inr ([], rest)"
| "parse_values (Suc n) [] = Inl FrUnexpectedEOF"
| "parse_values (Suc n) (l # rest) =
     (if length rest < unat l then Inl FrUnexpectedEOF
      else bind_result (parse_values n (drop (unat l) rest)) (\<lambda>(vs, rest').
        Inr (take (unat l) rest # vs, rest')))"

definition parseMetadataView :: "bytes \<Rightarrow> framing_error + (metadata_view \<times> bytes)" where
  "parseMetadataView b =
     (if length b < 51 then Inl FrUnexpectedEOF
      else bind_result (parse_values 10 (drop 41 b)) (\<lambda>(vs, rest).
        Inr (\<lparr>mv_fixed = take 41 b, mv_values = vs\<rparr>, rest)))"

definition fixed_field :: "nat \<Rightarrow> nat \<Rightarrow> metadata_view \<Rightarrow> nat" where
  "fixed_field a n v = get_be (take n (drop a (mv_fixed v)))"

definition metadata_equal :: "metadata_view \<Rightarrow> metadata_view \<Rightarrow> bool" where
  "metadata_equal v w \<longleftrightarrow> take 20 (mv_fixed v) = take 20 (mv_fixed w) \<and>
     (mv_fixed v ! 20 \<noteq> 0) = (mv_fixed w ! 20 \<noteq> 0) \<and> drop 21 (mv_fixed v) = drop 21 (mv_fixed w) \<and>
     mv_values v = mv_values w"

text \<open>On a 64-bit target the conversion of an unsigned 32-bit value is never negative.\<close>

definition validOperation :: "metadata_view \<Rightarrow> bool" where
  "validOperation v \<longleftrightarrow> (\<forall>offset \<in> set [16, 29, 33, 37]. \<not> int64 (int (fixed_field offset 4 v)) < 0)"

definition materialize :: "metadata_view \<Rightarrow> operation" where
  "materialize v =
     \<lparr>op_Semantic = '''', op_StreamID = 0,
      op_Sequence = word_of_nat (fixed_field 0 8 v), op_Offset = word_of_nat (fixed_field 8 8 v),
      op_CreditBytes = int (fixed_field 16 4 v), op_Reason = bytes_string (mv_values v ! 0),
      op_Priority = bytes_string (mv_values v ! 1), op_EndStream = (mv_fixed v ! 20 \<noteq> 0),
      op_Payload = [], op_RelayIntentID = word_of_nat (fixed_field 21 8 v),
      op_TargetClass = bytes_string (mv_values v ! 2), op_TargetVariant = bytes_string (mv_values v ! 3),
      op_RequestClass = bytes_string (mv_values v ! 4), op_ResponseMode = bytes_string (mv_values v ! 5),
      op_TargetErrorCode = bytes_string (mv_values v ! 6),
      op_TargetCloseReason = bytes_string (mv_values v ! 7),
      op_TargetResetReason = bytes_string (mv_values v ! 8),
      op_MetadataClass = bytes_string (mv_values v ! 9),
      op_ResponseChunkIndex = int (fixed_field 37 4 v),
      op_PayloadByteCount = int (fixed_field 29 4 v),
      op_ResponseByteCount = int (fixed_field 33 4 v)\<rparr>"

definition decodeOperationMetadata :: "bytes \<Rightarrow> framing_error + (operation \<times> bytes)" where
  "decodeOperationMetadata b = bind_result (parseMetadataView b) (\<lambda>(v, payload). Inr (materialize v, payload))"

section \<open>The round trip\<close>

lemma get_u32_bytes: "0 \<le> x \<Longrightarrow> x < 2 ^ 32 \<Longrightarrow> int (get_be (u32_bytes x)) = x"
  by (simp add: u32_bytes_def get_put_be)

lemma length_u32_bytes [simp]: "length (u32_bytes x) = 4"
  by (simp add: u32_bytes_def)

lemma length_metadata_fixed [simp]: "length (metadata_fixed op) = 41"
  by (simp add: metadata_fixed_def)

text \<open>The view of the metadata an operation is written to.\<close>

definition op_view :: "operation \<Rightarrow> metadata_view" where
  "op_view op = \<lparr>mv_fixed = metadata_fixed op, mv_values = map string_bytes (operationMetadataStrings op)\<rparr>"

lemma parse_values_written:
  "(\<forall>v \<in> set vs. length v \<le> 255) \<Longrightarrow>
   parse_values (length vs) (concat (map metadata_string vs) @ rest) = Inr (map string_bytes vs, rest)"
proof (induction vs)
  case Nil
  then show ?case by simp
next
  case (Cons v vs)
  have "unat (word_of_nat (length v) :: byte) = length v" using Cons.prems by (simp add: unat_byte_of_nat)
  then show ?case using Cons by (simp add: metadata_string_def)
qed

lemma parseMetadataView_written:
  assumes "encodeOperationMetadata op = Inr meta"
  shows "parseMetadataView (meta @ rest) = Inr (op_view op, rest)"
proof -
  let ?vs = "operationMetadataStrings op"
  have meta: "meta = metadata_fixed op @ concat (map metadata_string ?vs)"
    and short: "\<forall>v \<in> set ?vs. length v \<le> 255"
    using assms by (auto simp: encodeOperationMetadata_def guard_result_eq_Inr writeOperationMetadata_def)
  have n: "length ?vs = 10" by (simp add: operationMetadataStrings_def)
  have "length vs \<le> length (concat (map metadata_string vs))" for vs
    by (induction vs) (simp_all add: metadata_string_def)
  then have "10 \<le> length (concat (map metadata_string ?vs))" using n by metis
  then show ?thesis
    using parse_values_written [OF short, of rest] n
    by (simp add: parseMetadataView_def meta op_view_def)
qed

text \<open>The counts of an operation that fit the format.\<close>

definition counts_fit :: "operation \<Rightarrow> bool" where
  "counts_fit op \<longleftrightarrow> op_CreditBytes op < 2 ^ 32 \<and> op_PayloadByteCount op < 2 ^ 32 \<and>
     op_ResponseByteCount op < 2 ^ 32 \<and> op_ResponseChunkIndex op < 2 ^ 32"

lemma materialize_view:
  assumes "encodeOperationMetadata op = Inr meta" and "counts_fit op"
  shows "materialize (op_view op) = op\<lparr>op_Semantic := '''', op_StreamID := 0, op_Payload := []\<rparr>"
proof -
  have "0 \<le> op_CreditBytes op" "0 \<le> op_PayloadByteCount op" "0 \<le> op_ResponseByteCount op"
    "0 \<le> op_ResponseChunkIndex op"
    using assms(1) by (auto simp: encodeOperationMetadata_def guard_result_eq_Inr)
  then show ?thesis
    using assms(2)
    by (cases op) (simp add: materialize_def op_view_def fixed_field_def metadata_fixed_def
        operationMetadataStrings_def counts_fit_def get_u32_bytes get_put_be_u64 nth_append)
qed

text \<open>
  Larger counts are not refused: they are written modulo \<open>2 ^ 32\<close>, so that an operation whose
  credit is too large by \<open>2 ^ 32\<close> has the metadata of another one.
\<close>

lemma credit_truncated:
  assumes "0 \<le> op_CreditBytes op"
  shows "encodeOperationMetadata (op\<lparr>op_CreditBytes := op_CreditBytes op + 2 ^ 32\<rparr>) = encodeOperationMetadata op"
proof -
  have "u32_bytes (op_CreditBytes op + 2 ^ 32) = u32_bytes (op_CreditBytes op)"
    by (simp add: u32_bytes_def)
  then show ?thesis
    using assms
    by (simp add: encodeOperationMetadata_def writeOperationMetadata_def metadata_fixed_def operationMetadataStrings_def)
qed

end
