(* ===== verification/Flush_Scheduler.thy ===== *)
theory Flush_Scheduler
  imports IR_Profile
begin

text \<open>
  The flush planner and the fragment sizer of \<open>internal/protocol/scheduler\<close>. \<open>Plan\<close> and
  \<open>PlanStreams\<close> order a queue by policy and cut it into timed batches; \<open>roundRobin\<close>
  interleaves the queues of the streams; \<open>FragmentSizesFor\<close> cuts a payload length into
  chunks. Sums of sizes wrap like Go's \<open>int\<close>.
\<close>

section \<open>Plans of plain items\<close>

record item =
  item_Semantic :: string
  item_PayloadBytes :: int
  item_Interactive :: bool

record flush =
  flush_AtMillis :: int
  flush_Items :: "item list"
  flush_Bytes :: int
  flush_Reason :: string

definition plan_interactive_less :: "item \<Rightarrow> item \<Rightarrow> bool" where
  "plan_interactive_less a b =
     (if item_Interactive a \<noteq> item_Interactive b then item_Interactive a
      else item_PayloadBytes a < item_PayloadBytes b)"

definition plan_bulk_less :: "item \<Rightarrow> item \<Rightarrow> bool" where
  "plan_bulk_less a b \<longleftrightarrow> item_PayloadBytes a > item_PayloadBytes b"

definition plan_queue :: "scheduler_policy \<Rightarrow> item list \<Rightarrow> item list" where
  "plan_queue policy items =
     (if sched_Mode policy = ''interactive_first'' then slice_stable plan_interactive_less items
      else if sched_Mode policy = ''bulk_first'' then slice_stable plan_bulk_less items
      else items)"

fun plan_fill ::
  "scheduler_policy \<Rightarrow> item list \<Rightarrow> item list \<Rightarrow> int \<Rightarrow> int \<Rightarrow> item list \<times> item list \<times> int \<times> int" where
  "plan_fill policy [] batch used inFlight = ([], batch, used, inFlight)"
| "plan_fill policy (x # queue) batch used inFlight =
     (if int64 (used + item_PayloadBytes x) \<le> sched_MaxBatchBytes policy \<and>
         inFlight < sched_MaxInFlightFrames policy
      then plan_fill policy queue (batch @ [x]) (int64 (used + item_PayloadBytes x))
             (int64 (inFlight + 1))
      else (x # queue, batch, used, inFlight))"

lemma plan_fill_split:
  "plan_fill policy queue batch used inFlight = (queue', batch', used', inFlight') \<Longrightarrow>
   \<exists>new. queue = new @ queue' \<and> batch' = batch @ new"
  by (induction policy queue batch used inFlight rule: plan_fill.induct) (auto split: if_splits)

function plan_loop :: "scheduler_policy \<Rightarrow> item list \<Rightarrow> int \<Rightarrow> int \<Rightarrow> flush list" where
  "plan_loop policy [] inFlight now = []"
| "plan_loop policy (x # queue) inFlight now =
     (let (queue', batch, used, inFlight') = plan_fill policy (x # queue) [] 0 inFlight;
          (queue', batch, used, inFlight') =
            (if batch = [] then (queue, [x], item_PayloadBytes x, int64 (inFlight' + 1))
             else (queue', batch, used, inFlight'));
          inFlight' = (if inFlight' \<ge> sched_MaxInFlightFrames policy then 0 else inFlight')
      in \<lparr>flush_AtMillis = now, flush_Items = batch, flush_Bytes = used,
          flush_Reason = sched_Mode policy\<rparr>
         # plan_loop policy queue' inFlight' (int64 (now + sched_FlushIntervalMs policy)))"
  by pat_completeness auto
termination
proof (relation "measure (\<lambda>(policy, queue, inFlight, now). length queue)", goal_cases)
  case 1
  then show ?case by simp
next
  case (2 policy x queue inFlight now a queue1 b batch1 c used1 inFlight1 d queue2 e batch2 f used2 inFlight2 g)
  then show ?case
    by (auto dest!: plan_fill_split [OF sym] split: if_splits)
qed

definition Plan :: "scheduler_policy \<Rightarrow> item list \<Rightarrow> flush list" where
  "Plan policy items = plan_loop policy (plan_queue policy items) 0 0"

section \<open>Plans of stream items\<close>

record stream_item =
  si_StreamID :: u32
  si_Semantic :: string
  si_PayloadBytes :: int
  si_Priority :: string
  si_Blocked :: bool
  si_Closed :: bool

record stream_flush =
  sf_AtMillis :: int
  sf_Items :: "stream_item list"
  sf_Bytes :: int
  sf_Reason :: string

fun group_items ::
  "stream_item list \<Rightarrow> (u32 \<times> stream_item list) list \<Rightarrow> u32 list \<Rightarrow>
   (u32 \<times> stream_item list) list \<times> u32 list" where
  "group_items [] byStream order = (byStream, order)"
| "group_items (x # xs) byStream order =
     (case map_of byStream (si_StreamID x) of
        None \<Rightarrow> group_items xs (AList.update (si_StreamID x) [x] byStream) (order @ [si_StreamID x])
      | Some q \<Rightarrow> group_items xs (AList.update (si_StreamID x) (q @ [x]) byStream) order)"

fun rr_round ::
  "(u32 \<times> stream_item list) list \<Rightarrow> u32 list \<Rightarrow> stream_item list \<Rightarrow> bool \<Rightarrow>
   (u32 \<times> stream_item list) list \<times> stream_item list \<times> bool" where
  "rr_round byStream [] out progress = (byStream, out, progress)"
| "rr_round byStream (i # order) out progress =
     (case map_of byStream i of
        Some (x # q) \<Rightarrow> rr_round (AList.update i q byStream) order (out @ [x]) True
      | _ \<Rightarrow> rr_round byStream order out progress)"

lemma rr_round_grows:
  "rr_round byStream order out progress = (byStream', out', progress') \<Longrightarrow>
   length out \<le> length out' \<and> (progress' \<longrightarrow> progress \<or> length out < length out')"
  by (induction byStream order out progress rule: rr_round.induct)
    (force split: option.splits list.splits)+

function rr_loop ::
  "nat \<Rightarrow> (u32 \<times> stream_item list) list \<Rightarrow> u32 list \<Rightarrow> stream_item list \<Rightarrow> stream_item list" where
  "rr_loop n byStream order out =
     (if length out < n then
        case rr_round byStream order out False of
          (byStream', out', progress) \<Rightarrow>
            if progress then rr_loop n byStream' order out' else out'
      else out)"
  by pat_completeness auto
termination
  by (relation "measure (\<lambda>(n, byStream, order, out). n - length out)")
    (auto dest!: rr_round_grows [OF sym])

definition roundRobin :: "stream_item list \<Rightarrow> stream_item list" where
  "roundRobin items =
     (let (byStream, order) = group_items items [] [];
          order = slice_stable (<) order
      in rr_loop (length items) byStream order [])"

definition stream_interactive_less :: "stream_item \<Rightarrow> stream_item \<Rightarrow> bool" where
  "stream_interactive_less a b =
     (if si_Priority a \<noteq> si_Priority b then si_Priority a = ''interactive''
      else si_PayloadBytes a < si_PayloadBytes b)"

definition stream_smallest_less :: "stream_item \<Rightarrow> stream_item \<Rightarrow> bool" where
  "stream_smallest_less a b =
     (if si_PayloadBytes a = si_PayloadBytes b then si_StreamID a < si_StreamID b
      else si_PayloadBytes a < si_PayloadBytes b)"

definition stream_id_less :: "stream_item \<Rightarrow> stream_item \<Rightarrow> bool" where
  "stream_id_less a b \<longleftrightarrow> si_StreamID a < si_StreamID b"

definition stream_queue :: "string \<Rightarrow> stream_item list \<Rightarrow> stream_item list" where
  "stream_queue policy items =
     (let queue = filter (\<lambda>x. \<not> (si_Blocked x \<or> si_Closed x)) items in
      if policy = ''interactive_first'' then slice_stable stream_interactive_less queue
      else if policy = ''smallest_pending_first'' then slice_stable stream_smallest_less queue
      else if policy = ''weighted_round_robin'' then roundRobin queue
      else slice_stable stream_id_less queue)"

fun stream_fill ::
  "int \<Rightarrow> int \<Rightarrow> stream_item list \<Rightarrow> stream_item list \<Rightarrow> int \<Rightarrow>
   stream_item list \<times> stream_item list \<times> int" where
  "stream_fill maxBatch maxInFlight [] batch used = ([], batch, used)"
| "stream_fill maxBatch maxInFlight (x # queue) batch used =
     (if int (length batch) < maxInFlight \<and> int64 (used + si_PayloadBytes x) \<le> maxBatch
      then stream_fill maxBatch maxInFlight queue (batch @ [x]) (int64 (used + si_PayloadBytes x))
      else (x # queue, batch, used))"

lemma stream_fill_split:
  "stream_fill mb mi queue batch used = (queue', batch', used') \<Longrightarrow>
   \<exists>new. queue = new @ queue' \<and> batch' = batch @ new"
  by (induction mb mi queue batch used rule: stream_fill.induct) (auto split: if_splits)

lemma stream_fill_shrinks:
  "(queue', batch', used') = stream_fill mb mi queue [] used \<Longrightarrow> batch' \<noteq> [] \<Longrightarrow>
   length queue' < length queue"
  using stream_fill_split [of mb mi queue "[]" used queue' batch' used'] by auto

function stream_plan_loop ::
  "string \<Rightarrow> int \<Rightarrow> int \<Rightarrow> int \<Rightarrow> stream_item list \<Rightarrow> int \<Rightarrow> stream_flush list" where
  "stream_plan_loop reason maxBatch maxInFlight interval [] now = []"
| "stream_plan_loop reason maxBatch maxInFlight interval (x # queue) now =
     (let (queue', batch, used) = stream_fill maxBatch maxInFlight (x # queue) [] 0;
          (queue', batch, used) =
            (if batch = [] then (queue, [x], si_PayloadBytes x) else (queue', batch, used))
      in \<lparr>sf_AtMillis = now, sf_Items = batch, sf_Bytes = used, sf_Reason = reason\<rparr>
         # stream_plan_loop reason maxBatch maxInFlight interval queue' (int64 (now + interval)))"
  by pat_completeness auto
termination
  by (relation "measure (\<lambda>(reason, maxBatch, maxInFlight, interval, queue, now). length queue)")
    (auto simp del: stream_fill.simps split: if_splits,
      metis Pair_inject length_Cons stream_fill_shrinks)

definition PlanStreams ::
  "stream_policy \<Rightarrow> scheduler_policy \<Rightarrow> stream_item list \<Rightarrow> stream_flush list" where
  "PlanStreams streamPolicy policy items =
     (let queue = stream_queue (str_PriorityPolicy streamPolicy) items;
          maxBatch = (if sched_MaxBatchBytes policy \<le> 0 then 32 * 1024
                      else sched_MaxBatchBytes policy);
          maxInFlight = (if sched_MaxInFlightFrames policy \<le> 0 then 4
                         else sched_MaxInFlightFrames policy)
      in stream_plan_loop (str_PriorityPolicy streamPolicy) maxBatch maxInFlight
           (sched_FlushIntervalMs policy) queue 0)"

section \<open>Fragment sizes\<close>

function fragment_loop :: "int \<Rightarrow> int \<Rightarrow> int list" where
  "fragment_loop maxChunk remaining =
     (if maxChunk < 1 \<or> remaining \<le> 0 then []
      else let n = min maxChunk remaining in n # fragment_loop maxChunk (remaining - n))"
  by pat_completeness auto
termination
  by (relation "measure (\<lambda>(maxChunk, remaining). nat remaining)") auto

definition fragment_chunk :: "string \<Rightarrow> int \<Rightarrow> int \<Rightarrow> int" where
  "fragment_chunk mode maxBatchBytes maxFrameBytes =
     (let maxChunk = (if maxBatchBytes \<le> 0 \<or> maxBatchBytes > int64 (maxFrameBytes - 512)
                      then int64 (maxFrameBytes - 512) else maxBatchBytes);
          maxChunk =
            (if mode = ''fixed_size_chunks'' then min maxChunk 4096
             else if mode = ''bounded_variable_chunks'' then min maxChunk 6144
             else if mode = ''scheduler_controlled_chunks'' then min maxChunk maxBatchBytes
             else min maxChunk (16 * 1024))
      in if maxChunk < 1 then 1 else maxChunk)"

definition FragmentSizesFor :: "string \<Rightarrow> int \<Rightarrow> int \<Rightarrow> int \<Rightarrow> int list" where
  "FragmentSizesFor mode maxBatchBytes maxFrameBytes payloadLen =
     (if payloadLen \<le> 0 then [0]
      else fragment_loop (fragment_chunk mode maxBatchBytes maxFrameBytes) payloadLen)"

definition FragmentSizes :: "profile \<Rightarrow> int \<Rightarrow> int list" where
  "FragmentSizes p payloadLen =
     FragmentSizesFor (fg_FragmentationMode (pr_FrameGrammar p))
       (sched_MaxBatchBytes (pr_Scheduler p)) (lim_MaxFrameBytes (pr_Limits p)) payloadLen"

declare fragment_loop.simps [simp del] rr_loop.simps [simp del] plan_loop.simps(2) [simp del]

section \<open>What a plan guarantees\<close>

interpretation plan_interactive: strict_weak_order plan_interactive_less
  by (rule strict_weak_order_lex [where f = "\<lambda>x. \<not> item_Interactive x" and g = item_PayloadBytes])
    (auto simp: plan_interactive_less_def)

interpretation plan_bulk: strict_weak_order plan_bulk_less
  by (rule strict_weak_order_key [where f = "\<lambda>x. - item_PayloadBytes x"])
    (auto simp: plan_bulk_less_def)

interpretation stream_smallest: strict_weak_order stream_smallest_less
  by (rule strict_weak_order_lex [where f = si_PayloadBytes and g = si_StreamID])
    (auto simp: stream_smallest_less_def)

interpretation stream_by_id: strict_weak_order stream_id_less
  by (rule strict_weak_order_key [where f = si_StreamID]) (auto simp: stream_id_less_def)

interpretation id_order: strict_weak_order "(<) :: u32 \<Rightarrow> u32 \<Rightarrow> bool"
  by (rule strict_weak_order_key [where f = "\<lambda>x. x"]) auto

lemma mset_plan_queue: "mset (plan_queue policy items) = mset items"
  by (simp add: plan_queue_def)

text \<open>
  One batch: the loop stops before the batch exceeds its byte or frame limit. Sizes are
  lengths, so they are not negative, and the sums below do not wrap under the limits.
\<close>

definition sized :: "scheduler_policy \<Rightarrow> item list \<Rightarrow> bool" where
  "sized policy items \<longleftrightarrow>
     (\<forall>x \<in> set items. 0 \<le> item_PayloadBytes x \<and>
        item_PayloadBytes x + sched_MaxBatchBytes policy < 2 ^ 63) \<and>
     0 \<le> sched_MaxBatchBytes policy \<and> sched_MaxBatchBytes policy < 2 ^ 63 \<and>
     0 < sched_MaxInFlightFrames policy \<and> sched_MaxInFlightFrames policy < 2 ^ 63"

lemma sized_Cons:
  "sized policy (x # xs) \<longleftrightarrow> 0 \<le> item_PayloadBytes x \<and>
     item_PayloadBytes x + sched_MaxBatchBytes policy < 2 ^ 63 \<and> sized policy xs"
  by (auto simp: sized_def)

lemma sized_append: "sized policy (xs @ ys) \<Longrightarrow> sized policy ys"
  by (auto simp: sized_def)

lemma plan_fill_limits:
  assumes "plan_fill policy queue batch used inFlight = (queue', batch', used', inFlight')"
    and "sized policy queue" and "0 \<le> used" and "used \<le> sched_MaxBatchBytes policy"
    and "0 \<le> inFlight" and "inFlight \<le> sched_MaxInFlightFrames policy"
  shows "\<exists>new. queue = new @ queue' \<and> batch' = batch @ new \<and>
    used' = used + sum_list (map item_PayloadBytes new) \<and> 0 \<le> used' \<and>
    used' \<le> sched_MaxBatchBytes policy \<and>
    inFlight' = inFlight + int (length new) \<and> inFlight' \<le> sched_MaxInFlightFrames policy"
  using assms
proof (induction policy queue batch used inFlight rule: plan_fill.induct)
  case (1 policy batch used inFlight)
  then show ?case by simp
next
  case (2 policy x queue batch used inFlight)
  have x: "0 \<le> item_PayloadBytes x" "item_PayloadBytes x + sched_MaxBatchBytes policy < 2 ^ 63"
    "sized policy queue" "sched_MaxInFlightFrames policy < 2 ^ 63"
    using "2.prems"(2) by (auto simp: sized_Cons sized_def)
  have nowrap: "int64 (used + item_PayloadBytes x) = used + item_PayloadBytes x"
    using "2.prems"(3,4) x by (intro int64_id) (auto simp: in_int64_def)
  show ?case
  proof (cases "used + item_PayloadBytes x \<le> sched_MaxBatchBytes policy \<and>
      inFlight < sched_MaxInFlightFrames policy")
    case True
    have "int64 (inFlight + 1) = inFlight + 1"
      using "2.prems"(5) True x(4) by (intro int64_id) (auto simp: in_int64_def)
    then obtain new where "queue = new @ queue'" "batch' = (batch @ [x]) @ new"
      "used' = used + item_PayloadBytes x + sum_list (map item_PayloadBytes new)" "0 \<le> used'"
      "used' \<le> sched_MaxBatchBytes policy" "inFlight' = inFlight + 1 + int (length new)"
      "inFlight' \<le> sched_MaxInFlightFrames policy"
      using "2.IH" "2.prems" True x nowrap by auto
    then show ?thesis by (intro exI [of _ "x # new"]) simp
  next
    case False
    then show ?thesis using "2.prems" nowrap by auto
  qed
qed

definition good_flush :: "scheduler_policy \<Rightarrow> flush \<Rightarrow> bool" where
  "good_flush policy f \<longleftrightarrow>
     flush_Items f \<noteq> [] \<and> flush_Bytes f = sum_list (map item_PayloadBytes (flush_Items f)) \<and>
     (flush_Bytes f \<le> sched_MaxBatchBytes policy \<or> length (flush_Items f) = 1) \<and>
     int (length (flush_Items f)) \<le> sched_MaxInFlightFrames policy \<and>
     flush_Reason f = sched_Mode policy"

lemma plan_loop_step:
  assumes sized: "sized policy (x # queue)" and fl: "0 \<le> inFlight"
    "inFlight < sched_MaxInFlightFrames policy"
  obtains f rest inFlight' where
    "plan_loop policy (x # queue) inFlight now =
       f # plan_loop policy rest inFlight' (int64 (now + sched_FlushIntervalMs policy))"
    and "x # queue = flush_Items f @ rest" and "good_flush policy f"
    and "0 \<le> inFlight'" and "inFlight' < sched_MaxInFlightFrames policy"
proof -
  obtain queue' batch used inFlight1 where
    fill: "plan_fill policy (x # queue) [] 0 inFlight = (queue', batch, used, inFlight1)"
    by (cases "plan_fill policy (x # queue) [] 0 inFlight")
  have lim: "0 \<le> sched_MaxBatchBytes policy" "0 < sched_MaxInFlightFrames policy"
    "sched_MaxInFlightFrames policy < 2 ^ 63"
    using sized by (auto simp: sized_def)
  have new: "x # queue = batch @ queue'" "used = sum_list (map item_PayloadBytes batch)"
    "used \<le> sched_MaxBatchBytes policy" "inFlight1 = inFlight + int (length batch)"
    "inFlight1 \<le> sched_MaxInFlightFrames policy"
    using plan_fill_limits [OF fill sized] lim fl by auto
  let ?reset = "\<lambda>n. if n \<ge> sched_MaxInFlightFrames policy then 0 else n"
  let ?fl = "\<lambda>b u. \<lparr>flush_AtMillis = now, flush_Items = b, flush_Bytes = u, flush_Reason = sched_Mode policy\<rparr>"
  show ?thesis
  proof (cases "batch = []")
    case True
    have "int64 (inFlight + 1) = inFlight + 1"
      using fl lim by (intro int64_id) (auto simp: in_int64_def)
    then have eq: "plan_loop policy (x # queue) inFlight now = ?fl [x] (item_PayloadBytes x) #
        plan_loop policy queue (?reset (inFlight + 1)) (int64 (now + sched_FlushIntervalMs policy))"
      using fill True new(4) by (simp add: Let_def plan_loop.simps(2) del: plan_fill.simps)
    show ?thesis by (rule that [OF eq]) (use fl lim in \<open>auto simp: good_flush_def\<close>)
  next
    case False
    have eq: "plan_loop policy (x # queue) inFlight now = ?fl batch used #
        plan_loop policy queue' (?reset inFlight1) (int64 (now + sched_FlushIntervalMs policy))"
      using fill False by (simp add: Let_def plan_loop.simps(2) del: plan_fill.simps)
    show ?thesis by (rule that [OF eq]) (use fl lim new False in \<open>auto simp: good_flush_def\<close>)
  qed
qed



lemma plan_loop_good:
  assumes "sized policy queue" and "0 \<le> inFlight" and "inFlight < sched_MaxInFlightFrames policy"
  shows "concat (map flush_Items (plan_loop policy queue inFlight now)) = queue \<and>
    (\<forall>f \<in> set (plan_loop policy queue inFlight now). good_flush policy f)"
  using assms
proof (induction "length queue" arbitrary: queue inFlight now rule: less_induct)
  case less
  show ?case
  proof (cases queue)
    case Nil
    then show ?thesis by simp
  next
    case (Cons x xs)
    obtain f rest inFlight' where step:
      "plan_loop policy queue inFlight now =
         f # plan_loop policy rest inFlight' (int64 (now + sched_FlushIntervalMs policy))"
      "queue = flush_Items f @ rest" "good_flush policy f" "0 \<le> inFlight'"
      "inFlight' < sched_MaxInFlightFrames policy"
      using plan_loop_step [of policy x xs inFlight now] less.prems Cons by metis
    have "length rest < length queue" "sized policy rest"
      using step(2,3) less.prems(1) sized_append by (auto simp: good_flush_def)
    then show ?thesis using less.hyps [of rest inFlight'] step by auto
  qed
qed

definition good_stream_flush :: "string \<Rightarrow> int \<Rightarrow> int \<Rightarrow> stream_flush \<Rightarrow> bool" where
  "good_stream_flush reason maxBatch maxInFlight f \<longleftrightarrow>
     sf_Items f \<noteq> [] \<and> sf_Bytes f = sum_list (map si_PayloadBytes (sf_Items f)) \<and>
     (sf_Bytes f \<le> maxBatch \<or> length (sf_Items f) = 1) \<and>
     int (length (sf_Items f)) \<le> maxInFlight \<and> sf_Reason f = reason"

definition stream_sized :: "int \<Rightarrow> stream_item list \<Rightarrow> bool" where
  "stream_sized maxBatch items \<longleftrightarrow> 0 \<le> maxBatch \<and>
     (\<forall>x \<in> set items. 0 \<le> si_PayloadBytes x \<and> si_PayloadBytes x + maxBatch < 2 ^ 63)"

lemma stream_fill_limits:
  assumes "stream_fill mb mi queue batch used = (queue', batch', used')"
    and "stream_sized mb queue" and "0 \<le> used" and "used \<le> mb" and "int (length batch) \<le> mi"
  shows "\<exists>new. queue = new @ queue' \<and> batch' = batch @ new \<and>
    used' = used + sum_list (map si_PayloadBytes new) \<and> used' \<le> mb \<and> int (length batch') \<le> mi"
  using assms
proof (induction mb mi queue batch used rule: stream_fill.induct)
  case (1 mb mi batch used)
  then show ?case by simp
next
  case (2 mb mi x queue batch used)
  have x: "0 \<le> si_PayloadBytes x" "stream_sized mb queue"
    and nowrap: "int64 (used + si_PayloadBytes x) = used + si_PayloadBytes x"
    using "2.prems"(2-4) by (auto simp: stream_sized_def in_int64_def intro!: int64_id)
  show ?case
  proof (cases "int (length batch) < mi \<and> used + si_PayloadBytes x \<le> mb")
    case True
    then obtain new where "queue = new @ queue'" "batch' = (batch @ [x]) @ new"
      "used' = used + si_PayloadBytes x + sum_list (map si_PayloadBytes new)" "used' \<le> mb"
      "int (length batch') \<le> mi"
      using "2.IH" "2.prems" x nowrap by auto
    then show ?thesis by (intro exI [of _ "x # new"]) simp
  next
    case False
    then show ?thesis using "2.prems" nowrap by auto
  qed
qed

lemma stream_plan_loop_good:
  assumes "stream_sized mb queue" and "0 < mi"
  shows "concat (map sf_Items (stream_plan_loop reason mb mi interval queue now)) = queue \<and>
    (\<forall>f \<in> set (stream_plan_loop reason mb mi interval queue now). good_stream_flush reason mb mi f)"
  using assms(1)
proof (induction "length queue" arbitrary: queue now rule: less_induct)
  case less
  show ?case
  proof (cases queue)
    case Nil
    then show ?thesis by simp
  next
    case (Cons x xs)
    obtain queue' batch used where fill: "stream_fill mb mi queue [] 0 = (queue', batch, used)"
      by (cases "stream_fill mb mi queue [] 0")
    have new: "queue = batch @ queue'" "used = sum_list (map si_PayloadBytes batch)" "used \<le> mb"
      "int (length batch) \<le> mi"
      using stream_fill_limits [OF fill less.prems] less.prems assms(2)
      by (auto simp: stream_sized_def)
    let ?fl = "\<lambda>b u. \<lparr>sf_AtMillis = now, sf_Items = b, sf_Bytes = u, sf_Reason = reason\<rparr>"
    define b r u where "b = (if batch = [] then [x] else batch)"
      and "r = (if batch = [] then xs else queue')" and "u = (if batch = [] then si_PayloadBytes x else used)"
    have "stream_plan_loop reason mb mi interval queue now =
        ?fl b u # stream_plan_loop reason mb mi interval r (int64 (now + interval))"
      using fill unfolding Cons by (simp add: Let_def b_def r_def u_def del: stream_fill.simps)
    moreover have split: "queue = b @ r" using new Cons by (simp add: b_def r_def)
    moreover have "good_stream_flush reason mb mi (?fl b u)"
      using new assms(2) by (simp add: good_stream_flush_def b_def u_def)
    moreover have "length r < length queue" "stream_sized mb r"
      using split less.prems by (auto simp: b_def stream_sized_def)
    ultimately show ?thesis using less.hyps [of r "int64 (now + interval)"] by simp
  qed
qed

section \<open>Round robin against its reference\<close>

text \<open>
  The reference: round \<open>k\<close> takes the \<open>k\<close>-th item of every stream that has one, streams in
  ascending order of their ids.
\<close>

definition stream_items :: "stream_item list \<Rightarrow> u32 \<Rightarrow> stream_item list" where
  "stream_items items i = filter (\<lambda>x. si_StreamID x = i) items"

definition stream_ids :: "stream_item list \<Rightarrow> u32 list" where
  "stream_ids items = sorted_list_of_set (si_StreamID ` set items)"

definition rr_nth :: "(u32 \<Rightarrow> stream_item list) \<Rightarrow> u32 list \<Rightarrow> nat \<Rightarrow> stream_item list" where
  "rr_nth q ids k = concat (map (\<lambda>i. take 1 (drop k (q i))) ids)"

definition rr_reference :: "stream_item list \<Rightarrow> stream_item list" where
  "rr_reference items =
     concat (map (rr_nth (stream_items items) (stream_ids items)) [0 ..< length items])"

lemma group_items_spec:
  assumes "group_items xs bs order = (bs', order')" and "distinct order"
    and "\<forall>i. map_of bs i = (if i \<in> set order then Some (stream_items ys i) else None)"
    and "set order = si_StreamID ` set ys"
  shows "distinct order' \<and> set order' = si_StreamID ` set (ys @ xs) \<and>
    (\<forall>i. map_of bs' i = (if i \<in> set order' then Some (stream_items (ys @ xs) i) else None))"
  using assms
proof (induction xs arbitrary: bs order ys)
  case Nil
  then show ?case by simp
next
  case (Cons x xs)
  have empty: "stream_items ys (si_StreamID x) = []" if "si_StreamID x \<notin> set order"
    using that Cons.prems(4) unfolding stream_items_def filter_empty_conv by (metis imageI)
  show ?case
  proof (cases "si_StreamID x \<in> set order")
    case True
    then show ?thesis
      using Cons.IH [of "AList.update (si_StreamID x) (stream_items ys (si_StreamID x) @ [x]) bs"
          order "ys @ [x]"] Cons.prems
      by (auto simp: stream_items_def)
  next
    case False
    then show ?thesis
      using Cons.IH [of "AList.update (si_StreamID x) [x] bs" "order @ [si_StreamID x]" "ys @ [x]"]
        Cons.prems empty
      by (auto simp: stream_items_def)
  qed
qed

lemma rr_round_spec:
  assumes "rr_round bs order out p = (bs', out', p')" and "distinct order"
    and "\<forall>i \<in> set order. map_of bs i = Some (drop k (q i))"
  shows "out' = out @ rr_nth q order k \<and> p' = (p \<or> rr_nth q order k \<noteq> []) \<and>
    (\<forall>i. map_of bs' i = (if i \<in> set order then Some (drop (Suc k) (q i)) else map_of bs i))"
  using assms
proof (induction order arbitrary: bs out p)
  case Nil
  then show ?case by (simp add: rr_nth_def)
next
  case (Cons i order)
  show ?case
  proof (cases "drop k (q i)")
    case Nil
    then have rec: "rr_round bs order out p = (bs', out', p')" using Cons.prems by simp
    have "drop (Suc k) (q i) = []" using Nil by simp
    then show ?thesis
      using Cons.IH [OF rec] Cons.prems Nil by (auto simp: rr_nth_def)
  next
    case (Cons x xs)
    have rec: "rr_round (AList.update i xs bs) order (out @ [x]) True = (bs', out', p')"
      using Cons.prems Cons by simp
    have tl: "drop (Suc k) (q i) = xs" using Cons by (metis drop_Suc list.sel(3) tl_drop)
    have "\<forall>j \<in> set order. map_of (AList.update i xs bs) j = Some (drop k (q j))"
      using Cons.prems by auto
    then have ih: "out' = (out @ [x]) @ rr_nth q order k" "p'"
      "\<forall>j. map_of bs' j = (if j \<in> set order then Some (drop (Suc k) (q j))
         else map_of (AList.update i xs bs) j)"
      using Cons.IH [OF rec] Cons.prems(2) by auto
    then show ?thesis using Cons tl by (auto simp: rr_nth_def)
  qed
qed

lemma mset_rr_rounds:
  "mset (concat (map (rr_nth q ids) [0 ..< k])) = mset (concat (map (\<lambda>i. take k (q i)) ids))"
proof (induction k)
  case 0
  then show ?case by (induction ids) auto
next
  case (Suc k)
  have "mset (concat (map (\<lambda>i. take k (q i)) ids)) + mset (rr_nth q ids k) =
      mset (concat (map (\<lambda>i. take (Suc k) (q i)) ids))"
  proof (induction ids)
    case Nil
    then show ?case by (simp add: rr_nth_def)
  next
    case (Cons i ids)
    have "take (Suc k) (q i) = take k (q i) @ take 1 (drop k (q i))"
      by (metis add.commute plus_1_eq_Suc take_add)
    then have "mset (take (Suc k) (q i)) = mset (take k (q i)) + mset (take 1 (drop k (q i)))"
      by simp
    then show ?case using Cons by (simp add: rr_nth_def ac_simps)
  qed
  then show ?case using Suc by (simp add: ac_simps)
qed

lemma mset_group: "distinct ids \<Longrightarrow> si_StreamID ` set items \<subseteq> set ids \<Longrightarrow>
   mset (concat (map (stream_items items) ids)) = mset items"
proof (induction ids arbitrary: items)
  case Nil
  then show ?case by simp
next
  case (Cons i ids)
  let ?rest = "filter (\<lambda>x. si_StreamID x \<noteq> i) items"
  have same: "map (stream_items ?rest) ids = map (stream_items items) ids"
    using Cons.prems(1) by (auto simp: stream_items_def intro!: filter_cong)
  have "mset (concat (map (stream_items ?rest) ids)) = mset ?rest"
    using Cons.prems by (intro Cons.IH) auto
  then have "mset (concat (map (stream_items items) ids)) = mset ?rest" unfolding same .
  then have "mset (concat (map (stream_items items) (i # ids))) = mset (stream_items items i) + mset ?rest"
    by (simp only: list.map concat.simps mset_append)
  also have "\<dots> = mset items"
    unfolding stream_items_def mset_filter
    by (rule multiset_partition [of "mset items" "\<lambda>x. si_StreamID x = i", symmetric])
  finally show ?case .
qed

lemma rr_rounds_full:
  assumes "distinct ids" and "si_StreamID ` set items \<subseteq> set ids" and "length items \<le> k"
  shows "mset (concat (map (rr_nth (stream_items items) ids) [0 ..< k])) = mset items"
proof -
  have "length (stream_items items i) \<le> k" for i
    using assms(3) length_filter_le [of "\<lambda>x. si_StreamID x = i" items]
    unfolding stream_items_def by linarith
  then have same: "map (\<lambda>i. take k (stream_items items i)) ids = map (stream_items items) ids" by simp
  show ?thesis
    using mset_rr_rounds [of "stream_items items" ids k] mset_group [OF assms(1,2)] unfolding same by (rule trans)
qed

lemma rr_nth_empty_later: "rr_nth q ids k = [] \<Longrightarrow> k \<le> j \<Longrightarrow> rr_nth q ids j = []"
  by (auto simp: rr_nth_def)

lemma rr_rounds_split:
  "k \<le> m \<Longrightarrow> concat (map f [0 ..< m]) = concat (map f [0 ..< k]) @ concat (map f [k ..< m])"
  by (metis concat_append map_append upt_add_eq_append le_add_diff_inverse zero_le)

lemma rr_loop_spec:
  assumes "distinct ids" and "si_StreamID ` set items \<subseteq> set ids"
    and "\<forall>i \<in> set ids. map_of bs i = Some (drop k (stream_items items i))"
    and "k \<le> length items"
  shows "rr_loop (length items) bs ids (concat (map (rr_nth (stream_items items) ids) [0 ..< k])) =
    concat (map (rr_nth (stream_items items) ids) [0 ..< length items])"
  using assms(3,4)
proof (induction "length items - k" arbitrary: k bs)
  case 0
  then have k: "k = length items" by simp
  have "length (concat (map (rr_nth (stream_items items) ids) [0 ..< k])) = length items"
    using rr_rounds_full [OF assms(1,2), of k] k by (metis order_refl size_mset)
  then show ?case by (simp add: rr_loop.simps k)
next
  case (Suc n)
  let ?R = "rr_nth (stream_items items) ids"
  let ?out = "concat (map ?R [0 ..< k])"
  have k: "k < length items" using Suc.hyps(2) by simp
  have total: "length ?out + length (concat (map ?R [k ..< length items])) = length items"
    using rr_rounds_full [OF assms(1,2) order_refl] rr_rounds_split [of k "length items" ?R] k
    by (metis length_append less_imp_le size_mset)
  obtain bs' out' p' where r: "rr_round bs ids ?out False = (bs', out', p')"
    by (cases "rr_round bs ids ?out False")
  note spec = rr_round_spec [OF r assms(1) Suc.prems(1)]
  show ?case
  proof (cases "?R k = []")
    case True
    then have nil: "concat (map ?R [k ..< length items]) = []"
      using rr_nth_empty_later by fastforce
    then have "concat (map ?R [0 ..< length items]) = ?out"
      using rr_rounds_split [of k "length items" ?R] k by (metis append_Nil2 less_imp_le)
    moreover have len: "length ?out = length items" using total nil by (metis add_0_right list.size(3))
    moreover have "rr_loop (length items) bs ids ?out = ?out"
      by (subst rr_loop.simps) (simp only: len less_irrefl if_False)
    ultimately show ?thesis by simp
  next
    case False
    then have "0 < length (?R k)" by simp
    then have "length ?out < length items"
      using total k by (simp only: upt_conv_Cons list.map concat.simps length_append)
    moreover have "rr_loop (length items) bs' ids (concat (map ?R [0 ..< Suc k])) =
        concat (map ?R [0 ..< length items])"
      using Suc.hyps(2) k spec by (intro Suc.hyps(1)) auto
    ultimately show ?thesis using r spec False by (simp add: rr_loop.simps)
  qed
qed

lemma sorted_ids_slice:
  assumes "distinct (order :: u32 list)"
  shows "slice_stable (<) order = sorted_list_of_set (set order)"
proof (rule sorted_distinct_set_unique)
  show "sorted (slice_stable (<) order)"
    using id_order.sorted_slice_stable [of order] by (simp add: not_less)
qed (use assms in auto)

lemma roundRobin_reference: "roundRobin items = rr_reference items"
proof -
  obtain bs order where g: "group_items items [] [] = (bs, order)"
    by (cases "group_items items [] []")
  have spec: "distinct order" "set order = si_StreamID ` set items"
    "\<forall>i. map_of bs i = (if i \<in> set order then Some (stream_items items i) else None)"
    using group_items_spec [OF g, of "[]"] by auto
  let ?ids = "sorted_list_of_set (set order)"
  have "rr_loop (length items) bs ?ids [] = concat (map (rr_nth (stream_items items) ?ids) [0 ..< length items])"
    using rr_loop_spec [of ?ids items bs 0] spec by simp
  then show ?thesis
    using g spec by (simp add: roundRobin_def rr_reference_def stream_ids_def sorted_ids_slice)
qed

lemma mset_roundRobin: "mset (roundRobin items) = mset items"
  unfolding roundRobin_reference rr_reference_def by (rule rr_rounds_full) (auto simp: stream_ids_def)

lemma mset_stream_queue:
  "mset (stream_queue policy items) = mset (filter (\<lambda>x. \<not> (si_Blocked x \<or> si_Closed x)) items)"
  by (simp add: stream_queue_def Let_def mset_roundRobin)

section \<open>Fragment sizes\<close>

lemma fragment_chunk_pos: "1 \<le> fragment_chunk mode mb mf"
  by (simp add: fragment_chunk_def Let_def)

lemma fragment_chunk_le: "fragment_chunk mode mb mf \<le> int64 (mf - 512) \<or> fragment_chunk mode mb mf = 1"
proof -
  define m0 where "m0 = (if mb \<le> 0 \<or> mb > int64 (mf - 512) then int64 (mf - 512) else mb)"
  define m1 where "m1 = (if mode = ''fixed_size_chunks'' then min m0 4096
    else if mode = ''bounded_variable_chunks'' then min m0 6144
    else if mode = ''scheduler_controlled_chunks'' then min m0 mb else min m0 (16 * 1024))"
  have "m1 \<le> m0" by (simp add: m1_def)
  moreover have "m0 \<le> int64 (mf - 512)" by (simp add: m0_def)
  moreover have "fragment_chunk mode mb mf = (if m1 < 1 then 1 else m1)"
    unfolding fragment_chunk_def Let_def m0_def [symmetric] m1_def [symmetric] ..
  ultimately show ?thesis by simp
qed

lemma fragment_loop_spec:
  assumes "1 \<le> c" and "0 < r"
  shows "sum_list (fragment_loop c r) = r \<and> (\<forall>n \<in> set (fragment_loop c r). 1 \<le> n \<and> n \<le> c) \<and>
    (\<forall>n \<in> set (butlast (fragment_loop c r)). n = c) \<and> fragment_loop c r \<noteq> []"
  using assms(2)
proof (induction "nat r" arbitrary: r rule: less_induct)
  case less
  show ?case
  proof (cases "r \<le> c")
    case True
    then have "fragment_loop c r = [r]"
      using assms less.prems
      by (subst fragment_loop.simps) (simp add: Let_def fragment_loop.simps [of c 0])
    then show ?thesis using less.prems True by simp
  next
    case False
    then have unfold: "fragment_loop c r = c # fragment_loop c (r - c)"
      using assms less.prems by (subst fragment_loop.simps) (simp add: Let_def)
    have "nat (r - c) < nat r" "0 < r - c" using assms False by auto
    note ih = less.hyps [OF this]
    then show ?thesis using unfold assms by auto
  qed
qed

lemma fragment_count:
  assumes "1 \<le> c" and "0 < r"
  shows "int (length (fragment_loop c r)) = (r + c - 1) div c"
proof -
  note spec = fragment_loop_spec [OF assms]
  define xs where "xs = fragment_loop c r"
  have xs: "xs = butlast xs @ [last xs]" using spec xs_def by simp
  have "sum_list (butlast xs) = int (length (butlast xs)) * c"
  proof -
    have "butlast xs = replicate (length (butlast xs)) c"
      using spec xs_def by (metis replicate_eqI)
    then have "sum_list (butlast xs) = sum_list (replicate (length (butlast xs)) c)" by simp
    then show ?thesis by (simp add: sum_list_replicate)
  qed
  then have r: "r = int (length (butlast xs)) * c + last xs"
    using spec xs by (metis sum_list_append sum_list.Cons sum_list.Nil add_0_right xs_def)
  have "last xs \<in> set xs" using spec xs_def by simp
  then have l: "1 \<le> last xs" "last xs \<le> c" using spec xs_def by auto
  have "r + c - 1 = (last xs + c - 1) + int (length (butlast xs)) * c" by (simp only: r)
  then have "(r + c - 1) div c = int (length (butlast xs)) + (last xs + c - 1) div c"
    using assms(1) by (simp only:) (intro div_mult_self1, simp)
  also have "(last xs + c - 1) div c = 1"
    using l assms(1) by (intro div_pos_geq [THEN trans]) (auto simp: div_pos_pos_trivial)
  finally show ?thesis using xs by (metis xs_def length_append_singleton of_nat_Suc add.commute)
qed

section \<open>Properties\<close>

definition sample_policy :: scheduler_policy where
  "sample_policy = \<lparr>sched_Mode = ''interactive_first'', sched_MaxBatchBytes = 10,
     sched_FlushIntervalMs = 5, sched_MaxInFlightFrames = 4, sched_PriorityMode = ''p''\<rparr>"

definition sample_items :: "item list" where
  "sample_items = [\<lparr>item_Semantic = ''data'', item_PayloadBytes = 12, item_Interactive = False\<rparr>,
     \<lparr>item_Semantic = ''ack'', item_PayloadBytes = 3, item_Interactive = True\<rparr>,
     \<lparr>item_Semantic = ''data'', item_PayloadBytes = 4, item_Interactive = False\<rparr>]"

definition sample_stream_items :: "stream_item list" where
  "sample_stream_items =
     [\<lparr>si_StreamID = 3, si_Semantic = ''data'', si_PayloadBytes = 8, si_Priority = ''bulk'',
        si_Blocked = False, si_Closed = False\<rparr>,
      \<lparr>si_StreamID = 1, si_Semantic = ''data'', si_PayloadBytes = 6, si_Priority = ''bulk'',
        si_Blocked = False, si_Closed = False\<rparr>,
      \<lparr>si_StreamID = 1, si_Semantic = ''ack'', si_PayloadBytes = 1, si_Priority = ''interactive'',
        si_Blocked = True, si_Closed = False\<rparr>]"

definition sample_stream_policy :: stream_policy where
  "sample_stream_policy = \<lparr>str_IDStrategy = ''varint_ids'', str_IDEncodingMode = ''varint'',
     str_MaxConcurrentStreams = 2, str_InitialStreamWindowBytes = 16384,
     str_InitialSessionWindowBytes = 16384, str_WindowUpdatePolicy = ''hybrid_update'',
     str_PriorityPolicy = ''weighted_round_robin'', str_ClosePolicy = ''half_close'',
     str_ResetPolicy = ''delayed_reset'', str_MaxStreamID = 100\<rparr>"

text \<open>
  C13: \<open>Plan\<close> is a complete, bounded schedule. The flushes in order hold the policy's queue, so
  every item exactly once; no flush is empty; the byte count of a flush is the sum of its
  items and stays within \<open>MaxBatchBytes\<close> unless the flush is one oversized item; and no flush
  has more than \<open>MaxInFlightFrames\<close> items. Item sizes are not negative and the limits are
  positive.
\<close>

theorem plan_complete:
  assumes "sized policy items"
  shows "concat (map flush_Items (Plan policy items)) = plan_queue policy items \<and>
    mset (concat (map flush_Items (Plan policy items))) = mset items \<and>
    (\<forall>f \<in> set (Plan policy items). flush_Items f \<noteq> [] \<and>
       flush_Bytes f = sum_list (map item_PayloadBytes (flush_Items f)) \<and>
       (flush_Bytes f \<le> sched_MaxBatchBytes policy \<or> length (flush_Items f) = 1) \<and>
       int (length (flush_Items f)) \<le> sched_MaxInFlightFrames policy)"
proof -
  have "set (plan_queue policy items) = set items" by (metis mset_plan_queue set_mset_mset)
  then have "sized policy (plan_queue policy items)" using assms by (simp add: sized_def)
  moreover have "0 < sched_MaxInFlightFrames policy" using assms by (simp add: sized_def)
  ultimately have "concat (map flush_Items (Plan policy items)) = plan_queue policy items"
    "\<forall>f \<in> set (Plan policy items). good_flush policy f"
    using plan_loop_good [of policy "plan_queue policy items" 0 0] by (simp_all add: Plan_def)
  then show ?thesis unfolding good_flush_def by (metis mset_plan_queue)
qed

theorem plan_complete_witness:
  "map (\<lambda>f. (flush_AtMillis f, flush_Bytes f)) (Plan sample_policy sample_items) =
     [(0, 7), (5, 12)] \<and>
   mset (concat (map flush_Items (Plan sample_policy sample_items))) = mset sample_items"
proof -
  have "sized sample_policy sample_items"
    by (simp add: sized_def sample_policy_def sample_items_def)
  moreover have "map (\<lambda>f. (flush_AtMillis f, flush_Bytes f)) (Plan sample_policy sample_items) =
      [(0, 7), (5, 12)]"
    by code_simp
  ultimately show ?thesis using plan_complete by blast
qed

text \<open>
  C14: \<open>PlanStreams\<close> drops exactly the blocked and closed items and schedules every other item
  once, whatever the priority policy; its flushes are not empty, carry the sum of their
  sizes, and respect the byte and frame limits, with the defaults 32 KiB and 4 frames where
  the policy gives none.
\<close>

theorem plan_streams_complete:
  assumes "maxBatch = (if sched_MaxBatchBytes policy \<le> 0 then 32768 else sched_MaxBatchBytes policy)"
    and "maxInFlight = (if sched_MaxInFlightFrames policy \<le> 0 then 4 else sched_MaxInFlightFrames policy)"
    and "\<forall>x \<in> set items. 0 \<le> si_PayloadBytes x \<and> si_PayloadBytes x + maxBatch < 2 ^ 63"
  shows "mset (concat (map sf_Items (PlanStreams sp policy items))) =
      mset (filter (\<lambda>x. \<not> si_Blocked x \<and> \<not> si_Closed x) items) \<and>
    (\<forall>f \<in> set (PlanStreams sp policy items). sf_Items f \<noteq> [] \<and>
       sf_Bytes f = sum_list (map si_PayloadBytes (sf_Items f)) \<and>
       (sf_Bytes f \<le> maxBatch \<or> length (sf_Items f) = 1) \<and>
       int (length (sf_Items f)) \<le> maxInFlight)"
proof -
  let ?queue = "stream_queue (str_PriorityPolicy sp) items"
  have mset: "mset ?queue = mset (filter (\<lambda>x. \<not> si_Blocked x \<and> \<not> si_Closed x) items)"
    by (simp add: mset_stream_queue)
  then have "set ?queue \<subseteq> set items" by (metis filter_is_subset set_mset_mset)
  then have "stream_sized maxBatch ?queue" using assms by (auto simp: stream_sized_def)
  moreover have "0 < maxInFlight" using assms(2) by simp
  moreover have "PlanStreams sp policy items = stream_plan_loop (str_PriorityPolicy sp) maxBatch
      maxInFlight (sched_FlushIntervalMs policy) ?queue 0"
    by (simp add: PlanStreams_def Let_def assms(1,2))
  ultimately have "concat (map sf_Items (PlanStreams sp policy items)) = ?queue"
    "\<forall>f \<in> set (PlanStreams sp policy items).
       good_stream_flush (str_PriorityPolicy sp) maxBatch maxInFlight f"
    using stream_plan_loop_good [of maxBatch ?queue maxInFlight "str_PriorityPolicy sp" "sched_FlushIntervalMs policy" 0]
    by simp_all
  then show ?thesis unfolding good_stream_flush_def by (metis mset)
qed

theorem plan_streams_complete_witness:
  "map (\<lambda>f. map si_StreamID (sf_Items f)) (PlanStreams sample_stream_policy sample_policy sample_stream_items) =
     [[1], [3]] \<and>
   mset (concat (map sf_Items (PlanStreams sample_stream_policy sample_policy sample_stream_items))) =
     mset (filter (\<lambda>x. \<not> si_Blocked x \<and> \<not> si_Closed x) sample_stream_items)"
proof -
  have "map (\<lambda>f. map si_StreamID (sf_Items f)) (PlanStreams sample_stream_policy sample_policy sample_stream_items) =
      [[1], [3]]"
    by code_simp
  moreover have "\<forall>x \<in> set sample_stream_items. 0 \<le> si_PayloadBytes x \<and> si_PayloadBytes x + 10 < 2 ^ 63"
    by (simp add: sample_stream_items_def)
  ultimately show ?thesis
    using plan_streams_complete [of 10 sample_policy 4 sample_stream_items sample_stream_policy]
    by (simp add: sample_policy_def)
qed

text \<open>
  C15: The map-and-queue loop of \<open>roundRobin\<close> computes the round robin: first the first item of
  every stream in ascending order of ids, then every second item, and so on. It loses and
  invents nothing, and the items of one stream keep their order.
\<close>

theorem round_robin_equivalence:
  "roundRobin items =
     concat (map (\<lambda>k. concat (map (\<lambda>i. take 1 (drop k (filter (\<lambda>x. si_StreamID x = i) items)))
       (sorted_list_of_set (si_StreamID ` set items)))) [0 ..< length items]) \<and>
   mset (roundRobin items) = mset items"
  using roundRobin_reference [of items] mset_roundRobin [of items]
  by (simp add: rr_reference_def rr_nth_def stream_items_def stream_ids_def cong: map_cong)

text \<open>
  C16: \<open>FragmentSizesFor\<close> always ends. An empty payload gives the single size 0. For a positive
  payload the sizes add up to the payload, each is between 1 and the chunk size, all but the
  last equal it, and their number is the payload divided by the chunk size, rounded up. The
  chunk never exceeds the frame limit less the 512 bytes kept for the header, or is 1; the
  frame limit is a natural number of 63 bits.
\<close>

theorem fragment_sizes_exact:
  assumes "0 \<le> maxFrame" and "maxFrame < 2 ^ 63"
  shows "if payloadLen \<le> 0 then FragmentSizesFor mode maxBatch maxFrame payloadLen = [0]
    else sum_list (FragmentSizesFor mode maxBatch maxFrame payloadLen) = payloadLen \<and>
    (\<exists>c. (1 \<le> c \<and> c \<le> maxFrame - 512 \<or> c = 1) \<and>
       (\<forall>n \<in> set (FragmentSizesFor mode maxBatch maxFrame payloadLen). 1 \<le> n \<and> n \<le> c) \<and>
       (\<forall>n \<in> set (butlast (FragmentSizesFor mode maxBatch maxFrame payloadLen)). n = c) \<and>
       int (length (FragmentSizesFor mode maxBatch maxFrame payloadLen)) = (payloadLen + c - 1) div c)"
proof (cases "payloadLen \<le> 0")
  case True
  then show ?thesis by (simp add: FragmentSizesFor_def)
next
  case False
  then have pos: "0 < payloadLen" by simp
  let ?c = "fragment_chunk mode maxBatch maxFrame"
  have "int64 (maxFrame - 512) = maxFrame - 512"
    using assms by (intro int64_id) (auto simp: in_int64_def)
  then have c: "1 \<le> ?c \<and> ?c \<le> maxFrame - 512 \<or> ?c = 1"
    using fragment_chunk_le [of mode maxBatch maxFrame] fragment_chunk_pos [of mode maxBatch maxFrame]
    by linarith
  have loop: "FragmentSizesFor mode maxBatch maxFrame payloadLen = fragment_loop ?c payloadLen"
    using pos by (simp add: FragmentSizesFor_def)
  note spec = fragment_loop_spec [OF fragment_chunk_pos pos]
  show ?thesis
    unfolding loop if_not_P [OF False]
    by (intro conjI exI [of _ ?c] c fragment_count [OF fragment_chunk_pos pos] spec [THEN conjunct1]
        spec [THEN conjunct2, THEN conjunct1] spec [THEN conjunct2, THEN conjunct2, THEN conjunct1])
qed

theorem fragment_sizes_exact_witness:
  "FragmentSizesFor ''fixed_size_chunks'' 32768 65536 10000 = [4096, 4096, 1808] \<and>
   sum_list (FragmentSizesFor ''fixed_size_chunks'' 32768 65536 10000) = 10000"
proof -
  have "FragmentSizesFor ''fixed_size_chunks'' 32768 65536 10000 = [4096, 4096, 1808]"
    by code_simp
  then show ?thesis
    using fragment_sizes_exact [of 65536 10000 "''fixed_size_chunks''" 32768] by simp
qed

end
