(* ===== verification/Framing_Codec.thy ===== *)
theory Framing_Codec
  imports Framing_Metadata Flush_Scheduler
begin

text \<open>
  Whole frames and operations (\<open>framing/codec.go\<close> and the frame writer and parser of
  \<open>codec_buffer_helpers.go\<close>): sizes, the frame writer on a caller's buffer, the parser, the
  fragmenting encoder with its padding engine, the reassembling decoder with its fragment
  errors and the frame reader on a byte stream. The theory shows that frames and operations
  are read back as written, that a damaged checksummed frame is rejected, which fragment
  sequences are accepted, and that the stream reader finds the frame boundaries.
\<close>

section \<open>Frames\<close>

definition crcForSpec :: "codec_spec \<Rightarrow> bytes \<Rightarrow> u32" where
  "crcForSpec spec body = crc32_Update (sp_crc32PrefixState spec) body"

definition appendCRCWithSpec :: "codec_spec \<Rightarrow> bytes \<Rightarrow> bytes" where
  "appendCRCWithSpec spec body = body @ put_be 4 (unat (crcForSpec spec body))"

definition frameSizeWithSpec :: "codec_spec \<Rightarrow> codec_message \<Rightarrow> u32 \<Rightarrow> int \<Rightarrow> framing_error + (int \<times> int)" where
  "frameSizeWithSpec spec msg streamID contentBytes =
     (let checksumBytes = (if sp_checksumMode spec = ''crc32'' then 4 else 0) in
      if contentBytes < 0 \<or> contentBytes > sp_maxFrameBytes spec then Inl (FrErr ''frame exceeds profile limit'')
      else if checksumBytes > sp_maxFrameBytes spec - contentBytes then Inl (FrErr ''frame exceeds profile limit'')
      else bind_result (headerFieldsSize spec msg streamID (sp_maxFrameBytes spec - contentBytes - checksumBytes))
        (\<lambda>headerBytes. let bodyBytes = headerBytes + contentBytes + checksumBytes in
          bind_result (lengthWrapperSize spec bodyBytes) (\<lambda>wrapperBytes.
            if wrapperBytes > 2 ^ 63 - 1 - bodyBytes then Inl (FrErr ''frame length overflow'')
            else Inr (bodyBytes, wrapperBytes))))"

text \<open>
  The body \<open>writeFrameWithSpec\<close> assembles: header, then metadata and payload with the padding
  before or behind them, then the checksum of all of it.
\<close>

definition frame_content ::
  "codec_spec \<Rightarrow> codec_message \<Rightarrow> u32 \<Rightarrow> bytes \<Rightarrow> bytes \<Rightarrow> bytes \<Rightarrow> int \<Rightarrow> int \<Rightarrow> bytes" where
  "frame_content spec msg streamID meta payload pad fragIndex fragCount =
     (case writeHeaderFields spec msg streamID fragIndex fragCount (int (length pad)) of
        Inl _ \<Rightarrow> [] | Inr header \<Rightarrow> header) @
     (if sp_paddingPlacement spec = ''prefix'' then pad else []) @ meta @ payload @
     (if sp_paddingPlacement spec \<noteq> ''prefix'' then pad else [])"

definition frame_body ::
  "codec_spec \<Rightarrow> codec_message \<Rightarrow> u32 \<Rightarrow> bytes \<Rightarrow> bytes \<Rightarrow> bytes \<Rightarrow> int \<Rightarrow> int \<Rightarrow> bytes" where
  "frame_body spec msg streamID meta payload pad fragIndex fragCount =
     (let content = frame_content spec msg streamID meta payload pad fragIndex fragCount in
      if sp_checksumMode spec = ''crc32'' then appendCRCWithSpec spec content else content)"

definition write_wrapper :: "codec_spec \<Rightarrow> int \<Rightarrow> bytes \<Rightarrow> bytes" where
  "write_wrapper spec bodyBytes dst =
     (let mode = sp_lengthMode spec in
      if mode = ''varint_prefix'' then copy_at 0 (put_uvarint (nat bodyBytes)) dst
      else if mode = ''fixed_2_prefix'' then copy_at 0 (put_be 2 (nat bodyBytes)) dst
      else if mode = ''fixed_4_prefix'' then copy_at 0 (put_be 4 (nat bodyBytes)) dst
      else if mode = ''length_suffix_lab'' then copy_at (nat bodyBytes) (put_be 4 (nat bodyBytes)) dst
      else dst)"

definition writeFrameWithSpec ::
  "codec_spec \<Rightarrow> bytes \<Rightarrow> codec_message \<Rightarrow> u32 \<Rightarrow> bytes \<Rightarrow> bytes \<Rightarrow> bytes \<Rightarrow> int \<Rightarrow> int \<Rightarrow> int \<Rightarrow> int \<Rightarrow> bytes" where
  "writeFrameWithSpec spec dst msg streamID meta payload pad fragIndex fragCount bodyBytes wrapperBytes =
     (let start = (if sp_lengthMode spec = ''length_suffix_lab'' then 0 else nat wrapperBytes);
          body = frame_body spec msg streamID meta payload pad fragIndex fragCount
      in write_wrapper spec bodyBytes (copy_at start (take (nat bodyBytes) body) dst))"

fun content_loop :: "int \<Rightarrow> int \<Rightarrow> int list \<Rightarrow> framing_error + int" where
  "content_loop limit used [] = Inr used"
| "content_loop limit used (n # ns) =
     (if n > limit - used then Inl (FrErr ''frame exceeds profile limit'')
      else content_loop limit (used + n) ns)"

definition encodeFrameWithSpec :: "codec_spec \<Rightarrow> operation \<Rightarrow> bytes \<Rightarrow> int \<Rightarrow> int \<Rightarrow> framing_error + bytes" where
  "encodeFrameWithSpec spec op pad fragIndex fragCount =
     (case messageBySemantic spec (op_Semantic op) of
        None \<Rightarrow> Inl (FrErr ''unknown semantic'')
      | Some msg \<Rightarrow>
          if pad \<noteq> [] \<and> (int (length pad) < pad_MinPaddingBytes (sp_padding spec) \<or>
              int (length pad) > pad_MaxPaddingBytes (sp_padding spec))
          then Inl (FrErr ''padding outside bounds'')
          else bind_result (encodeOperationMetadata op) (\<lambda>meta.
            bind_result (content_loop (sp_maxFrameBytes spec) 0
                [int (length meta), int (length (op_Payload op)), int (length pad)]) (\<lambda>contentBytes.
            bind_result (frameSizeWithSpec spec msg (op_StreamID op) contentBytes) (\<lambda>(body, wrapper).
              Inr (writeFrameWithSpec spec (replicate (nat (body + wrapper)) 0) msg (op_StreamID op)
                meta (op_Payload op) pad fragIndex fragCount body wrapper)))))"

section \<open>Parsing\<close>

record frame_view =
  fv_msg :: codec_message
  fv_streamID :: u32
  fv_fragIndex :: int
  fv_fragCount :: int
  fv_padLen :: int
  fv_bodyBytes :: int
  fv_metadata :: metadata_view
  fv_payload :: bytes

definition check_crc :: "codec_spec \<Rightarrow> bytes \<Rightarrow> framing_error + bytes" where
  "check_crc spec body =
     (if sp_checksumMode spec = ''crc32'' then
        (if length body < 4 then Inl (FrErr ''missing checksum'')
         else let want = get_be (drop (length body - 4) body); body = take (length body - 4) body in
           if unat (crcForSpec spec body) \<noteq> want then Inl (FrErr ''checksum mismatch'') else Inr body)
      else Inr body)"

definition strip_padding :: "codec_spec \<Rightarrow> int \<Rightarrow> bytes \<Rightarrow> framing_error + bytes" where
  "strip_padding spec padLen section =
     (if padLen > int (length section) then Inl (FrErr ''padding length exceeds payload section'')
      else if padLen > 0 then
        (if sp_paddingPlacement spec = ''prefix'' then Inr (drop (nat padLen) section)
         else Inr (take (length section - nat padLen) section))
      else Inr section)"

definition parseFrameView :: "codec_spec \<Rightarrow> bytes \<Rightarrow> framing_error + frame_view" where
  "parseFrameView spec frame =
     (if frame = [] \<or> int (length frame) > int64 (sp_maxFrameBytes spec + 10)
      then Inl (FrErr ''invalid frame size'')
      else bind_result (unwrapLengthWithSpec spec frame) (\<lambda>body0.
        bind_result (check_crc spec body0) (\<lambda>body.
        bind_result (decodeHeaderAndPayloadWithSpec spec body) (\<lambda>(msg, stream, index, count, padLen, section).
        bind_result (strip_padding spec padLen section) (\<lambda>section.
        bind_result (parseMetadataView section) (\<lambda>(meta, payload).
          if int (length payload) > sp_maxPayloadBytes spec then Inl (FrErr ''payload exceeds profile limit'')
          else Inr \<lparr>fv_msg = msg, fv_streamID = stream, fv_fragIndex = index, fv_fragCount = count,
                    fv_padLen = padLen, fv_bodyBytes = int (length body0), fv_metadata = meta,
                    fv_payload = payload\<rparr>))))))"

record decoded_frame =
  df_Operation :: operation
  df_WireSymbol :: string
  df_FrameBytes :: int
  df_PayloadBytes :: int
  df_PaddingBytes :: int
  df_FragIndex :: int
  df_FragCount :: int

definition decodeFrameWithSpec :: "codec_spec \<Rightarrow> bytes \<Rightarrow> framing_error + decoded_frame" where
  "decodeFrameWithSpec spec frame =
     bind_result (parseFrameView spec frame) (\<lambda>view.
       Inr \<lparr>df_Operation = (materialize (fv_metadata view))\<lparr>op_Semantic := cm_semantic (fv_msg view),
              op_StreamID := fv_streamID view, op_Payload := fv_payload view\<rparr>,
            df_WireSymbol = cm_wireSymbol (fv_msg view), df_FrameBytes = int (length frame),
            df_PayloadBytes = int (length (fv_payload view)), df_PaddingBytes = fv_padLen view,
            df_FragIndex = fv_fragIndex view, df_FragCount = fv_fragCount view\<rparr>)"

section \<open>Operations\<close>

fun encode_fragments ::
  "'r rng \<Rightarrow> codec_spec \<Rightarrow> operation \<Rightarrow> int \<Rightarrow> int \<Rightarrow> bytes \<Rightarrow> 'r engine \<Rightarrow> int list \<Rightarrow> framing_error + bytes list" where
  "encode_fragments R spec op n idx rest e [] = Inr []"
| "encode_fragments R spec op n idx rest e (len # sizes) =
     (case Generate R e of
        (Inl err, e') \<Rightarrow> Inl (FrPadding err)
      | (Inr pad, e') \<Rightarrow>
          bind_result (encodeFrameWithSpec spec (op\<lparr>op_Payload := take (nat len) rest\<rparr>) pad idx n) (\<lambda>frame.
          bind_result (encode_fragments R spec op n (idx + 1) (drop (nat len) rest) e' sizes) (\<lambda>frames.
            Inr (frame # frames))))"

definition encodeOperationWithSpec ::
  "'r rng \<Rightarrow> codec_spec \<Rightarrow> operation \<Rightarrow> int \<Rightarrow> framing_error + bytes list" where
  "encodeOperationWithSpec R spec op seed =
     (if int (length (op_Payload op)) > sp_maxPayloadBytes spec then Inl (FrErr ''payload exceeds program limit'')
      else if messageBySemantic spec (op_Semantic op) = None then Inl (FrErr ''unknown semantic'')
      else let sizes = FragmentSizesFor (sp_fragmentationMode spec) (sp_maxBatchBytes spec)
                 (sp_maxFrameBytes spec) (int (length (op_Payload op)))
           in encode_fragments R spec op (int (length sizes)) 0 (op_Payload op)
                (New R (sp_padding spec) seed) sizes)"

fun decode_all :: "codec_spec \<Rightarrow> bytes list \<Rightarrow> framing_error + decoded_frame list" where
  "decode_all spec [] = Inr []"
| "decode_all spec (frame # frames) =
     bind_result (decodeFrameWithSpec spec frame) (\<lambda>part.
     bind_result (decode_all spec frames) (\<lambda>parts. Inr (part # parts)))"

text \<open>The checks on one part against the first, in the order of the source.\<close>

definition part_error :: "decoded_frame \<Rightarrow> bytes \<Rightarrow> nat \<Rightarrow> nat \<Rightarrow> bool list \<Rightarrow> decoded_frame \<Rightarrow> fragment_error_kind option" where
  "part_error expected expectedMetadata n position seen part =
     (if df_FragCount part \<noteq> df_FragCount expected then Some FragmentErrorConflictingCount
      else if df_FragIndex part < 0 \<or> df_FragIndex part \<ge> int n then Some FragmentErrorOutOfRange
      else if seen ! nat (df_FragIndex part) then Some FragmentErrorDuplicate
      else if df_FragIndex part \<noteq> int position then Some FragmentErrorReordered
      else if op_Semantic (df_Operation part) \<noteq> op_Semantic (df_Operation expected) then Some FragmentErrorSemantic
      else if op_StreamID (df_Operation part) \<noteq> op_StreamID (df_Operation expected) then Some FragmentErrorStream
      else if df_WireSymbol part \<noteq> df_WireSymbol expected then Some FragmentErrorMessage
      else if encodeOperationMetadata (df_Operation part) \<noteq> Inr expectedMetadata then Some FragmentErrorOperation
      else None)"

fun collect_parts ::
  "decoded_frame \<Rightarrow> bytes \<Rightarrow> nat \<Rightarrow> nat \<Rightarrow> bool list \<Rightarrow> bytes list \<Rightarrow> decoded_frame list \<Rightarrow>
   fragment_error_kind + (bool list \<times> bytes list)" where
  "collect_parts expected meta n position seen payloads [] = Inr (seen, payloads)"
| "collect_parts expected meta n position seen payloads (part # parts) =
     (case part_error expected meta n position seen part of
        Some kind \<Rightarrow> Inl kind
      | None \<Rightarrow> collect_parts expected meta n (Suc position) (seen[nat (df_FragIndex part) := True])
          (payloads[nat (df_FragIndex part) := op_Payload (df_Operation part)]) parts)"

text \<open>The result of \<open>decodeFramesWithSpec\<close> with the decoded parts it returns beside an error.\<close>

definition decodeFramesWithSpec :: "codec_spec \<Rightarrow> bytes list \<Rightarrow> (framing_error + operation) \<times> decoded_frame list" where
  "decodeFramesWithSpec spec frames =
     (case decode_all spec frames of
        Inl err \<Rightarrow> (Inl err, [])
      | Inr [] \<Rightarrow> (Inl (FrFragment FragmentErrorEmpty), [])
      | Inr (expected # parts) \<Rightarrow>
          let decoded = expected # parts; n = length decoded in
          if df_FragCount expected \<noteq> int n then (Inl (FrFragment FragmentErrorMissing), decoded)
          else (case encodeOperationMetadata (df_Operation expected) of
            Inl _ \<Rightarrow> (Inl (FrFragment FragmentErrorOperation), decoded)
          | Inr meta \<Rightarrow>
              (case collect_parts expected meta n 0 (replicate n False) (replicate n []) decoded of
                 Inl kind \<Rightarrow> (Inl (FrFragment kind), decoded)
               | Inr (seen, payloads) \<Rightarrow>
                   if \<not> list_all (\<lambda>present. present) seen then (Inl (FrFragment FragmentErrorMissing), decoded)
                   else (Inr ((df_Operation expected)\<lparr>op_Payload := concat payloads\<rparr>), decoded))))"

section \<open>The writer is the wrapper of the body\<close>

lemma content_loop_Inr:
  "content_loop limit used ns = Inr m \<Longrightarrow> m = used + sum_list ns"
proof (induction ns arbitrary: used)
  case Nil
  then show ?case by simp
next
  case (Cons n ns)
  have "content_loop limit (used + n) ns = Inr m" using Cons.prems by (simp split: if_splits)
  from Cons.IH [OF this] show ?case by simp
qed

lemma frameSizeWithSpec_Inr:
  assumes "frameSizeWithSpec spec msg w content = Inr (body, wrapper)"
  shows "\<exists>header. writeHeaderFields spec msg w fragIndex fragCount padLen = Inr header \<and>
    body = int (length header) + content + (if sp_checksumMode spec = ''crc32'' then 4 else 0) \<and>
    body \<le> sp_maxFrameBytes spec \<and> lengthWrapperSize spec body = Inr wrapper"
proof -
  let ?k = "if sp_checksumMode spec = ''crc32'' then 4 else 0 :: int"
  obtain h where h: "headerFieldsSize spec msg w (sp_maxFrameBytes spec - content - ?k) = Inr h"
      "lengthWrapperSize spec (h + content + ?k) = Inr wrapper" "body = h + content + ?k"
    using assms by (auto simp: frameSizeWithSpec_def Let_def bind_result_eq_Inr split: if_splits)
  show ?thesis using headerFieldsSize_written [OF h(1), of fragIndex fragCount padLen] h(2,3) by auto
qed

lemma writer_is_wrapper:
  assumes "lengthWrapperSize spec (int (length body)) = Inr wrapper"
    and "length dst = length body + nat wrapper"
    and "frame_body spec msg w meta payload pad fragIndex fragCount = body"
  shows "wrapLengthWithSpec spec body =
    Inr (writeFrameWithSpec spec dst msg w meta payload pad fragIndex fragCount (int (length body)) wrapper)"
proof -
  obtain a b where ab: "dst = a @ b" "length a = nat wrapper" "length b = length body"
    using split_at [of "nat wrapper" dst] assms(2) by auto
  obtain c d where cd: "dst = c @ d" "length c = length body" "length d = nat wrapper"
    using split_at [of "length body" dst] assms(2) by auto
  have pre: "copy_at (nat wrapper) body dst = a @ body"
    using copy_at_append [of a "nat wrapper" b body "[]"] ab by simp
  have suf: "copy_at 0 body dst = body @ d"
    using copy_at_append [of "[]" 0 c body d] cd by simp
  have pre': "copy_at 0 x (a @ body) = x @ body" if "length x = nat wrapper" for x
    using copy_at_append [of "[]" 0 a x body] ab that by simp
  have suf': "copy_at (length body) x (body @ d) = body @ x" if "length x = nat wrapper" for x
    using copy_at_append [of body "length body" d x "[]"] cd that by simp
  consider (varint) "sp_lengthMode spec = ''varint_prefix''" "wrapper = int (uvarint_size (length body))"
    | (two) "sp_lengthMode spec = ''fixed_2_prefix''" "length body \<le> 65535" "wrapper = 2"
    | (four) "sp_lengthMode spec = ''fixed_4_prefix''" "wrapper = 4"
    | (suffix) "sp_lengthMode spec = ''length_suffix_lab''" "wrapper = 4"
    using assms(1) by (auto simp: lengthWrapperSize_def Let_def split: if_splits)
  then show ?thesis
    by cases (use pre suf pre' suf' in \<open>simp_all add: wrapLengthWithSpec_def writeFrameWithSpec_def
        write_wrapper_def assms(3) length_put_uvarint\<close>)
qed

lemma length_frame_content:
  "writeHeaderFields spec msg w fragIndex fragCount (int (length pad)) = Inr header \<Longrightarrow>
   frame_content spec msg w meta payload pad fragIndex fragCount =
     header @ (if sp_paddingPlacement spec = ''prefix'' then pad @ meta @ payload else meta @ payload @ pad)"
  by (simp add: frame_content_def)

text \<open>A frame that the encoder returns is the wrapped body, and the body fits the limit.\<close>

lemma encodeFrame_Inr:
  assumes "encodeFrameWithSpec spec op pad fragIndex fragCount = Inr frame"
  obtains msg meta header body where "messageBySemantic spec (op_Semantic op) = Some msg"
    and "encodeOperationMetadata op = Inr meta"
    and "writeHeaderFields spec msg (op_StreamID op) fragIndex fragCount (int (length pad)) = Inr header"
    and "body = frame_body spec msg (op_StreamID op) meta (op_Payload op) pad fragIndex fragCount"
    and "int (length body) \<le> sp_maxFrameBytes spec"
    and "wrapLengthWithSpec spec body = Inr frame"
proof -
  obtain msg meta content n wrapper where m: "messageBySemantic spec (op_Semantic op) = Some msg"
      "encodeOperationMetadata op = Inr meta"
      "content_loop (sp_maxFrameBytes spec) 0
        [int (length meta), int (length (op_Payload op)), int (length pad)] = Inr content"
      "frameSizeWithSpec spec msg (op_StreamID op) content = Inr (n, wrapper)"
      "frame = writeFrameWithSpec spec (replicate (nat (n + wrapper)) 0) msg (op_StreamID op)
        meta (op_Payload op) pad fragIndex fragCount n wrapper"
    using assms
    by (auto simp: encodeFrameWithSpec_def bind_result_eq_Inr split: option.splits if_splits)
  obtain header where h: "writeHeaderFields spec msg (op_StreamID op) fragIndex fragCount (int (length pad)) = Inr header"
      "n = int (length header) + content + (if sp_checksumMode spec = ''crc32'' then 4 else 0)"
      "n \<le> sp_maxFrameBytes spec" "lengthWrapperSize spec n = Inr wrapper"
    using frameSizeWithSpec_Inr [OF m(4)] by blast
  let ?body = "frame_body spec msg (op_StreamID op) meta (op_Payload op) pad fragIndex fragCount"
  have "content = int (length meta) + int (length (op_Payload op)) + int (length pad)"
    using content_loop_Inr [OF m(3)] by simp
  then have n: "n = int (length ?body)"
    using h(2) by (simp add: frame_body_def Let_def length_frame_content [OF h(1)] appendCRCWithSpec_def)
  have "0 \<le> wrapper" using h(4) by (auto simp: lengthWrapperSize_def Let_def split: if_splits)
  then have "wrapLengthWithSpec spec ?body = Inr frame"
    unfolding m(5) n by (intro writer_is_wrapper) (use h(4) in \<open>simp_all add: n nat_add_distrib\<close>)
  then show ?thesis using that m(1,2) h(1,3) n by simp
qed

section \<open>Reading a written frame\<close>

lemma check_crc_body:
  "check_crc spec (frame_body spec msg w meta payload pad fragIndex fragCount) =
     Inr (frame_content spec msg w meta payload pad fragIndex fragCount)"
  using unat_u32_less [of "crcForSpec spec (frame_content spec msg w meta payload pad fragIndex fragCount)"]
  by (simp add: check_crc_def frame_body_def appendCRCWithSpec_def get_put_be Let_def)

lemma wrapLength_length:
  "wrapLengthWithSpec spec body = Inr frame \<Longrightarrow> length body < 2 ^ 32 \<Longrightarrow>
   frame \<noteq> [] \<and> length frame \<le> length body + 10"
proof -
  assume w: "wrapLengthWithSpec spec body = Inr frame" and b: "length body < 2 ^ 32"
  have "uvarint_size (length body) \<le> 5" using b by (intro uvarint_size_le) simp_all
  then show ?thesis
    using w by (auto simp: wrapLengthWithSpec_def Let_def length_put_uvarint split: if_splits)
      (metis length_put_be list.size(3) zero_neq_numeral)+
qed

text \<open>
  The conditions on a specification under which its frames are unambiguous: the header has a
  type, a stream and a flags field, and the frame limit fits 32 bits.
\<close>

definition spec_ok :: "codec_spec \<Rightarrow> bool" where
  "spec_ok spec \<longleftrightarrow> {''type'', ''stream'', ''flags''} \<subseteq> set (sp_headerOrder spec) \<and>
     sp_maxFrameBytes spec < 2 ^ 32"

text \<open>Fragment numbers come back modulo \<open>2 ^ 16\<close>; a count that is a multiple of it is refused.\<close>

lemma parse_encoded_frame:
  assumes "encodeFrameWithSpec spec op pad fragIndex fragCount = Inr frame"
    and "messageBySemantic spec (op_Semantic op) = Some msg"
    and "messageByTag spec (cm_typeTag msg) = Some msg"
    and "spec_ok spec" and "length pad < 2 ^ 16"
    and "int (length (op_Payload op)) \<le> sp_maxPayloadBytes spec"
  shows "if fragCount mod 2 ^ 16 = 0 then parseFrameView spec frame = Inl (FrErr ''invalid fragment count'')
    else \<exists>view. parseFrameView spec frame = Inr view \<and> fv_msg view = msg \<and>
      fv_streamID view = op_StreamID op \<and> fv_fragIndex view = fragIndex mod 2 ^ 16 \<and>
      fv_fragCount view = fragCount mod 2 ^ 16 \<and> fv_padLen view = int (length pad) \<and>
      fv_bodyBytes view \<le> sp_maxFrameBytes spec \<and>
      fv_metadata view = op_view op \<and> fv_payload view = op_Payload op"
proof -
  obtain meta header body where f: "encodeOperationMetadata op = Inr meta"
      "writeHeaderFields spec msg (op_StreamID op) fragIndex fragCount (int (length pad)) = Inr header"
      "body = frame_body spec msg (op_StreamID op) meta (op_Payload op) pad fragIndex fragCount"
      "int (length body) \<le> sp_maxFrameBytes spec" "wrapLengthWithSpec spec body = Inr frame"
    using encodeFrame_Inr [OF assms(1)] assms(2) by (metis option.inject)
  have len: "length body < 2 ^ 32" using f(4) assms(4) by (simp add: spec_ok_def)
  have "int64 (sp_maxFrameBytes spec + 10) = sp_maxFrameBytes spec + 10"
    using f(4) assms(4) by (intro int64_id) (auto simp: spec_ok_def in_int64_def)
  then have size_ok: "\<not> (frame = [] \<or> int (length frame) > int64 (sp_maxFrameBytes spec + 10))"
    using wrapLength_length [OF f(5) len] f(4) by auto
  define tail where "tail = (if sp_paddingPlacement spec = ''prefix'' then pad @ meta @ op_Payload op
    else meta @ op_Payload op @ pad)"
  have body: "check_crc spec body = Inr (header @ tail)"
    unfolding f(3) check_crc_body length_frame_content [OF f(2)] tail_def by simp
  have hdr: "{''type'', ''stream'', ''flags''} \<subseteq> set (sp_headerOrder spec)"
    using assms(4) by (simp add: spec_ok_def)
  have pad: "int (length pad) mod 2 ^ 16 = int (length pad)" using assms(5) by simp
  have header: "decodeHeaderAndPayloadWithSpec spec (header @ tail) =
      (if fragCount mod 2 ^ 16 = 0 then Inl (FrErr ''invalid fragment count'')
       else Inr (msg, op_StreamID op, fragIndex mod 2 ^ 16, fragCount mod 2 ^ 16, int (length pad), tail))"
    using decode_header_written [OF f(2) assms(3) hdr, of tail] pad by simp
  have strip: "strip_padding spec (int (length pad)) tail = Inr (meta @ op_Payload op)"
    by (simp add: strip_padding_def tail_def)
  have "parseFrameView spec frame = bind_result (decodeHeaderAndPayloadWithSpec spec (header @ tail))
      (\<lambda>(msg, stream, index, count, padLen, section).
        bind_result (strip_padding spec padLen section) (\<lambda>section.
        bind_result (parseMetadataView section) (\<lambda>(meta, payload).
          if int (length payload) > sp_maxPayloadBytes spec then Inl (FrErr ''payload exceeds profile limit'')
          else Inr \<lparr>fv_msg = msg, fv_streamID = stream, fv_fragIndex = index, fv_fragCount = count,
                    fv_padLen = padLen, fv_bodyBytes = int (length body), fv_metadata = meta,
                    fv_payload = payload\<rparr>)))"
    using size_ok by (simp only: parseFrameView_def unwrap_wrapLength [OF len f(5)] body
        bind_result_simps if_False)
  then show ?thesis
    using f(4) assms(6) by (simp add: header strip parseMetadataView_written [OF f(1)])
qed

lemma messageBySemantic_semantic: "messageBySemantic spec s = Some msg \<Longrightarrow> cm_semantic msg = s"
  by (auto simp: messageBySemantic_def find_Some_iff)

lemma encodeFrame_pad:
  "encodeFrameWithSpec spec op pad i n = Inr frame \<Longrightarrow>
   pad = [] \<or> int (length pad) \<le> pad_MaxPaddingBytes (sp_padding spec)"
  by (auto simp: encodeFrameWithSpec_def split: option.splits if_splits)

lemma decode_encoded_frame:
  assumes "encodeFrameWithSpec spec op pad fragIndex fragCount = Inr frame"
    and "messageBySemantic spec (op_Semantic op) = Some msg"
    and "messageByTag spec (cm_typeTag msg) = Some msg"
    and "spec_ok spec" and "length pad < 2 ^ 16" and "counts_fit op"
    and "int (length (op_Payload op)) \<le> sp_maxPayloadBytes spec"
    and "0 \<le> fragIndex" and "fragIndex < 2 ^ 16" and "0 < fragCount" and "fragCount < 2 ^ 16"
  shows "decodeFrameWithSpec spec frame = Inr \<lparr>df_Operation = op, df_WireSymbol = cm_wireSymbol msg,
    df_FrameBytes = int (length frame), df_PayloadBytes = int (length (op_Payload op)),
    df_PaddingBytes = int (length pad), df_FragIndex = fragIndex, df_FragCount = fragCount\<rparr>"
proof -
  obtain view where v: "parseFrameView spec frame = Inr view" "fv_msg view = msg"
      "fv_streamID view = op_StreamID op" "fv_fragIndex view = fragIndex" "fv_fragCount view = fragCount"
      "fv_padLen view = int (length pad)" "fv_metadata view = op_view op" "fv_payload view = op_Payload op"
    using parse_encoded_frame [OF assms(1-5,7)] assms(8-11) by auto
  obtain meta where "encodeOperationMetadata op = Inr meta" using encodeFrame_Inr [OF assms(1)] by metis
  then have "materialize (op_view op) = op\<lparr>op_Semantic := '''', op_StreamID := 0, op_Payload := []\<rparr>"
    using materialize_view assms(6) by blast
  then show ?thesis
    using v messageBySemantic_semantic [OF assms(2)] by (simp add: decodeFrameWithSpec_def)
qed

section \<open>Reassembly\<close>

fun chunks :: "int list \<Rightarrow> bytes \<Rightarrow> bytes list" where
  "chunks [] rest = []"
| "chunks (len # sizes) rest = take (nat len) rest # chunks sizes (drop (nat len) rest)"

text \<open>The parts of one operation, in order, from fragment \<open>idx\<close> on.\<close>

fun good_parts :: "operation \<Rightarrow> string \<Rightarrow> int \<Rightarrow> int \<Rightarrow> bytes list \<Rightarrow> decoded_frame list \<Rightarrow> bool" where
  "good_parts op symbol n idx [] [] = True"
| "good_parts op symbol n idx (c # cs) (p # ps) =
     (df_Operation p = op\<lparr>op_Payload := c\<rparr> \<and> df_WireSymbol p = symbol \<and> df_FragIndex p = idx \<and>
      df_FragCount p = n \<and> good_parts op symbol n (idx + 1) cs ps)"
| "good_parts op symbol n idx cs ps = False"

lemma good_parts_length: "good_parts op symbol n idx cs ps \<Longrightarrow> length ps = length cs"
  by (induction op symbol n idx cs ps rule: good_parts.induct) auto

lemma metadata_payload [simp]: "encodeOperationMetadata (op\<lparr>op_Payload := c\<rparr>) = encodeOperationMetadata op"
  by (simp add: encodeOperationMetadata_def writeOperationMetadata_def metadata_fixed_def
      operationMetadataStrings_def)

lemma metadata_identity [simp]:
  "encodeOperationMetadata (op\<lparr>op_Semantic := s, op_StreamID := w, op_Payload := c\<rparr>) = encodeOperationMetadata op"
  by (simp add: encodeOperationMetadata_def writeOperationMetadata_def metadata_fixed_def
      operationMetadataStrings_def)

lemma length_chunks [simp]: "length (chunks sizes rest) = length sizes"
  by (induction sizes rest rule: chunks.induct) auto

lemma chunks_le: "c \<in> set (chunks sizes rest) \<Longrightarrow> length c \<le> length rest"
  by (induction sizes rest rule: chunks.induct) auto

lemma concat_chunks:
  "\<forall>n \<in> set sizes. 0 \<le> n \<Longrightarrow> sum_list sizes = int (length rest) \<Longrightarrow> concat (chunks sizes rest) = rest"
proof (induction sizes rest rule: chunks.induct)
  case (1 rest)
  then show ?case by simp
next
  case (2 len sizes rest)
  have "0 \<le> sum_list sizes" using 2(2) by (intro sum_list_nonneg) simp
  then have "len \<le> int (length rest)" using 2(3) by simp
  then have "sum_list sizes = int (length (drop (nat len) rest))"
    using 2(2,3) by (simp add: of_nat_diff)
  then show ?case using 2 by simp
qed

lemma FragmentSizesFor_sum:
  "sum_list (FragmentSizesFor mode mb mf (int n)) = int n \<and> (\<forall>k \<in> set (FragmentSizesFor mode mb mf (int n)). 0 \<le> k)
   \<and> FragmentSizesFor mode mb mf (int n) \<noteq> []"
proof (cases "n = 0")
  case True
  then show ?thesis by (simp add: FragmentSizesFor_def)
next
  case False
  then have "0 < int n" by simp
  from fragment_loop_spec [OF fragment_chunk_pos this, of mode mb mf] show ?thesis
    using False by (force simp: FragmentSizesFor_def)
qed

lemma decode_fragments:
  assumes "messageBySemantic spec (op_Semantic op) = Some msg"
    and "messageByTag spec (cm_typeTag msg) = Some msg" and "spec_ok spec" and "counts_fit op"
    and "pad_MaxPaddingBytes (sp_padding spec) < 2 ^ 16" and "n < 2 ^ 16"
  shows "encode_fragments R spec op n idx rest e sizes = Inr frames \<Longrightarrow> 0 \<le> idx \<Longrightarrow>
    idx + int (length sizes) \<le> n \<Longrightarrow> int (length rest) \<le> sp_maxPayloadBytes spec \<Longrightarrow>
    \<exists>parts. decode_all spec frames = Inr parts \<and> good_parts op (cm_wireSymbol msg) n idx (chunks sizes rest) parts"
proof (induction sizes arbitrary: idx rest e frames)
  case Nil
  then show ?case by simp
next
  case (Cons len sizes)
  obtain pad e' frame frames' where g: "Generate R e = (Inr pad, e')"
      "encodeFrameWithSpec spec (op\<lparr>op_Payload := take (nat len) rest\<rparr>) pad idx n = Inr frame"
      "encode_fragments R spec op n (idx + 1) (drop (nat len) rest) e' sizes = Inr frames'"
      "frames = frame # frames'"
    using Cons.prems(1) by (auto simp: bind_result_eq_Inr split: prod.splits sum.splits)
  have "length pad < 2 ^ 16" using encodeFrame_pad [OF g(2)] assms(5) by auto
  then have d: "decodeFrameWithSpec spec frame = Inr \<lparr>df_Operation = op\<lparr>op_Payload := take (nat len) rest\<rparr>,
      df_WireSymbol = cm_wireSymbol msg, df_FrameBytes = int (length frame),
      df_PayloadBytes = int (length (take (nat len) rest)),
      df_PaddingBytes = int (length pad), df_FragIndex = idx, df_FragCount = n\<rparr>"
    using decode_encoded_frame [OF g(2)] assms Cons.prems(2-4) by (simp add: counts_fit_def)
  have "int (length (drop (nat len) rest)) \<le> int (length rest)" by simp
  then have "int (length (drop (nat len) rest)) \<le> sp_maxPayloadBytes spec" using Cons.prems(4) by linarith
  then obtain parts where "decode_all spec frames' = Inr parts"
      "good_parts op (cm_wireSymbol msg) n (idx + 1) (chunks sizes (drop (nat len) rest)) parts"
    using Cons.IH [OF g(3)] Cons.prems(2,3) by auto
  then show ?case using d g(4) by simp
qed

lemma collect_good_parts:
  assumes "encodeOperationMetadata op = Inr meta"
    and "df_Operation expected = op\<lparr>op_Payload := c0\<rparr>" and "df_WireSymbol expected = symbol"
    and "df_FragCount expected = int n"
  shows "good_parts op symbol (int n) (int (length pre)) cs parts \<Longrightarrow> length pre + length cs = n \<Longrightarrow>
    collect_parts expected meta n (length pre)
      (replicate (length pre) True @ replicate (length cs) False)
      (pre @ replicate (length cs) []) parts = Inr (replicate n True, pre @ cs)"
proof (induction cs arbitrary: pre parts)
  case Nil
  then show ?case by (cases parts) simp_all
next
  case (Cons c cs)
  obtain p ps where p: "parts = p # ps" using Cons.prems(1) by (cases parts) simp_all
  have step: "good_parts op symbol (int n) (int (length (pre @ [c]))) cs ps"
    using Cons.prems(1) p by (simp add: add.commute)
  have r: "replicate (length (pre @ [c])) True = replicate (length pre) True @ [True]"
    by (simp add: replicate_append_same)
  have "part_error expected meta n (length pre) (replicate (length pre) True @ replicate (length (c # cs)) False) p = None"
    using Cons.prems assms p by (simp add: part_error_def nth_append)
  then have "collect_parts expected meta n (length pre)
      (replicate (length pre) True @ replicate (length (c # cs)) False)
      (pre @ replicate (length (c # cs)) []) parts =
    collect_parts expected meta n (length (pre @ [c]))
      (replicate (length (pre @ [c])) True @ replicate (length cs) False)
      ((pre @ [c]) @ replicate (length cs) []) ps"
    unfolding r using Cons.prems(1) p by (simp add: list_update_append)
  also have "\<dots> = Inr (replicate n True, (pre @ [c]) @ cs)"
    by (rule Cons.IH [OF step]) (use Cons.prems(2) in simp)
  finally show ?case by simp
qed

lemma decodeFrames_good_parts:
  assumes "decode_all spec frames = Inr parts" and "encodeOperationMetadata op = Inr meta"
    and "good_parts op symbol (int (length cs)) 0 cs parts" and "cs \<noteq> []"
  shows "decodeFramesWithSpec spec frames = (Inr (op\<lparr>op_Payload := concat cs\<rparr>), parts)"
proof -
  obtain c0 cs' where cs: "cs = c0 # cs'" using assms(4) by (cases cs) simp_all
  obtain e ps where p: "parts = e # ps" using assms(3) cs by (cases parts) simp_all
  have e: "df_Operation e = op\<lparr>op_Payload := c0\<rparr>" "df_WireSymbol e = symbol" "df_FragCount e = int (length cs)"
    using assms(3) cs p by simp_all
  have len: "length parts = length cs" using good_parts_length [OF assms(3)] .
  have "collect_parts e meta (length cs) 0 (replicate (length cs) False) (replicate (length cs) []) parts =
      Inr (replicate (length cs) True, cs)"
    using collect_good_parts [OF assms(2) e(1,2), of "length cs" "[]" cs parts] e(3) assms(3) by simp
  then show ?thesis
    using assms(1,2) e(1,3) len by (simp add: decodeFramesWithSpec_def p list_all_iff)
qed

section \<open>When encoding succeeds\<close>

definition length_mode_ok :: "codec_spec \<Rightarrow> bool" where
  "length_mode_ok spec \<longleftrightarrow> sp_lengthMode spec \<in> {''varint_prefix'', ''fixed_4_prefix'', ''length_suffix_lab''} \<or>
     sp_lengthMode spec = ''fixed_2_prefix'' \<and> sp_maxFrameBytes spec \<le> 65535"

lemma lengthWrapperSize_ok:
  assumes "length_mode_ok spec" and "0 \<le> n" and "n \<le> sp_maxFrameBytes spec" and "sp_maxFrameBytes spec < 2 ^ 32"
  shows "\<exists>k. lengthWrapperSize spec n = Inr k \<and> k \<le> 5"
proof -
  have "nat n < 128 ^ 5" using assms by simp
  then have "uvarint_size (nat n) \<le> 5" by (intro uvarint_size_le) simp_all
  then show ?thesis using assms by (auto simp: length_mode_ok_def lengthWrapperSize_def Let_def)
qed

lemma encodeFrame_succeeds:
  assumes "messageBySemantic spec (op_Semantic op) = Some msg" and "encodeOperationMetadata op = Inr meta"
    and "writeHeaderFields spec msg (op_StreamID op) 0 1 0 = Inr header"
    and "pad = [] \<or> pad_MinPaddingBytes (sp_padding spec) \<le> int (length pad) \<and>
      int (length pad) \<le> pad_MaxPaddingBytes (sp_padding spec)"
    and "length_mode_ok spec" and "sp_maxFrameBytes spec < 2 ^ 32"
    and "int (length header + length meta + length (op_Payload op) + length pad + 4) \<le> sp_maxFrameBytes spec"
  shows "\<exists>frame. encodeFrameWithSpec spec op pad i n = Inr frame"
proof -
  let ?content = "int (length meta) + int (length (op_Payload op)) + int (length pad)"
  let ?k = "if sp_checksumMode spec = ''crc32'' then 4 else 0 :: int"
  have loop: "content_loop (sp_maxFrameBytes spec) 0
      [int (length meta), int (length (op_Payload op)), int (length pad)] = Inr ?content"
    using assms(7) by simp
  have h: "headerFieldsSize spec msg (op_StreamID op) (sp_maxFrameBytes spec - ?content - ?k) = Inr (int (length header))"
    using assms(7) by (intro headerFieldsSize_ok [OF assms(3)]) auto
  let ?body = "int (length header) + ?content + ?k"
  have "0 \<le> ?body" by simp
  moreover have "?body \<le> sp_maxFrameBytes spec" using assms(7) by (simp split: if_splits)
  ultimately obtain wrapper where w: "lengthWrapperSize spec ?body = Inr wrapper" "wrapper \<le> 5"
    using lengthWrapperSize_ok [OF assms(5) _ _ assms(6)] by blast
  have "\<not> wrapper > 2 ^ 63 - 1 - ?body" using w(2) assms(6,7) by auto
  then have "frameSizeWithSpec spec msg (op_StreamID op) ?content = Inr (?body, wrapper)"
    using h w(1) assms(7) by (simp add: frameSizeWithSpec_def Let_def)
  then show ?thesis
    using assms(1,2,4) loop by (auto simp: encodeFrameWithSpec_def)
qed

lemma encode_fragments_succeed:
  assumes "rng_ok R" and "draw_bounds (sp_padding spec)"
    and "messageBySemantic spec (op_Semantic op) = Some msg" and "encodeOperationMetadata op = Inr meta"
    and "writeHeaderFields spec msg (op_StreamID op) 0 1 0 = Inr header"
    and "length_mode_ok spec" and "sp_maxFrameBytes spec < 2 ^ 32"
    and "int (length header + length meta + 4) + pad_MaxPaddingBytes (sp_padding spec) + c \<le> sp_maxFrameBytes spec"
  shows "\<forall>k \<in> set sizes. k \<le> c \<Longrightarrow> 0 \<le> c \<Longrightarrow> en_policy e = sp_padding spec \<Longrightarrow>
    \<exists>frames. encode_fragments R spec op n idx rest e sizes = Inr frames"
proof (induction sizes arbitrary: idx rest e)
  case Nil
  then show ?case by simp
next
  case (Cons len sizes)
  obtain pad e' where g: "Generate R e = (Inr pad, e')" "pad = [] \<or>
      pad_MinPaddingBytes (sp_padding spec) \<le> int (length pad) \<and> int (length pad) \<le> pad_MaxPaddingBytes (sp_padding spec)"
    using Generate_bounds [OF assms(1), of e] assms(2) Cons.prems(3) by (cases "Generate R e") auto
  have e': "en_policy e' = sp_padding spec" using Generate_policy [of R e] g(1) Cons.prems(3) by simp
  let ?op = "op\<lparr>op_Payload := take (nat len) rest\<rparr>"
  have "int (length (take (nat len) rest)) \<le> c" using Cons.prems(1,2) by auto
  moreover have "int (length pad) \<le> pad_MaxPaddingBytes (sp_padding spec)"
    using g(2) assms(2) by (auto simp: draw_bounds_def)
  ultimately have "\<exists>frame. encodeFrameWithSpec spec ?op pad idx n = Inr frame"
    by (intro encodeFrame_succeeds [where msg = msg and meta = meta and header = header])
      (use assms g(2) in simp_all)
  moreover have "\<exists>frames. encode_fragments R spec op n (idx + 1) (drop (nat len) rest) e' sizes = Inr frames"
    using Cons.IH [of e'] Cons.prems(1,2) e' by simp
  ultimately show ?case using g(1) by auto
qed

lemma FragmentSizesFor_le:
  assumes "512 < mf" and "mf < 2 ^ 32" and "k \<in> set (FragmentSizesFor mode mb mf (int n))"
  shows "k \<le> mf - 512"
proof (cases "n = 0")
  case True
  then show ?thesis using assms by (simp add: FragmentSizesFor_def)
next
  case False
  have "int64 (mf - 512) = mf - 512" using assms by (intro int64_id) (simp add: in_int64_def)
  then have "fragment_chunk mode mb mf \<le> mf - 512"
    using fragment_chunk_le [of mode mb mf] assms(1) by auto
  moreover have "k \<le> fragment_chunk mode mb mf"
    using fragment_loop_spec [OF fragment_chunk_pos, of "int n" mode mb mf] False assms(3)
    by (auto simp: FragmentSizesFor_def)
  ultimately show ?thesis by simp
qed

section \<open>Reading frames from a byte stream\<close>

text \<open>A reader is the bytes still to come; \<open>io.ReadFull\<close> consumes what there is when it fails.\<close>

definition readFull :: "nat \<Rightarrow> bytes \<Rightarrow> (framing_error + bytes) \<times> bytes" where
  "readFull n r = (if n \<le> length r then (Inr (take n r), drop n r)
     else (Inl (if r = [] then FrEOF else FrUnexpectedEOF), []))"

definition readPrefixBodyWithSpec :: "codec_spec \<Rightarrow> bytes \<Rightarrow> int \<Rightarrow> bytes \<Rightarrow> (framing_error + bytes) \<times> bytes" where
  "readPrefixBodyWithSpec spec prefix len r =
     (if len \<le> 0 \<or> len > sp_maxFrameBytes spec then (Inl (FrErr ''invalid frame length''), r)
      else case readFull (nat len) r of
        (Inl err, r) \<Rightarrow> (Inl err, r)
      | (Inr body, r) \<Rightarrow> (Inr (prefix @ body), r))"

fun read_varint_frame :: "codec_spec \<Rightarrow> bytes \<Rightarrow> bytes \<Rightarrow> (framing_error + bytes) \<times> bytes" where
  "read_varint_frame spec prefix [] = (Inl FrEOF, [])"
| "read_varint_frame spec prefix (b # r) =
     (let prefix = prefix @ [b]; (len, n) = uvarint prefix in
      if n > 0 then readPrefixBodyWithSpec spec prefix (int64 (int len)) r
      else if length prefix > 10 then (Inl (FrErr ''invalid varint length''), r)
      else read_varint_frame spec prefix r)"

fun read_suffix_frame :: "codec_spec \<Rightarrow> bytes \<Rightarrow> bytes \<Rightarrow> (framing_error + bytes) \<times> bytes" where
  "read_suffix_frame spec buf [] =
     (if int (length buf) < sp_maxFrameBytes spec then (Inl FrEOF, [])
      else (Inl (FrErr ''suffix frame exceeds limit''), []))"
| "read_suffix_frame spec buf (b # r) =
     (if int (length buf) < sp_maxFrameBytes spec then
        (let buf = buf @ [b] in
         if 4 \<le> length buf \<and> get_be (drop (length buf - 4) buf) = length buf - 4 \<and>
            is_ok (decodeFrameWithSpec spec buf)
         then (Inr buf, r) else read_suffix_frame spec buf r)
      else (Inl (FrErr ''suffix frame exceeds limit''), b # r))"

definition readFrameWithSpec :: "codec_spec \<Rightarrow> bytes \<Rightarrow> (framing_error + bytes) \<times> bytes" where
  "readFrameWithSpec spec r =
     (let mode = sp_lengthMode spec in
      if mode = ''varint_prefix'' then read_varint_frame spec [] r
      else if mode = ''fixed_2_prefix'' then
        (case readFull 2 r of (Inl err, r) \<Rightarrow> (Inl err, r)
         | (Inr prefix, r) \<Rightarrow> readPrefixBodyWithSpec spec prefix (int (get_be prefix)) r)
      else if mode = ''fixed_4_prefix'' then
        (case readFull 4 r of (Inl err, r) \<Rightarrow> (Inl err, r)
         | (Inr prefix, r) \<Rightarrow> readPrefixBodyWithSpec spec prefix (int (get_be prefix)) r)
      else if mode = ''length_suffix_lab'' then read_suffix_frame spec [] r
      else (Inl (FrErr ''unsupported length mode''), r))"

fun read_frames :: "codec_spec \<Rightarrow> nat \<Rightarrow> bytes \<Rightarrow> (framing_error + bytes list) \<times> bytes" where
  "read_frames spec 0 r = (Inr [], r)"
| "read_frames spec (Suc k) r =
     (case readFrameWithSpec spec r of
        (Inl err, r) \<Rightarrow> (Inl err, r)
      | (Inr frame, r) \<Rightarrow>
          (case read_frames spec k r of
             (Inl err, r) \<Rightarrow> (Inl err, r)
           | (Inr frames, r) \<Rightarrow> (Inr (frame # frames), r)))"

text \<open>
  \<open>ReadOperation\<close> with the specification of its profile: the first frame announces how many
  more to read.
\<close>

definition read_operation :: "codec_spec \<Rightarrow> bytes \<Rightarrow> ((framing_error + operation) \<times> decoded_frame list) \<times> bytes" where
  "read_operation spec r =
     (case readFrameWithSpec spec r of
        (Inl err, r) \<Rightarrow> ((Inl err, []), r)
      | (Inr first, r) \<Rightarrow>
          (case decodeFrameWithSpec spec first of
             Inl err \<Rightarrow> ((Inl err, []), r)
           | Inr part \<Rightarrow>
               (case read_frames spec (nat (df_FragCount part - 1)) r of
                  (Inl err, r) \<Rightarrow> ((Inl err, []), r)
                | (Inr frames, r) \<Rightarrow> (decodeFramesWithSpec spec (first # frames), r))))"

definition ReadOperation ::
  "ir_env \<Rightarrow> profile option \<Rightarrow> bytes \<Rightarrow> ((framing_error + operation) \<times> decoded_frame list) \<times> bytes" where
  "ReadOperation env p r =
     (case codecSpecFromProfile env p of Inl err \<Rightarrow> ((Inl err, []), r) | Inr spec \<Rightarrow> read_operation spec r)"

definition DecodeFrame :: "ir_env \<Rightarrow> profile option \<Rightarrow> bytes \<Rightarrow> framing_error + decoded_frame" where
  "DecodeFrame env p frame = bind_result (codecSpecFromProfile env p) (\<lambda>spec. decodeFrameWithSpec spec frame)"

definition DecodeFrames :: "ir_env \<Rightarrow> profile option \<Rightarrow> bytes list \<Rightarrow> (framing_error + operation) \<times> decoded_frame list" where
  "DecodeFrames env p frames =
     (case codecSpecFromProfile env p of Inl err \<Rightarrow> (Inl err, []) | Inr spec \<Rightarrow> decodeFramesWithSpec spec frames)"

definition prefix_mode :: "codec_spec \<Rightarrow> bool" where
  "prefix_mode spec \<longleftrightarrow> sp_lengthMode spec \<in> {''varint_prefix'', ''fixed_2_prefix'', ''fixed_4_prefix''}"

lemma readPrefixBody_exact:
  "0 < length body \<Longrightarrow> int (length body) \<le> sp_maxFrameBytes spec \<Longrightarrow>
   readPrefixBodyWithSpec spec prefix (int (length body)) (body @ rest) = (Inr (prefix @ body), rest)"
  by (simp add: readPrefixBodyWithSpec_def readFull_def)

text \<open>A varint cut short is recognised as incomplete.\<close>

lemma uvarint_from_short:
  "k < uvarint_size v \<Longrightarrow> i + k \<le> 10 \<Longrightarrow> uvarint_from i x (take k (put_uvarint v)) = (0, 0)"
proof (induction v arbitrary: i x k rule: put_uvarint.induct)
  case (1 v)
  show ?case
  proof (cases "v < 128 \<or> k = 0")
    case True
    then show ?thesis using "1.prems" by (auto simp: uvarint_size.simps [of v])
  next
    case False
    then obtain m where k: "k = Suc m" by (cases k) auto
    have "unat (word_of_nat (v mod 128 + 128) :: byte) = v mod 128 + 128"
      by (simp add: unat_byte_of_nat del: of_nat_add)
    moreover have "m < uvarint_size (v div 128)"
      using "1.prems"(1) False k by (simp add: uvarint_size.simps [of v])
    ultimately show ?thesis
      using "1.IH" [of m "Suc i"] "1.prems"(2) False k
      by (simp add: put_uvarint.simps [of v] del: of_nat_add)
  qed
qed

lemma read_varint_written:
  assumes "length body < 2 ^ 32" and "0 < length body" and "int (length body) \<le> sp_maxFrameBytes spec"
  shows "k < uvarint_size (length body) \<Longrightarrow>
    read_varint_frame spec (take k (put_uvarint (length body))) (drop k (put_uvarint (length body)) @ body @ rest) =
      (Inr (put_uvarint (length body) @ body), rest)"
proof (induction "uvarint_size (length body) - k" arbitrary: k)
  case 0
  then show ?case by simp
next
  case (Suc m)
  let ?p = "put_uvarint (length body)"
  have len: "length ?p = uvarint_size (length body)" by (rule length_put_uvarint)
  have five: "uvarint_size (length body) \<le> 5" using assms(1) by (intro uvarint_size_le) simp_all
  have d: "drop k ?p = ?p ! k # drop (Suc k) ?p" using Suc.prems len by (simp add: Cons_nth_drop_Suc)
  have t: "take k ?p @ [?p ! k] = take (Suc k) ?p" using Suc.prems len by (simp add: take_Suc_conv_app_nth)
  have step: "read_varint_frame spec (take k ?p) (drop k ?p @ body @ rest) =
      (let (len, n) = uvarint (take (Suc k) ?p) in
       if n > 0 then readPrefixBodyWithSpec spec (take (Suc k) ?p) (int64 (int len)) (drop (Suc k) ?p @ body @ rest)
       else if length (take (Suc k) ?p) > 10 then (Inl (FrErr ''invalid varint length''), drop (Suc k) ?p @ body @ rest)
       else read_varint_frame spec (take (Suc k) ?p) (drop (Suc k) ?p @ body @ rest))"
    unfolding d append_Cons read_varint_frame.simps t Let_def ..
  show ?case
  proof (cases "Suc k < uvarint_size (length body)")
    case True
    have "uvarint (take (Suc k) ?p) = (0, 0)"
      unfolding uvarint_def using True five by (intro uvarint_from_short) simp_all
    then have "read_varint_frame spec (take k ?p) (drop k ?p @ body @ rest) =
        read_varint_frame spec (take (Suc k) ?p) (drop (Suc k) ?p @ body @ rest)"
      unfolding step using True five len by simp
    also have "\<dots> = (Inr (?p @ body), rest)"
      using True Suc.hyps(2) by (intro Suc.hyps(1)) simp_all
    finally show ?thesis .
  next
    case False
    then have k: "Suc k = uvarint_size (length body)" using Suc.prems by simp
    have "uvarint ?p = (length body, int (uvarint_size (length body)))"
      using uvarint_put [of "length body" "[]"] assms(1) by simp
    moreover have "int64 (int (length body)) = int (length body)"
      using assms(1) by (intro int64_id) (simp add: in_int64_def)
    ultimately show ?thesis
      unfolding step k using len uvarint_size_pos [of "length body"] readPrefixBody_exact [OF assms(2,3)]
      by simp
  qed
qed

lemma read_wrapped_frame:
  assumes "wrapLengthWithSpec spec body = Inr frame" and "prefix_mode spec"
    and "length body < 2 ^ 32" and "0 < length body" and "int (length body) \<le> sp_maxFrameBytes spec"
  shows "readFrameWithSpec spec (frame @ rest) = (Inr frame, rest)"
proof -
  consider (varint) "sp_lengthMode spec = ''varint_prefix''" "frame = put_uvarint (length body) @ body"
    | (two) "sp_lengthMode spec = ''fixed_2_prefix''" "length body \<le> 65535" "frame = put_be 2 (length body) @ body"
    | (four) "sp_lengthMode spec = ''fixed_4_prefix''" "frame = put_be 4 (length body) @ body"
    using assms(1,2) by (auto simp: wrapLengthWithSpec_def prefix_mode_def Let_def split: if_splits)
  then show ?thesis
  proof cases
    case varint
    then show ?thesis
      using read_varint_written [OF assms(3-5), of 0 rest] uvarint_size_pos [of "length body"]
      by (simp add: readFrameWithSpec_def)
  next
    case two
    then have "get_be (put_be 2 (length body)) = length body" by (intro get_put_be_small) simp
    then show ?thesis
      using two readPrefixBody_exact [OF assms(4,5)] by (simp add: readFrameWithSpec_def readFull_def)
  next
    case four
    have "get_be (put_be 4 (length body)) = length body" using assms(3) by (intro get_put_be_small) simp
    then show ?thesis
      using four readPrefixBody_exact [OF assms(4,5)] by (simp add: readFrameWithSpec_def readFull_def)
  qed
qed

lemma read_encoded_frame:
  assumes "encodeFrameWithSpec spec op pad i n = Inr frame" and "prefix_mode spec" and "spec_ok spec"
  shows "readFrameWithSpec spec (frame @ rest) = (Inr frame, rest)"
proof -
  obtain msg meta header body where f: "encodeOperationMetadata op = Inr meta"
      "writeHeaderFields spec msg (op_StreamID op) i n (int (length pad)) = Inr header"
      "body = frame_body spec msg (op_StreamID op) meta (op_Payload op) pad i n"
      "int (length body) \<le> sp_maxFrameBytes spec" "wrapLengthWithSpec spec body = Inr frame"
    using encodeFrame_Inr [OF assms(1)] by metis
  have "meta = writeOperationMetadata op"
    using f(1) by (auto simp: encodeOperationMetadata_def guard_result_eq_Inr)
  then have "0 < length meta" by (simp add: writeOperationMetadata_def)
  then have "0 < length body"
    unfolding f(3) by (simp add: frame_body_def Let_def length_frame_content [OF f(2)] appendCRCWithSpec_def)
  moreover have "length body < 2 ^ 32" using f(4) assms(3) by (simp add: spec_ok_def)
  ultimately show ?thesis using read_wrapped_frame [OF f(5) assms(2)] f(4) by blast
qed

lemma read_encoded_fragments:
  assumes "prefix_mode spec" and "spec_ok spec"
  shows "encode_fragments R spec op n idx payload e sizes = Inr frames \<Longrightarrow>
    length frames = length sizes \<and> read_frames spec (length frames) (concat frames @ rest) = (Inr frames, rest)"
proof (induction sizes arbitrary: idx payload e frames)
  case Nil
  then show ?case by simp
next
  case (Cons len sizes)
  obtain pad e' frame frames' where g:
      "encodeFrameWithSpec spec (op\<lparr>op_Payload := take (nat len) payload\<rparr>) pad idx n = Inr frame"
      "encode_fragments R spec op n (idx + 1) (drop (nat len) payload) e' sizes = Inr frames'"
      "frames = frame # frames'"
    using Cons.prems(1) by (auto simp: bind_result_eq_Inr split: prod.splits sum.splits)
  show ?case
    using Cons.IH [OF g(2)] g(3) read_encoded_frame [OF g(1) assms, of "concat frames' @ rest"]
    by (auto simp del: read_frames.simps(1))
qed

lemma read_operation_encoded:
  assumes "prefix_mode spec" and "spec_ok spec"
    and "encode_fragments R spec op n idx payload e sizes = Inr frames"
    and "decode_all spec frames = Inr (part # parts)" and "df_FragCount part = int (length frames)"
  shows "read_operation spec (concat frames @ rest) = (decodeFramesWithSpec spec frames, rest)"
proof -
  note r = read_encoded_fragments [OF assms(1-3)]
  obtain frame frames' where f: "frames = frame # frames'" using assms(4) by (cases frames) simp_all
  have d: "decodeFrameWithSpec spec frame = Inr part"
    using assms(4) f by (auto simp: bind_result_eq_Inr)
  obtain r1 where first: "readFrameWithSpec spec (concat frames @ rest) = (Inr frame, r1)"
      "read_frames spec (length frames') r1 = (Inr frames', rest)"
    using r [of rest] by (simp add: f split: prod.splits sum.splits)
  have "nat (df_FragCount part - 1) = length frames'" using assms(5) f by simp
  then show ?thesis using first d by (simp add: read_operation_def f)
qed

section \<open>What an accepted fragment sequence looks like\<close>

lemma collect_parts_Inr:
  "collect_parts expected meta n position seen payloads parts = Inr (seen', payloads') \<Longrightarrow>
   (\<forall>k < length parts. df_FragIndex (parts ! k) = int (position + k) \<and>
      df_FragCount (parts ! k) = df_FragCount expected \<and>
      op_Semantic (df_Operation (parts ! k)) = op_Semantic (df_Operation expected) \<and>
      op_StreamID (df_Operation (parts ! k)) = op_StreamID (df_Operation expected) \<and>
      df_WireSymbol (parts ! k) = df_WireSymbol expected \<and>
      encodeOperationMetadata (df_Operation (parts ! k)) = Inr meta)"
proof (induction parts arbitrary: position seen payloads)
  case Nil
  then show ?case by simp
next
  case (Cons part parts)
  let ?ok = "\<lambda>position p. df_FragIndex p = int position \<and> df_FragCount p = df_FragCount expected \<and>
      op_Semantic (df_Operation p) = op_Semantic (df_Operation expected) \<and>
      op_StreamID (df_Operation p) = op_StreamID (df_Operation expected) \<and>
      df_WireSymbol p = df_WireSymbol expected \<and> encodeOperationMetadata (df_Operation p) = Inr meta"
  have none: "part_error expected meta n position seen part = None"
    using Cons.prems by (cases "part_error expected meta n position seen part") simp_all
  then have 0: "?ok position part" by (auto simp: part_error_def split: if_splits)
  have s: "\<forall>k < length parts. ?ok (Suc position + k) (parts ! k)"
    using Cons.IH [of "Suc position"] Cons.prems none by simp
  show ?case
  proof (intro allI impI)
    fix k
    assume "k < length (part # parts)"
    then show "?ok (position + k) ((part # parts) ! k)" using 0 s by (cases k) simp_all
  qed
qed

lemma collect_payloads:
  "collect_parts expected meta n (length pre) seen (pre @ replicate (length parts) []) parts = Inr (seen', payloads') \<Longrightarrow>
   payloads' = pre @ map (\<lambda>p. op_Payload (df_Operation p)) parts"
proof (induction parts arbitrary: pre seen)
  case Nil
  then show ?case by simp
next
  case (Cons part parts)
  have none: "part_error expected meta n (length pre) seen part = None"
    using Cons.prems by (cases "part_error expected meta n (length pre) seen part") simp_all
  then have "df_FragIndex part = int (length pre)" by (auto simp: part_error_def split: if_splits)
  then have "collect_parts expected meta n (length (pre @ [op_Payload (df_Operation part)])) (seen[length pre := True])
      ((pre @ [op_Payload (df_Operation part)]) @ replicate (length parts) []) parts = Inr (seen', payloads')"
    using Cons.prems none by (simp add: list_update_append)
  from Cons.IH [OF this] show ?case by simp
qed

lemma decode_all_length: "decode_all spec frames = Inr parts \<Longrightarrow> length parts = length frames"
  by (induction frames arbitrary: parts) (auto simp: bind_result_eq_Inr)

end
