(* ===== verification/Framing_Properties.thy ===== *)
theory Framing_Properties
  imports Framing_Codec
begin

text \<open>
  The properties of the frame codec, over the lemmas of \<open>Framing_Codec\<close>: total round trips of
  operations through frames and through a byte stream, the shape of accepted fragment
  sequences, detection of damage, and two limits of the legacy format.
\<close>

section \<open>A concrete specification\<close>

definition sample_spec :: codec_spec where
  "sample_spec = \<lparr>sp_messages = [\<lparr>cm_semantic = ''data'', cm_wireSymbol = ''d'', cm_typeTag = [7]\<rparr>,
       \<lparr>cm_semantic = ''padding'', cm_wireSymbol = ''p'', cm_typeTag = [9, 9]\<rparr>],
     sp_lengthMode = ''fixed_2_prefix'', sp_checksumMode = ''none'',
     sp_headerOrder = [''stream'', ''length'', ''flags'', ''type''],
     sp_fragmentationMode = ''fixed_size_chunks'', sp_paddingPlacement = ''prefix'',
     sp_padding = \<lparr>pad_Mode = ''bounded'', pad_MinPaddingBytes = 2, pad_MaxPaddingBytes = 4,
       pad_Probability = Finite 0\<rparr>,
     sp_maxFrameBytes = 514, sp_maxPayloadBytes = 100, sp_maxBatchBytes = 64,
     sp_streamEncodingMode = ''profile_xor32'', sp_profileXORStreamMask = 5, sp_tableStreamMask = 0,
     sp_crc32PrefixState = 0\<rparr>"

definition sample_op :: operation where
  "sample_op = zero_operation\<lparr>op_Semantic := ''data'', op_StreamID := 3, op_Sequence := 4,
     op_CreditBytes := 10, op_Reason := ''r'', op_EndStream := True, op_Payload := [1, 2, 3]\<rparr>"

definition sample_msg :: codec_message where
  "sample_msg = \<lparr>cm_semantic = ''data'', cm_wireSymbol = ''d'', cm_typeTag = [7]\<rparr>"

section \<open>Properties\<close>

text \<open>
  The room a specification leaves for an operation: header, metadata, checksum and the largest
  padding fit the 512 bytes that the fragment sizer keeps back.
\<close>

definition fits_reserve :: "codec_spec \<Rightarrow> codec_message \<Rightarrow> operation \<Rightarrow> bool" where
  "fits_reserve spec msg op \<longleftrightarrow>
     (case (writeHeaderFields spec msg (op_StreamID op) 0 1 0, encodeOperationMetadata op) of
        (Inr header, Inr meta) \<Rightarrow>
          int (length header + length meta + 4) + pad_MaxPaddingBytes (sp_padding spec) \<le> 512
      | _ \<Rightarrow> False)"

lemma sample_facts:
  "messageBySemantic sample_spec (op_Semantic sample_op) = Some sample_msg"
  "messageByTag sample_spec (cm_typeTag sample_msg) = Some sample_msg"
  "spec_ok sample_spec" "length_mode_ok sample_spec" "prefix_mode sample_spec" "counts_fit sample_op"
  "draw_bounds (sp_padding sample_spec)" "512 < sp_maxFrameBytes sample_spec"
  "int (length (op_Payload sample_op)) \<le> sp_maxPayloadBytes sample_spec"
  by (simp_all add: sample_spec_def sample_op_def sample_msg_def zero_operation_def messageBySemantic_def
      messageByTag_def spec_ok_def length_mode_ok_def prefix_mode_def counts_fit_def draw_bounds_def)

lemma sample_reserve: "fits_reserve sample_spec sample_msg sample_op"
  by code_simp

lemma sample_sizes: "FragmentSizesFor (sp_fragmentationMode sample_spec) (sp_maxBatchBytes sample_spec)
    (sp_maxFrameBytes sample_spec) (int (length (op_Payload sample_op))) = [2, 1]"
  by code_simp

lemmas sample_all = sample_facts sample_reserve sample_sizes counter_rng_ok

lemma operation_codec:
  assumes "rng_ok R" and "draw_bounds (sp_padding spec)"
    and "messageBySemantic spec (op_Semantic op) = Some msg"
    and "messageByTag spec (cm_typeTag msg) = Some msg" and "spec_ok spec" and "length_mode_ok spec"
    and "counts_fit op" and "fits_reserve spec msg op" and "512 < sp_maxFrameBytes spec"
    and "int (length (op_Payload op)) \<le> sp_maxPayloadBytes spec"
    and "length (FragmentSizesFor (sp_fragmentationMode spec) (sp_maxBatchBytes spec)
        (sp_maxFrameBytes spec) (int (length (op_Payload op)))) < 2 ^ 16"
  shows "\<exists>frames parts. encodeOperationWithSpec R spec op seed = Inr frames \<and>
    decodeFramesWithSpec spec frames = (Inr op, parts) \<and>
    (prefix_mode spec \<longrightarrow> (\<forall>rest. read_operation spec (concat frames @ rest) = ((Inr op, parts), rest)))"
proof -
  let ?sizes = "FragmentSizesFor (sp_fragmentationMode spec) (sp_maxBatchBytes spec)
        (sp_maxFrameBytes spec) (int (length (op_Payload op)))"
  let ?e = "New R (sp_padding spec) seed"
  obtain header meta where h: "writeHeaderFields spec msg (op_StreamID op) 0 1 0 = Inr header"
      "encodeOperationMetadata op = Inr meta"
      "int (length header + length meta + 4) + pad_MaxPaddingBytes (sp_padding spec) \<le> 512"
    using assms(8) by (auto simp: fits_reserve_def split: sum.splits)
  have mf: "sp_maxFrameBytes spec < 2 ^ 32" using assms(5) by (simp add: spec_ok_def)
  have "\<exists>frames. encode_fragments R spec op (int (length ?sizes)) 0 (op_Payload op) ?e ?sizes = Inr frames"
    by (rule encode_fragments_succeed [OF assms(1-3) h(2,1) assms(6) mf, where c = "sp_maxFrameBytes spec - 512"])
      (use h(3) assms(9) FragmentSizesFor_le [OF assms(9) mf] in \<open>auto simp: New_def\<close>)
  then obtain frames where f: "encode_fragments R spec op (int (length ?sizes)) 0 (op_Payload op) ?e ?sizes = Inr frames"
    by blast
  have "pad_MaxPaddingBytes (sp_padding spec) < 2 ^ 16" using h(3) by simp
  then obtain parts where p: "decode_all spec frames = Inr parts"
      "good_parts op (cm_wireSymbol msg) (int (length ?sizes)) 0 (chunks ?sizes (op_Payload op)) parts"
    using decode_fragments [OF assms(3,4,5,7), of "int (length ?sizes)" R 0 "op_Payload op" ?e ?sizes frames]
      f assms(10,11) by auto
  have s: "sum_list ?sizes = int (length (op_Payload op))" "\<forall>k \<in> set ?sizes. 0 \<le> k" "?sizes \<noteq> []"
    using FragmentSizesFor_sum [of "sp_fragmentationMode spec" "sp_maxBatchBytes spec" "sp_maxFrameBytes spec"
        "length (op_Payload op)"] by simp_all
  have ne: "chunks ?sizes (op_Payload op) \<noteq> []" using s(3) length_chunks [of ?sizes "op_Payload op"] by (metis length_0_conv)
  have "decodeFramesWithSpec spec frames = (Inr (op\<lparr>op_Payload := concat (chunks ?sizes (op_Payload op))\<rparr>), parts)"
    using decodeFrames_good_parts [OF p(1) h(2), of "cm_wireSymbol msg" "chunks ?sizes (op_Payload op)"] p(2) ne by simp
  then have d: "decodeFramesWithSpec spec frames = (Inr op, parts)"
    by (simp add: concat_chunks [OF s(2,1)])
  have "read_operation spec (concat frames @ rest) = ((Inr op, parts), rest)" if pm: "prefix_mode spec" for rest
  proof -
    obtain q qs where q: "parts = q # qs"
      using p(2) ne by (cases "chunks ?sizes (op_Payload op)"; cases parts) simp_all
    have "length frames = length ?sizes" using read_encoded_fragments [OF pm assms(5) f] by simp
    moreover have "df_FragCount q = int (length ?sizes)"
      using p(2) q ne by (cases "chunks ?sizes (op_Payload op)") simp_all
    ultimately show ?thesis
      using read_operation_encoded [OF pm assms(5) f, of q qs rest] p(1) q d by simp
  qed
  moreover have "encodeOperationWithSpec R spec op seed = Inr frames"
    using f assms(3,10) by (simp add: encodeOperationWithSpec_def Let_def)
  ultimately show ?thesis using d by blast
qed

text \<open>
  C21: Operations survive the frame codec, under these conditions. Of the specification: the
  length mode is a supported one, with a frame limit of at most 65535 for the two-byte prefix; the
  header has a type, a stream and a flags field; the frame limit is above 512 and below \<open>2 ^ 32\<close>;
  and the padding bounds are ordered and leave the width of the draw representable. Of the
  message: its semantic is known and looking up its type tag finds it. Of the operation: its counts
  fit 32 bits; its payload respects the payload limit; header, metadata, checksum and the largest
  padding fit the 512 bytes the fragment sizer reserves; and it needs fewer than \<open>2 ^ 16\<close>
  fragments. Then for every seed and every random source the encoder returns frames, and decoding
  them returns exactly the operation that was encoded.
\<close>

theorem operation_round_trip:
  assumes "rng_ok R" and "draw_bounds (sp_padding spec)"
    and "messageBySemantic spec (op_Semantic op) = Some msg"
    and "messageByTag spec (cm_typeTag msg) = Some msg" and "spec_ok spec" and "length_mode_ok spec"
    and "counts_fit op" and "fits_reserve spec msg op" and "512 < sp_maxFrameBytes spec"
    and "int (length (op_Payload op)) \<le> sp_maxPayloadBytes spec"
    and "length (FragmentSizesFor (sp_fragmentationMode spec) (sp_maxBatchBytes spec)
        (sp_maxFrameBytes spec) (int (length (op_Payload op)))) < 2 ^ 16"
  shows "\<exists>frames. encodeOperationWithSpec R spec op seed = Inr frames \<and>
    fst (decodeFramesWithSpec spec frames) = Inr op"
  using operation_codec [OF assms, of seed] by auto

theorem operation_round_trip_witness:
  "\<exists>frames. encodeOperationWithSpec counter_rng sample_spec sample_op 7 = Inr frames \<and>
    fst (decodeFramesWithSpec sample_spec frames) = Inr sample_op"
  using operation_round_trip [of counter_rng sample_spec sample_op sample_msg 7] sample_all by simp

text \<open>
  C22: Operations survive a byte stream. Under the conditions of the frame round trip, and in a
  length mode that puts the length before the body, reading an operation from the concatenated
  frames followed by any bytes returns the operation and leaves exactly those bytes unread.
\<close>

theorem operation_stream_round_trip:
  assumes "rng_ok R" and "draw_bounds (sp_padding spec)"
    and "messageBySemantic spec (op_Semantic op) = Some msg"
    and "messageByTag spec (cm_typeTag msg) = Some msg" and "spec_ok spec" and "length_mode_ok spec"
    and "counts_fit op" and "fits_reserve spec msg op" and "512 < sp_maxFrameBytes spec"
    and "int (length (op_Payload op)) \<le> sp_maxPayloadBytes spec"
    and "length (FragmentSizesFor (sp_fragmentationMode spec) (sp_maxBatchBytes spec)
        (sp_maxFrameBytes spec) (int (length (op_Payload op)))) < 2 ^ 16"
    and "prefix_mode spec"
  shows "\<exists>frames parts. encodeOperationWithSpec R spec op seed = Inr frames \<and>
    read_operation spec (concat frames @ rest) = ((Inr op, parts), rest)"
  using operation_codec [OF assms(1-11), of seed] assms(12) by blast

theorem operation_stream_round_trip_witness:
  "\<exists>frames parts. encodeOperationWithSpec counter_rng sample_spec sample_op 7 = Inr frames \<and>
    read_operation sample_spec (concat frames @ [1, 2]) = ((Inr sample_op, parts), [1, 2])"
  using operation_stream_round_trip [of counter_rng sample_spec sample_op sample_msg 7 "[1, 2]"] sample_all by simp

text \<open>
  C23: An operation is only ever assembled from a complete, ordered and uniform fragment
  sequence. When decoding accepts, every frame decoded, the number of frames is the announced
  count, frame \<open>k\<close> is fragment \<open>k\<close>, all frames agree on count, semantic, stream, message and
  metadata, and the payload is the concatenation of theirs. So a lost, duplicated, swapped or
  foreign fragment never yields an operation.
\<close>

theorem fragment_sequence_accepted:
  assumes "decodeFramesWithSpec spec frames = (Inr op, parts)"
  shows "decode_all spec frames = Inr parts \<and> frames \<noteq> [] \<and> length parts = length frames \<and>
    (\<forall>k < length frames. df_FragIndex (parts ! k) = int k \<and> df_FragCount (parts ! k) = int (length frames) \<and>
       op_Semantic (df_Operation (parts ! k)) = op_Semantic op \<and>
       op_StreamID (df_Operation (parts ! k)) = op_StreamID op \<and>
       df_WireSymbol (parts ! k) = df_WireSymbol (parts ! 0) \<and>
       encodeOperationMetadata (df_Operation (parts ! k)) = encodeOperationMetadata op) \<and>
    op_Payload op = concat (map (\<lambda>p. op_Payload (df_Operation p)) parts)"
proof -
  obtain e ps where d: "decode_all spec frames = Inr (e # ps)"
    using assms by (auto simp: decodeFramesWithSpec_def split: sum.splits list.splits)
  let ?n = "length (e # ps)"
  obtain meta seen payloads where c: "df_FragCount e = int ?n" "encodeOperationMetadata (df_Operation e) = Inr meta"
      "collect_parts e meta ?n 0 (replicate ?n False) (replicate ?n []) (e # ps) = Inr (seen, payloads)"
      "op = (df_Operation e)\<lparr>op_Payload := concat payloads\<rparr>" "parts = e # ps"
    using assms d
    by (auto simp: decodeFramesWithSpec_def Let_def split: if_splits sum.splits prod.splits)
  have len: "length frames = ?n" using decode_all_length [OF d] by simp
  have "payloads = map (\<lambda>p. op_Payload (df_Operation p)) (e # ps)"
    using collect_payloads [of e meta ?n "[]" "replicate ?n False" "e # ps" seen payloads] c(3) by simp
  moreover have "frames \<noteq> []" using len by auto
  ultimately show ?thesis
    using collect_parts_Inr [OF c(3)] c(1,2,4,5) d len by simp
qed

theorem fragment_sequence_accepted_witness:
  "\<exists>frames parts. decodeFramesWithSpec sample_spec frames = (Inr sample_op, parts) \<and>
    length parts = length frames \<and> df_FragIndex (parts ! 0) = 0"
proof -
  obtain frames parts where "decodeFramesWithSpec sample_spec frames = (Inr sample_op, parts)"
    using operation_codec [of counter_rng sample_spec sample_op sample_msg 7] sample_all by auto
  then show ?thesis using fragment_sequence_accepted [of sample_spec frames sample_op parts] by fastforce
qed

text \<open>
  C24: The checksum catches every burst of up to four bytes in what it covers. If a frame parses
  under a specification with a checksum, then a frame of the same length whose body differs from
  it only within four consecutive bytes that lie entirely before the four bytes of the checksum
  is rejected. Damage that reaches into the checksum bytes is not covered.
\<close>

theorem damaged_frame_rejected:
  assumes "sp_checksumMode spec = ''crc32''" and "parseFrameView spec frame = Inr view"
    and "unwrapLengthWithSpec spec frame = Inr (a @ w @ b)"
    and "unwrapLengthWithSpec spec frame' = Inr (a @ w' @ b)"
    and "length frame' = length frame" and "length w' = length w" and "length w \<le> 4" and "4 \<le> length b"
    and "w' \<noteq> w"
  shows "parseFrameView spec frame' = Inl (FrErr ''checksum mismatch'')"
proof -
  obtain c s where b: "b = c @ s" "length s = 4"
    using split_at [of "length b - 4" b] assms(8) by (metis diff_diff_cancel diff_le_self length_append add_diff_cancel_left')
  have crc: "unat (crcForSpec spec (a @ w @ c)) = get_be s"
    using assms(1-3) b(2) by (auto simp: parseFrameView_def check_crc_def b(1) Let_def bind_result_eq_Inr split: if_splits)
  have "crcForSpec spec (a @ w' @ c) \<noteq> crcForSpec spec (a @ w @ c)"
    using crc_detects_burst [of w' w "sp_crc32PrefixState spec" a c] assms(6,7,9) by (auto simp: crcForSpec_def)
  then have "unat (crcForSpec spec (a @ w' @ c)) \<noteq> get_be s" using crc by (metis unsigned_word_eqI)
  then have bad: "check_crc spec (a @ w' @ b) = Inl (FrErr ''checksum mismatch'')"
    using assms(1) b(2) by (simp add: check_crc_def b(1) Let_def)
  have "\<not> (frame = [] \<or> int (length frame) > int64 (sp_maxFrameBytes spec + 10))"
    using assms(2) by (auto simp: parseFrameView_def split: if_splits)
  then have "\<not> (frame' = [] \<or> int (length frame') > int64 (sp_maxFrameBytes spec + 10))"
    using assms(5) by (metis length_0_conv)
  then show ?thesis by (simp only: parseFrameView_def assms(4) bad bind_result_simps if_False)
qed

theorem damaged_frame_rejected_witness:
  "\<exists>frame frame'. is_ok (parseFrameView (sample_spec\<lparr>sp_checksumMode := ''crc32''\<rparr>) frame) \<and> length frame' = length frame \<and>
    parseFrameView (sample_spec\<lparr>sp_checksumMode := ''crc32''\<rparr>) frame' = Inl (FrErr ''checksum mismatch'')"
proof -
  let ?spec = "sample_spec\<lparr>sp_checksumMode := ''crc32''\<rparr>"
  have facts: "messageBySemantic ?spec (op_Semantic sample_op) = Some sample_msg"
      "messageByTag ?spec (cm_typeTag sample_msg) = Some sample_msg" "spec_ok ?spec"
      "length_mode_ok ?spec" "sp_maxFrameBytes ?spec < 2 ^ 32" "sp_lengthMode ?spec = ''fixed_2_prefix''"
      "int (length (op_Payload sample_op)) \<le> sp_maxPayloadBytes ?spec"
    by (simp_all add: sample_spec_def sample_op_def sample_msg_def messageBySemantic_def messageByTag_def
        spec_ok_def length_mode_ok_def)
  obtain header meta where h: "writeHeaderFields ?spec sample_msg (op_StreamID sample_op) 0 1 0 = Inr header"
      "encodeOperationMetadata sample_op = Inr meta" "int (length header + length meta + 4) \<le> 508"
  proof -
    have "writeHeaderFields ?spec m w i n k = writeHeaderFields sample_spec m w i n k" for m w i n k
      by (simp add: writeHeaderFields_def writeStreamID_def Let_def cong: if_cong)
    moreover obtain header meta where "writeHeaderFields sample_spec sample_msg (op_StreamID sample_op) 0 1 0 = Inr header"
        "encodeOperationMetadata sample_op = Inr meta"
        "int (length header + length meta + 4) + pad_MaxPaddingBytes (sp_padding sample_spec) \<le> 512"
      using sample_reserve by (auto simp: fits_reserve_def split: sum.splits)
    ultimately show ?thesis using that by (simp add: sample_spec_def)
  qed
  have "int (length header + length meta + length (op_Payload sample_op) + length ([] :: bytes) + 4) \<le> sp_maxFrameBytes ?spec"
    using h(3) by (simp add: sample_spec_def sample_op_def) 
  then obtain frame where "encodeFrameWithSpec ?spec sample_op [] 0 1 = Inr frame"
    using encodeFrame_succeeds [OF facts(1) h(2,1) _ facts(4,5)] by blast
  note f = this
  obtain view where v: "parseFrameView ?spec frame = Inr view"
    using parse_encoded_frame [OF f facts(1,2,3) _ facts(7)] by auto
  obtain body where b: "wrapLengthWithSpec ?spec body = Inr frame" "int (length body) \<le> sp_maxFrameBytes ?spec"
      "length body > 4"
  proof -
    obtain msg meta' header' body where e: "encodeOperationMetadata sample_op = Inr meta'"
        "writeHeaderFields ?spec msg (op_StreamID sample_op) 0 1 (int (length ([] :: bytes))) = Inr header'"
        "body = frame_body ?spec msg (op_StreamID sample_op) meta' (op_Payload sample_op) [] 0 1"
        "int (length body) \<le> sp_maxFrameBytes ?spec" "wrapLengthWithSpec ?spec body = Inr frame"
      using encodeFrame_Inr [OF f] by metis
    have "op_Payload sample_op \<noteq> []" by (simp add: sample_op_def)
    then have "length body > 4"
      unfolding e(3) by (simp add: frame_body_def Let_def length_frame_content [OF e(2)] appendCRCWithSpec_def)
    then show ?thesis using that e(4,5) by blast
  qed
  obtain x xs where body: "body = [x] @ xs" using b(3) by (cases body) simp_all
  let ?frame = "put_be 2 (length body) @ [x + 1] @ xs"
  have small: "length body \<le> 65535" using b(2) by (simp add: sample_spec_def)
  then have "frame = put_be 2 (length body) @ body" using b(1) facts(6) by (simp add: wrapLengthWithSpec_def)
  then have len: "length ?frame = length frame" by (simp add: body)
  have "wrapLengthWithSpec ?spec ([x + 1] @ xs) = Inr ?frame"
    using small facts(6) by (simp add: wrapLengthWithSpec_def body)
  then have "unwrapLengthWithSpec ?spec ?frame = Inr ([] @ [x + 1] @ xs)"
    using unwrap_wrapLength [of "[x + 1] @ xs" ?spec ?frame] small by (simp add: body)
  moreover have "unwrapLengthWithSpec ?spec frame = Inr ([] @ [x] @ xs)"
    using unwrap_wrapLength [OF _ b(1)] small by (simp add: body)
  ultimately have "parseFrameView ?spec ?frame = Inl (FrErr ''checksum mismatch'')"
    using damaged_frame_rejected [OF _ v, of "[]" "[x]" xs ?frame "[x + 1]"] len b(3) by (simp add: body)
  then show ?thesis using v len by (metis is_ok_simps(1))
qed

text \<open>
  C25: Fragment counts are truncated to sixteen bits without a check: a frame that the encoder
  produces for a fragment count that is a positive multiple of \<open>2 ^ 16\<close> is refused by the
  decoder of the same specification.
\<close>

theorem fragment_count_truncated:
  assumes "encodeFrameWithSpec spec op pad fragIndex fragCount = Inr frame"
    and "messageBySemantic spec (op_Semantic op) = Some msg"
    and "messageByTag spec (cm_typeTag msg) = Some msg"
    and "spec_ok spec" and "length pad < 2 ^ 16"
    and "int (length (op_Payload op)) \<le> sp_maxPayloadBytes spec" and "2 ^ 16 dvd fragCount"
  shows "decodeFrameWithSpec spec frame = Inl (FrErr ''invalid fragment count'')"
  using parse_encoded_frame [OF assms(1-6)] assms(7) by (simp add: decodeFrameWithSpec_def mod_eq_0_iff_dvd)

theorem fragment_count_truncated_witness:
  "\<exists>frame. encodeFrameWithSpec sample_spec sample_op [] 0 65536 = Inr frame \<and>
    decodeFrameWithSpec sample_spec frame = Inl (FrErr ''invalid fragment count'')"
proof -
  have "is_ok (encodeFrameWithSpec sample_spec sample_op [] 0 65536)" by code_simp
  then obtain frame where "encodeFrameWithSpec sample_spec sample_op [] 0 65536 = Inr frame"
    by (auto simp: is_ok_iff)
  then show ?thesis
    using fragment_count_truncated [of sample_spec sample_op "[]" 0 65536 frame sample_msg] sample_facts by simp
qed

section \<open>Suffix frames\<close>

lemma read_suffix_frame_limit:
  "read_suffix_frame spec buf r = (Inr frame, r') \<Longrightarrow> int (length frame) \<le> sp_maxFrameBytes spec"
  by (induction spec buf r rule: read_suffix_frame.induct) (auto simp: Let_def split: if_splits)

text \<open>
  C26: With the length as a suffix the stream reader counts the four length bytes against the
  frame limit, the encoder and the decoder do not: a frame whose body is within four bytes of
  the limit is encoded and decodes, but the reader never returns it.
\<close>

theorem suffix_reader_misses_full_frames:
  assumes "encodeFrameWithSpec spec op pad fragIndex fragCount = Inr frame"
    and "messageBySemantic spec (op_Semantic op) = Some msg"
    and "messageByTag spec (cm_typeTag msg) = Some msg"
    and "spec_ok spec" and "length pad < 2 ^ 16"
    and "int (length (op_Payload op)) \<le> sp_maxPayloadBytes spec"
    and "0 < fragCount" and "fragCount < 2 ^ 16"
    and "sp_lengthMode spec = ''length_suffix_lab''" and "sp_maxFrameBytes spec < int (length frame)"
  shows "is_ok (decodeFrameWithSpec spec frame) \<and>
    (\<forall>rest. fst (readFrameWithSpec spec (frame @ rest)) \<noteq> Inr frame)"
proof
  show "is_ok (decodeFrameWithSpec spec frame)"
    using parse_encoded_frame [OF assms(1-6)] assms(7,8) by (auto simp: decodeFrameWithSpec_def)
  have "readFrameWithSpec spec r = read_suffix_frame spec [] r" for r
    using assms(9) by (simp add: readFrameWithSpec_def)
  then show "\<forall>rest. fst (readFrameWithSpec spec (frame @ rest)) \<noteq> Inr frame"
    using read_suffix_frame_limit [of spec "[]"] assms(10) by (metis linorder_not_le surjective_pairing)
qed

theorem suffix_reader_misses_full_frames_witness:
  "\<exists>frame. encodeFrameWithSpec (sample_spec\<lparr>sp_lengthMode := ''length_suffix_lab'', sp_maxFrameBytes := 69\<rparr>) sample_op [] 0 1 = Inr frame \<and>
    fst (readFrameWithSpec (sample_spec\<lparr>sp_lengthMode := ''length_suffix_lab'', sp_maxFrameBytes := 69\<rparr>) frame) \<noteq> Inr frame"
proof -
  let ?spec = "sample_spec\<lparr>sp_lengthMode := ''length_suffix_lab'', sp_maxFrameBytes := 69\<rparr>"
  have "case encodeFrameWithSpec ?spec sample_op [] 0 1 of Inl _ \<Rightarrow> False | Inr frame \<Rightarrow> 69 < int (length frame)"
    by code_simp
  then obtain frame where f: "encodeFrameWithSpec ?spec sample_op [] 0 1 = Inr frame" "69 < int (length frame)"
    by (auto split: sum.splits)
  have "messageBySemantic ?spec (op_Semantic sample_op) = Some sample_msg"
      "messageByTag ?spec (cm_typeTag sample_msg) = Some sample_msg" "spec_ok ?spec"
      "int (length (op_Payload sample_op)) \<le> sp_maxPayloadBytes ?spec"
    by (simp_all add: sample_spec_def sample_op_def sample_msg_def messageBySemantic_def messageByTag_def spec_ok_def)
  then have "\<forall>rest. fst (readFrameWithSpec ?spec (frame @ rest)) \<noteq> Inr frame"
    using suffix_reader_misses_full_frames [of ?spec sample_op "[]" 0 1 frame sample_msg] f by auto
  from spec [OF this, of "[]"] show ?thesis using f(1) by auto
qed

end
