(* ===== verification/Security_Base.thy ===== *)
theory Security_Base
  imports Prelude
begin

text \<open>
  The errors of \<open>internal/crypto/security\<close> and their classification: a strict sentinel is
  itself and belongs to the broad categories it was declared with (\<open>errors.Is\<close>). The
  algorithm suite of \<open>context.go\<close> and the length-prefixed writers that the key schedule and
  the transcript share are here as well.
\<close>

datatype sec_error = ErrInvalidConfig | ErrInvalidSuite | ErrInvalidTranscript | ErrReplay
  | ErrDowngrade | ErrCompatibility | ErrNonceOverflow | ErrEnvelopeRejected
  | ErrCapabilityMismatch | ErrTranscriptMismatch | ErrSecretLeakCandidate
  | ErrPolicyInvalid | ErrNonceExhausted | ErrNonceMismatch | ErrAuthenticationFailed
  | ErrReplayDuplicate | ErrReplayStale | ErrReplayOutOfOrder | ErrReplayTooFarFuture
  | ErrReplayExhausted | ErrAEADInvalid | ErrEnvelopeContextInvalid | ErrEnvelopeModeRejected

fun sentinel_classes :: "sec_error \<Rightarrow> sec_error list" where
  "sentinel_classes ErrPolicyInvalid = [ErrInvalidConfig]"
| "sentinel_classes ErrNonceExhausted = [ErrNonceOverflow]"
| "sentinel_classes ErrReplayDuplicate = [ErrReplay]"
| "sentinel_classes ErrReplayStale = [ErrReplay]"
| "sentinel_classes ErrReplayOutOfOrder = [ErrReplay]"
| "sentinel_classes ErrReplayTooFarFuture = [ErrReplay]"
| "sentinel_classes ErrReplayExhausted = [ErrReplay]"
| "sentinel_classes ErrAEADInvalid = [ErrInvalidConfig]"
| "sentinel_classes ErrEnvelopeContextInvalid = [ErrInvalidConfig]"
| "sentinel_classes ErrEnvelopeModeRejected = [ErrEnvelopeRejected]"
| "sentinel_classes e = []"

definition error_is :: "sec_error \<Rightarrow> sec_error \<Rightarrow> bool" where
  "error_is e target \<longleftrightarrow> target = e \<or> target \<in> set (sentinel_classes e)"

section \<open>Suites\<close>

record suite =
  suite_KDF :: string
  suite_AEAD :: string
  suite_MAC :: string
  suite_Transcript :: string

definition DefaultSuite :: suite where
  "DefaultSuite =
    \<lparr> suite_KDF = ''kdf_hkdf_sha256'', suite_AEAD = ''aead_aes_256_gcm'',
      suite_MAC = ''mac_hmac_sha256'', suite_Transcript = ''transcript_sha256_v1'' \<rparr>"

definition SuiteSupported :: "suite \<Rightarrow> bool" where
  "SuiteSupported s \<longleftrightarrow> s = DefaultSuite"

section \<open>Length-prefixed byte strings\<close>

definition writeU32 :: "u32 \<Rightarrow> bytes" where
  "writeU32 v = put_be 4 (unat v)"

definition writeLP :: "bytes \<Rightarrow> bytes" where
  "writeLP v = writeU32 (word_of_nat (length v)) @ v"

lemma length_writeU32 [simp]: "length (writeU32 v) = 4"
  by (simp add: writeU32_def)

lemma length_writeLP [simp]: "length (writeLP v) = 4 + length v"
  by (simp add: writeLP_def)

lemma put_be_unat_inj:
  fixes v w :: "'a::len word"
  assumes "put_be n (unat v) = put_be n (unat w)" "LENGTH('a) = 8 * n"
  shows "v = w"
proof -
  have "(256 :: nat) ^ n = 2 ^ LENGTH('a)"
    using assms(2) by (simp add: power_mult)
  then have "unat v < 256 ^ n" "unat w < 256 ^ n"
    by (simp_all only: unsigned_less)
  then show ?thesis
    using put_be_inj [OF assms(1)] by (simp add: unsigned_word_eqI)
qed

lemma writeU32_inj [simp]: "writeU32 v = writeU32 w \<longleftrightarrow> v = w"
  by (auto simp: writeU32_def dest: put_be_unat_inj)

text \<open>A length-prefixed string can be told from what follows it.\<close>

lemma writeLP_append_inj:
  assumes "length v < 2 ^ 32" "length w < 2 ^ 32"
  shows "writeLP v @ a = writeLP w @ b \<longleftrightarrow> v = w \<and> a = b"
proof
  assume eq: "writeLP v @ a = writeLP w @ b"
  then have "writeU32 (word_of_nat (length v)) = writeU32 (word_of_nat (length w))
      \<and> v @ a = w @ b"
    by (simp add: writeLP_def)
  then have "(word_of_nat (length v) :: u32) = word_of_nat (length w)" "v @ a = w @ b"
    by simp_all
  moreover from this(1) have "unat (word_of_nat (length v) :: u32) = unat (word_of_nat (length w) :: u32)"
    by simp
  then have "length v = length w"
    using assms by (simp add: unsigned_of_nat take_bit_nat_eq_self)
  ultimately show "v = w \<and> a = b"
    by simp
qed simp

lemma writeLP_inj: "length v < 2 ^ 32 \<Longrightarrow> length w < 2 ^ 32 \<Longrightarrow> writeLP v = writeLP w \<longleftrightarrow> v = w"
  using writeLP_append_inj [of v w "[]" "[]"] by simp

text \<open>A list of length-prefixed strings determines the strings.\<close>

definition lp_concat :: "bytes list \<Rightarrow> bytes" where
  "lp_concat parts = concat (map writeLP parts)"

lemma lp_concat_simps [simp]: "lp_concat [] = []" "lp_concat (v # vs) = writeLP v @ lp_concat vs"
  by (simp_all add: lp_concat_def)

lemma lp_concat_append: "lp_concat (vs @ ws) = lp_concat vs @ lp_concat ws"
  by (simp add: lp_concat_def)

lemma writeLP_not_Nil [simp]: "writeLP v \<noteq> []"
  using length_writeLP [of v] by force

lemma lp_concat_inj:
  assumes "\<forall>v \<in> set vs. length v < 2 ^ 32" "\<forall>w \<in> set ws. length w < 2 ^ 32"
  shows "lp_concat vs = lp_concat ws \<longleftrightarrow> vs = ws"
  using assms
proof (induction vs arbitrary: ws)
  case Nil
  then show ?case by (cases ws) auto
next
  case (Cons v vs)
  then show ?case
    by (cases ws) (auto simp: writeLP_append_inj)
qed

lemma lp_concat_append_inj:
  assumes "\<forall>v \<in> set vs. length v < 2 ^ 32" "\<forall>w \<in> set ws. length w < 2 ^ 32"
    and "length vs = length ws"
  shows "lp_concat vs @ a = lp_concat ws @ b \<longleftrightarrow> vs = ws \<and> a = b"
  using assms(3,1,2)
  by (induction vs ws rule: list_induct2) (auto simp: writeLP_append_inj)

lemma string_bytes_inj [simp]: "string_bytes a = string_bytes b \<longleftrightarrow> a = b"
  by (metis bytes_string_bytes)

lemma map_string_bytes_inj [simp]: "map string_bytes a = map string_bytes b \<longleftrightarrow> a = b"
  by (simp add: inj_map_eq_map inj_def)

section \<open>Secret byte strings\<close>

definition allZeroKeyBytes :: "bytes \<Rightarrow> bool" where
  "allZeroKeyBytes v \<longleftrightarrow> foldl (OR) 0 v = 0"

definition wipeKeyBytes :: "bytes \<Rightarrow> bytes" where
  "wipeKeyBytes v = map (\<lambda>_. 0) v"

lemma word_or_eq_0: "a OR b = 0 \<longleftrightarrow> a = 0 \<and> b = (0 :: byte)"
  by (auto simp: bit_eq_iff bit_or_iff)

lemma foldl_or_eq_0: "foldl (OR) (a :: byte) v = 0 \<longleftrightarrow> a = 0 \<and> (\<forall>b \<in> set v. b = 0)"
  by (induction v arbitrary: a) (auto simp: word_or_eq_0)

lemma allZeroKeyBytes_iff: "allZeroKeyBytes v \<longleftrightarrow> (\<forall>b \<in> set v. b = 0)"
  by (simp add: allZeroKeyBytes_def foldl_or_eq_0)

lemma wipeKeyBytes_zero: "wipeKeyBytes v = replicate (length v) 0"
  by (simp add: wipeKeyBytes_def map_replicate_const)

end
