(* ===== verification/Key_Schedule.thy ===== *)
theory Key_Schedule
  imports Security_Base
begin

text \<open>
  The key schedule of \<open>internal/crypto/security/keyschedule.go\<close>: the expansion of the
  application secret into the six secrets of an epoch, the ratchet to the next epoch, the
  validation of a schedule and of the separation of two epochs, and the legacy derivation.
  SHA-256 and HKDF come from the Go library and are the parameter \<open>kdf_env\<close>; a failing
  HKDF call is \<open>None\<close>. A schedule on an error path is wiped and zero in the source, so
  the model returns only the error there; the wiping of the caller's secret is modelled as the
  second result of \<open>DeriveKeyScheduleV1\<close>.
\<close>

section \<open>Data\<close>

record kdf_env =
  env_sha256 :: "bytes \<Rightarrow> bytes"
  env_extract :: "bytes \<Rightarrow> bytes \<Rightarrow> bytes option"
  env_expand :: "bytes \<Rightarrow> bytes \<Rightarrow> int \<Rightarrow> bytes option"

text \<open>
  \<open>KDFError\<close> carries the reason and the wrapped sentinel; \<open>ForeignError\<close> stands for
  an error of an expand function that is not a \<open>KDFError\<close>.
\<close>

datatype kdf_error = KDFError sec_error string | ForeignError

definition is_kdf_invalid :: "kdf_error \<Rightarrow> bool" where
  "is_kdf_invalid e = (case e of KDFError _ _ \<Rightarrow> True | ForeignError \<Rightarrow> False)"

record key_schedule_input =
  ksi_ApplicationSecret :: bytes
  ksi_TranscriptHash :: bytes
  ksi_Suite :: suite

record key_schedule =
  ks_Suite :: suite
  ks_Epoch :: u64
  ks_ClientWriteKey :: bytes
  ks_ServerWriteKey :: bytes
  ks_ClientNonceBase :: bytes
  ks_ServerNonceBase :: bytes
  ks_ExporterSecret :: bytes
  ks_rekeySecret :: bytes
  ks_transcriptHash :: bytes
  ks_boundEpoch :: u64
  ks_exactV1 :: bool

type_synonym expand_func = "bytes \<Rightarrow> string \<Rightarrow> bytes \<Rightarrow> u64 \<Rightarrow> int \<Rightarrow> kdf_error + bytes"

definition keyScheduleKeyBytes :: int where "keyScheduleKeyBytes = 32"
definition keyScheduleNonceBytes :: int where "keyScheduleNonceBytes = 12"

definition keyLabelC2SKey :: string where "keyLabelC2SKey = ''kurdistan/hkdf/v1/c2s-key''"
definition keyLabelS2CKey :: string where "keyLabelS2CKey = ''kurdistan/hkdf/v1/s2c-key''"
definition keyLabelC2SNonce :: string where "keyLabelC2SNonce = ''kurdistan/hkdf/v1/c2s-nonce''"
definition keyLabelS2CNonce :: string where "keyLabelS2CNonce = ''kurdistan/hkdf/v1/s2c-nonce''"
definition keyLabelExporter :: string where "keyLabelExporter = ''kurdistan/hkdf/v1/exporter''"
definition keyLabelRekey :: string where "keyLabelRekey = ''kurdistan/hkdf/v1/rekey''"
definition keyLabelRekeySalt :: string where
  "keyLabelRekeySalt = ''kurdistan/hkdf/v1/rekey-salt''"

lemmas key_labels = keyLabelC2SKey_def keyLabelS2CKey_def keyLabelC2SNonce_def
  keyLabelS2CNonce_def keyLabelExporter_def keyLabelRekey_def keyLabelRekeySalt_def

section \<open>Labels and inputs of HKDF\<close>

definition keyScheduleOutputLength :: "string \<Rightarrow> int option" where
  "keyScheduleOutputLength label =
    (if label \<in> {keyLabelC2SKey, keyLabelS2CKey, keyLabelExporter, keyLabelRekey}
     then Some keyScheduleKeyBytes
     else if label \<in> {keyLabelC2SNonce, keyLabelS2CNonce} then Some keyScheduleNonceBytes
     else None)"

definition keyScheduleU64 :: "u64 \<Rightarrow> bytes" where
  "keyScheduleU64 v = put_be 8 (unat v)"

definition writeKeyScheduleLP :: "bytes \<Rightarrow> bytes" where
  "writeKeyScheduleLP v = put_be 4 (unat (word_of_nat (length v) :: u32)) @ v"

definition keyScheduleHash :: "kdf_env \<Rightarrow> string \<Rightarrow> bytes list \<Rightarrow> bytes" where
  "keyScheduleHash env label parts =
    env_sha256 env (writeKeyScheduleLP (string_bytes label)
      @ concat (map writeKeyScheduleLP parts))"

definition keyScheduleInfo :: "string \<Rightarrow> bytes \<Rightarrow> u64 \<Rightarrow> bytes" where
  "keyScheduleInfo label transcript epoch =
    writeKeyScheduleLP (string_bytes label) @ transcript @ put_be 8 (unat epoch)"

definition validateKeyScheduleBytes :: "bytes \<Rightarrow> sec_error option" where
  "validateKeyScheduleBytes v =
    (if length v \<noteq> 32 \<or> allZeroKeyBytes v then Some ErrInvalidConfig else None)"

section \<open>Validation\<close>

fun output_errors :: "(string \<times> bytes \<times> int) list \<Rightarrow> kdf_error option" where
  "output_errors [] = None"
| "output_errors ((name, v, n) # rest) =
    (if int (length v) \<noteq> n \<or> allZeroKeyBytes v then Some (KDFError ErrInvalidConfig name)
     else output_errors rest)"

fun equal_pair :: "bytes list \<Rightarrow> bool" where
  "equal_pair [] = False"
| "equal_pair (v # rest) = (List.member rest v \<or> equal_pair rest)"

definition validateRatchetSourceV1 :: "key_schedule \<Rightarrow> kdf_error option" where
  "validateRatchetSourceV1 s =
    (if \<not> ks_exactV1 s then Some (KDFError ErrInvalidConfig ''schedule_version'')
     else if ks_Epoch s \<noteq> ks_boundEpoch s then Some (KDFError ErrInvalidConfig ''epoch_skip'')
     else if \<not> SuiteSupported (ks_Suite s) then Some (KDFError ErrInvalidSuite ''suite'')
     else if allZeroKeyBytes (ks_transcriptHash s)
       then Some (KDFError ErrInvalidTranscript ''transcript'')
     else or_else
       (output_errors
         [(''client_write_key'', ks_ClientWriteKey s, keyScheduleKeyBytes),
          (''server_write_key'', ks_ServerWriteKey s, keyScheduleKeyBytes),
          (''client_nonce_base'', ks_ClientNonceBase s, keyScheduleNonceBytes),
          (''server_nonce_base'', ks_ServerNonceBase s, keyScheduleNonceBytes),
          (''exporter_secret'', ks_ExporterSecret s, keyScheduleKeyBytes),
          (''rekey_secret'', ks_rekeySecret s, keyScheduleKeyBytes)])
       (if equal_pair [ks_ClientWriteKey s, ks_ServerWriteKey s, ks_ExporterSecret s,
            ks_rekeySecret s]
        then Some (KDFError ErrInvalidConfig ''key_domain'')
        else if ks_ClientNonceBase s = ks_ServerNonceBase s
          then Some (KDFError ErrInvalidConfig ''nonce_domain'')
        else None))"

definition validateCrossEpochSeparationV1 :: "key_schedule \<Rightarrow> key_schedule \<Rightarrow> kdf_error option" where
  "validateCrossEpochSeparationV1 current pending =
    (if list_ex (\<lambda>(a, b). a = b)
         [(ks_ClientWriteKey current, ks_ClientWriteKey pending),
          (ks_ServerWriteKey current, ks_ServerWriteKey pending),
          (ks_ClientNonceBase current, ks_ClientNonceBase pending),
          (ks_ServerNonceBase current, ks_ServerNonceBase pending),
          (ks_ExporterSecret current, ks_ExporterSecret pending),
          (ks_rekeySecret current, ks_rekeySecret pending)]
     then Some (KDFError ErrInvalidConfig ''epoch_domain'') else None)"

section \<open>Derivation and ratchet\<close>

definition expandKeyScheduleV1 :: "kdf_env \<Rightarrow> expand_func" where
  "expandKeyScheduleV1 env epochPRK label transcript epoch len =
    (case keyScheduleOutputLength label of
       None \<Rightarrow> Inl (KDFError ErrInvalidConfig ''label'')
     | Some want \<Rightarrow>
         if len \<noteq> want then Inl (KDFError ErrInvalidConfig ''output_length'')
         else if validateKeyScheduleBytes epochPRK \<noteq> None
           then Inl (KDFError ErrInvalidConfig ''epoch_prk'')
         else if allZeroKeyBytes transcript then Inl (KDFError ErrInvalidTranscript ''transcript'')
         else (case env_expand env epochPRK (keyScheduleInfo label transcript epoch) len of
             None \<Rightarrow> Inl (KDFError ErrInvalidConfig ''expand'')
           | Some v \<Rightarrow> Inr v))"

definition expand_output :: "expand_func \<Rightarrow> bytes \<Rightarrow> bytes \<Rightarrow> u64 \<Rightarrow> string \<Rightarrow> int \<Rightarrow> kdf_error + bytes" where
  "expand_output expand epochPRK transcript epoch label len =
    (case expand epochPRK label transcript epoch len of
       Inl e \<Rightarrow> Inl (if is_kdf_invalid e then e else KDFError ErrInvalidConfig ''expand'')
     | Inr v \<Rightarrow> Inr v)"

definition deriveEpochKeyScheduleWithExpand ::
    "suite \<Rightarrow> bytes \<Rightarrow> bytes \<Rightarrow> u64 \<Rightarrow> expand_func option \<Rightarrow> kdf_error + key_schedule" where
  "deriveEpochKeyScheduleWithExpand st epochPRK transcript epoch expandFn =
    (if \<not> SuiteSupported st then Inl (KDFError ErrInvalidSuite ''suite'')
     else if validateKeyScheduleBytes epochPRK \<noteq> None
       then Inl (KDFError ErrInvalidConfig ''epoch_prk'')
     else if allZeroKeyBytes transcript then Inl (KDFError ErrInvalidTranscript ''transcript'')
     else (case expandFn of
         None \<Rightarrow> Inl (KDFError ErrInvalidConfig ''expand_function'')
       | Some expand \<Rightarrow>
           (let out = expand_output expand epochPRK transcript epoch in
            bind_result (out keyLabelC2SKey keyScheduleKeyBytes) (\<lambda>ck.
            bind_result (out keyLabelS2CKey keyScheduleKeyBytes) (\<lambda>sk.
            bind_result (out keyLabelC2SNonce keyScheduleNonceBytes) (\<lambda>cn.
            bind_result (out keyLabelS2CNonce keyScheduleNonceBytes) (\<lambda>sn.
            bind_result (out keyLabelExporter keyScheduleKeyBytes) (\<lambda>ex.
            bind_result (out keyLabelRekey keyScheduleKeyBytes) (\<lambda>rk.
              let schedule = \<lparr> ks_Suite = st, ks_Epoch = epoch, ks_ClientWriteKey = ck,
                    ks_ServerWriteKey = sk, ks_ClientNonceBase = cn, ks_ServerNonceBase = sn,
                    ks_ExporterSecret = ex, ks_rekeySecret = rk, ks_transcriptHash = transcript,
                    ks_boundEpoch = epoch, ks_exactV1 = True \<rparr>
              in guard_result (validateRatchetSourceV1 schedule) (Inr schedule))))))))))"

definition deriveKeyScheduleV1WithExpand ::
    "key_schedule_input \<Rightarrow> expand_func option \<Rightarrow> kdf_error + key_schedule" where
  "deriveKeyScheduleV1WithExpand input expandFn =
    (if validateKeyScheduleBytes (ksi_ApplicationSecret input) \<noteq> None
       then Inl (KDFError ErrInvalidConfig ''application_secret'')
     else if validateKeyScheduleBytes (ksi_TranscriptHash input) \<noteq> None
       then Inl (KDFError ErrInvalidTranscript ''transcript'')
     else if \<not> SuiteSupported (ksi_Suite input) then Inl (KDFError ErrInvalidSuite ''suite'')
     else deriveEpochKeyScheduleWithExpand (ksi_Suite input) (ksi_ApplicationSecret input)
       (ksi_TranscriptHash input) 0 expandFn)"

text \<open>The schedule, and the caller's secret slice after the deferred wipe.\<close>

definition DeriveKeyScheduleV1 ::
    "kdf_env \<Rightarrow> key_schedule_input \<Rightarrow> (kdf_error + key_schedule) \<times> bytes" where
  "DeriveKeyScheduleV1 env input =
    (deriveKeyScheduleV1WithExpand input (Some (expandKeyScheduleV1 env)),
     wipeKeyBytes (ksi_ApplicationSecret input))"

definition ratchetKeyScheduleV1 ::
    "kdf_env \<Rightarrow> key_schedule \<Rightarrow> expand_func option \<Rightarrow> kdf_error + key_schedule" where
  "ratchetKeyScheduleV1 env current expandFn =
    guard_result (validateRatchetSourceV1 current)
     (if ks_Epoch current = - 1 then Inl (KDFError ErrInvalidConfig ''epoch_overflow'')
      else
        let next = ks_Epoch current + 1;
            nextSalt = keyScheduleHash env keyLabelRekeySalt
              [ks_transcriptHash current, keyScheduleU64 next]
        in (case env_extract env (ks_rekeySecret current) nextSalt of
              None \<Rightarrow> Inl (KDFError ErrInvalidConfig ''ratchet_extract'')
            | Some epochPRK \<Rightarrow>
                bind_result (deriveEpochKeyScheduleWithExpand (ks_Suite current) epochPRK
                  (ks_transcriptHash current) next expandFn) (\<lambda>pending.
                  guard_result (validateCrossEpochSeparationV1 current pending) (Inr pending))))"

definition RatchetKeyScheduleV1 :: "kdf_env \<Rightarrow> key_schedule \<Rightarrow> kdf_error + key_schedule" where
  "RatchetKeyScheduleV1 env current =
    ratchetKeyScheduleV1 env current (Some (expandKeyScheduleV1 env))"

text \<open>\<open>Destroy\<close> wipes the secrets and resets the schedule to its zero value.\<close>

definition zero_schedule :: key_schedule where
  "zero_schedule =
    \<lparr> ks_Suite = \<lparr> suite_KDF = [], suite_AEAD = [], suite_MAC = [], suite_Transcript = [] \<rparr>,
      ks_Epoch = 0, ks_ClientWriteKey = [], ks_ServerWriteKey = [], ks_ClientNonceBase = [],
      ks_ServerNonceBase = [], ks_ExporterSecret = [], ks_rekeySecret = [],
      ks_transcriptHash = replicate 32 0, ks_boundEpoch = 0, ks_exactV1 = False \<rparr>"

definition wipeKeySchedule :: "key_schedule \<Rightarrow> bytes list" where
  "wipeKeySchedule s = map wipeKeyBytes
    [ks_ClientWriteKey s, ks_ServerWriteKey s, ks_ClientNonceBase s, ks_ServerNonceBase s,
     ks_ExporterSecret s, ks_rekeySecret s]"

text \<open>The schedule after \<open>Destroy\<close> and the backing arrays it used to hold.\<close>

definition Destroy :: "key_schedule \<Rightarrow> key_schedule \<times> bytes list" where
  "Destroy s = (zero_schedule, wipeKeySchedule s)"

section \<open>Legacy derivation\<close>

definition legacyKeyScheduleSaltPrefix :: string where
  "legacyKeyScheduleSaltPrefix = ''kurdistan-key-schedule-v1:''"

definition legacyKeyScheduleInfoPrefix :: string where
  "legacyKeyScheduleInfoPrefix = ''kurdistan-hkdf-v1/''"

definition legacy_output :: "kdf_env \<Rightarrow> bytes \<Rightarrow> string \<Rightarrow> int \<Rightarrow> sec_error + bytes" where
  "legacy_output env prk label len =
    (case env_expand env prk (string_bytes (legacyKeyScheduleInfoPrefix @ label)) len of
       None \<Rightarrow> Inl ErrInvalidConfig | Some v \<Rightarrow> Inr v)"

definition DeriveKeySchedule :: "kdf_env \<Rightarrow> bytes \<Rightarrow> string \<Rightarrow> suite \<Rightarrow> sec_error + key_schedule" where
  "DeriveKeySchedule env inputSecret transcriptHash st =
    (if inputSecret = [] then Inl ErrInvalidConfig
     else if transcriptHash = [] then Inl ErrInvalidTranscript
     else if \<not> SuiteSupported st then Inl ErrInvalidSuite
     else (case env_extract env inputSecret
           (string_bytes (legacyKeyScheduleSaltPrefix @ transcriptHash)) of
         None \<Rightarrow> Inl ErrInvalidConfig
       | Some prk \<Rightarrow>
           (let out = legacy_output env prk in
            bind_result (out ''client_write'' keyScheduleKeyBytes) (\<lambda>ck.
            bind_result (out ''server_write'' keyScheduleKeyBytes) (\<lambda>sk.
            bind_result (out ''client_nonce_base'' keyScheduleNonceBytes) (\<lambda>cn.
            bind_result (out ''server_nonce_base'' keyScheduleNonceBytes) (\<lambda>sn.
            bind_result (out ''exporter_secret'' keyScheduleKeyBytes) (\<lambda>ex.
              Inr (zero_schedule \<lparr> ks_Suite := st, ks_ClientWriteKey := ck,
                ks_ServerWriteKey := sk, ks_ClientNonceBase := cn, ks_ServerNonceBase := sn,
                ks_ExporterSecret := ex \<rparr>)))))))))"

section \<open>Well-formed schedules\<close>

text \<open>What a schedule must satisfy to seal records: sizes, no zero secret, separated domains.\<close>

definition schedule_secrets :: "key_schedule \<Rightarrow> bytes list" where
  "schedule_secrets s = [ks_ClientWriteKey s, ks_ServerWriteKey s, ks_ClientNonceBase s,
    ks_ServerNonceBase s, ks_ExporterSecret s, ks_rekeySecret s]"

definition schedule_ok :: "key_schedule \<Rightarrow> bool" where
  "schedule_ok s \<longleftrightarrow>
    ks_exactV1 s \<and> ks_boundEpoch s = ks_Epoch s \<and> ks_Suite s = DefaultSuite \<and>
    map length (schedule_secrets s) = [32, 32, 12, 12, 32, 32] \<and>
    (\<forall>v \<in> set (ks_transcriptHash s # schedule_secrets s). \<exists>b \<in> set v. b \<noteq> 0) \<and>
    distinct [ks_ClientWriteKey s, ks_ServerWriteKey s, ks_ExporterSecret s, ks_rekeySecret s] \<and>
    ks_ClientNonceBase s \<noteq> ks_ServerNonceBase s"

lemma equal_pair_iff: "equal_pair vs \<longleftrightarrow> \<not> distinct vs"
  by (induction vs) auto

lemma validateRatchetSourceV1_ok: "validateRatchetSourceV1 s = None \<longleftrightarrow> schedule_ok s"
  by (auto simp: validateRatchetSourceV1_def schedule_ok_def schedule_secrets_def
    SuiteSupported_def or_else_None_iff keyScheduleKeyBytes_def keyScheduleNonceBytes_def
    allZeroKeyBytes_iff equal_pair_iff simp del: equal_pair.simps)

lemma deriveEpoch_ok:
  assumes "deriveEpochKeyScheduleWithExpand st prk transcript epoch expandFn = Inr s"
  shows "schedule_ok s \<and> ks_Epoch s = epoch \<and> ks_transcriptHash s = transcript \<and> ks_Suite s = st"
  using assms
  by (auto simp: deriveEpochKeyScheduleWithExpand_def Let_def result_simps
    validateRatchetSourceV1_ok split: if_splits option.splits)

lemma derive_ok:
  assumes "fst (DeriveKeyScheduleV1 env input) = Inr s"
  shows "schedule_ok s \<and> ks_Epoch s = 0 \<and> ks_transcriptHash s = ksi_TranscriptHash input"
  using assms
  by (auto simp: DeriveKeyScheduleV1_def deriveKeyScheduleV1WithExpand_def
    dest: deriveEpoch_ok split: if_splits)

lemma ratchet_ok:
  assumes "RatchetKeyScheduleV1 env s = Inr s'"
  shows "schedule_ok s \<and> schedule_ok s' \<and> ks_Epoch s \<noteq> - 1 \<and> ks_Epoch s' = ks_Epoch s + 1
    \<and> ks_transcriptHash s' = ks_transcriptHash s
    \<and> list_all2 (\<noteq>) (schedule_secrets s) (schedule_secrets s')"
  using assms
  by (auto simp: RatchetKeyScheduleV1_def ratchetKeyScheduleV1_def Let_def result_simps
    validateRatchetSourceV1_ok validateCrossEpochSeparationV1_def schedule_secrets_def
    dest: deriveEpoch_ok split: if_splits option.splits)

text \<open>The epochs of a session: \<open>n\<close> ratchets from the derived schedule.\<close>

fun ratchet_chain :: "kdf_env \<Rightarrow> nat \<Rightarrow> key_schedule \<Rightarrow> kdf_error + key_schedule" where
  "ratchet_chain env 0 s = Inr s"
| "ratchet_chain env (Suc n) s = bind_result (RatchetKeyScheduleV1 env s) (ratchet_chain env n)"

lemma ratchet_chain_ok:
  assumes "ratchet_chain env n s = Inr s'" "schedule_ok s"
  shows "schedule_ok s' \<and> unat (ks_Epoch s') = unat (ks_Epoch s) + n
    \<and> ks_transcriptHash s' = ks_transcriptHash s"
  using assms
proof (induction n arbitrary: s)
  case (Suc n)
  then obtain m where m: "RatchetKeyScheduleV1 env s = Inr m" "ratchet_chain env n m = Inr s'"
    by (auto simp: result_simps)
  then show ?case
    using Suc.IH [OF m(2)] ratchet_ok [OF m(1)] by (auto simp: unat_Suc_u64)
qed auto

section \<open>Properties\<close>

text \<open>A concrete environment: the expansion reads the label's first letter and the epoch.\<close>

definition sample_env :: kdf_env where
  "sample_env =
    \<lparr> env_sha256 = (\<lambda>b. replicate 32 (last b)),
      env_extract = (\<lambda>secret salt. Some secret),
      env_expand = (\<lambda>prk info n. Some (replicate (nat n) (info ! 22 + last info))) \<rparr>"

definition sample_input :: key_schedule_input where
  "sample_input = \<lparr> ksi_ApplicationSecret = replicate 32 1, ksi_TranscriptHash = replicate 32 2,
    ksi_Suite = DefaultSuite \<rparr>"

definition sample_schedule :: key_schedule where
  "sample_schedule =
    \<lparr> ks_Suite = DefaultSuite, ks_Epoch = 0, ks_ClientWriteKey = replicate 32 99,
      ks_ServerWriteKey = replicate 32 115, ks_ClientNonceBase = replicate 12 99,
      ks_ServerNonceBase = replicate 12 115, ks_ExporterSecret = replicate 32 101,
      ks_rekeySecret = replicate 32 114, ks_transcriptHash = replicate 32 2,
      ks_boundEpoch = 0, ks_exactV1 = True \<rparr>"

lemma sample_schedule_derived:
  "fst (DeriveKeyScheduleV1 sample_env sample_input) = Inr sample_schedule"
  by code_simp

lemma sample_ratchet: "is_ok (RatchetKeyScheduleV1 sample_env sample_schedule)"
  by code_simp

lemma sample_chain: "is_ok (ratchet_chain sample_env 1 sample_schedule)"
  using sample_ratchet by (auto simp: is_ok_iff)

lemma writeKeyScheduleLP_eq: "writeKeyScheduleLP v = writeLP v"
  by (simp add: writeKeyScheduleLP_def writeLP_def writeU32_def)

text \<open>
  C30: Every schedule that the authenticated derivation and any number of ratchets return is
  well formed: six secrets of the right sizes, none of them zero, pairwise separated keys and
  nonce bases, and an epoch that is exactly the number of ratchets, bound to the transcript of
  the handshake. The caller's application secret is wiped, whatever the outcome.
\<close>

theorem key_schedule_chain:
  assumes "fst (DeriveKeyScheduleV1 env input) = Inr s" and "ratchet_chain env n s = Inr s'"
  shows "schedule_ok s' \<and> unat (ks_Epoch s') = n
    \<and> ks_transcriptHash s' = ksi_TranscriptHash input
    \<and> snd (DeriveKeyScheduleV1 env input) = replicate (length (ksi_ApplicationSecret input)) 0"
  using derive_ok [OF assms(1)] ratchet_chain_ok [OF assms(2)]
  by (simp add: DeriveKeyScheduleV1_def wipeKeyBytes_zero)

theorem key_schedule_chain_witness:
  "\<exists>s'. ratchet_chain sample_env 1 sample_schedule = Inr s' \<and> schedule_ok s' \<and> unat (ks_Epoch s') = 1"
proof -
  obtain s' where "ratchet_chain sample_env 1 sample_schedule = Inr s'"
    using sample_chain unfolding is_ok_iff by blast
  then show ?thesis
    using key_schedule_chain [OF sample_schedule_derived] by blast
qed

text \<open>
  C31: One ratchet step moves to exactly the next epoch without wrap-around, is only taken from
  a well-formed schedule, keeps the transcript and replaces every one of the six secrets by a
  different value; a schedule whose public epoch was changed is refused.
\<close>

theorem key_ratchet_step:
  assumes "RatchetKeyScheduleV1 env s = Inr s'"
  shows "unat (ks_Epoch s') = unat (ks_Epoch s) + 1 \<and> schedule_ok s \<and> schedule_ok s'
    \<and> ks_transcriptHash s' = ks_transcriptHash s
    \<and> list_all2 (\<noteq>) (schedule_secrets s) (schedule_secrets s')
    \<and> (\<forall>e. e \<noteq> ks_Epoch s \<longrightarrow> \<not> is_ok (RatchetKeyScheduleV1 env (s\<lparr>ks_Epoch := e\<rparr>)))"
proof -
  have "\<not> is_ok (RatchetKeyScheduleV1 env (s\<lparr>ks_Epoch := e\<rparr>))" if "e \<noteq> ks_Epoch s" for e
  proof
    assume "is_ok (RatchetKeyScheduleV1 env (s\<lparr>ks_Epoch := e\<rparr>))"
    then have "schedule_ok (s\<lparr>ks_Epoch := e\<rparr>)"
      by (auto simp: is_ok_iff dest: ratchet_ok)
    moreover have "schedule_ok s"
      using ratchet_ok [OF assms] by simp
    ultimately show False
      using that by (simp add: schedule_ok_def)
  qed
  then show ?thesis
    using ratchet_ok [OF assms] by (auto simp: unat_Suc_u64)
qed

theorem key_ratchet_step_witness:
  "\<exists>s'. RatchetKeyScheduleV1 sample_env sample_schedule = Inr s'
    \<and> unat (ks_Epoch s') = unat (ks_Epoch sample_schedule) + 1
    \<and> \<not> is_ok (RatchetKeyScheduleV1 sample_env (sample_schedule\<lparr>ks_Epoch := 5\<rparr>))"
proof -
  obtain s' where s': "RatchetKeyScheduleV1 sample_env sample_schedule = Inr s'"
    using sample_ratchet by (auto simp: is_ok_iff)
  have "(5 :: u64) \<noteq> ks_Epoch sample_schedule"
    by (simp add: sample_schedule_def)
  then show ?thesis
    using key_ratchet_step [OF s'] s' by blast
qed

lemma keyScheduleHash_lp:
  "keyScheduleHash env label parts = env_sha256 env (lp_concat (string_bytes label # parts))"
proof -
  have "writeKeyScheduleLP = writeLP"
    by (rule ext) (rule writeKeyScheduleLP_eq)
  then show ?thesis
    by (simp add: keyScheduleHash_def lp_concat_def)
qed

text \<open>
  C32: The inputs of HKDF and of the ratchet salt are separated: two info strings are equal only
  for the same label, transcript and epoch, and two salts are equal whatever the hash function
  only for the same label and the same parts. No two secrets of any epochs share an HKDF input
  under one key.
\<close>

theorem kdf_inputs_separated:
  assumes "length label < 2 ^ 32" "length label' < 2 ^ 32"
    and "length t = 32" "length t' = 32"
    and "\<forall>p \<in> set parts. length p < 2 ^ 32" "\<forall>p \<in> set parts'. length p < 2 ^ 32"
  shows "(keyScheduleInfo label t e = keyScheduleInfo label' t' e' \<longleftrightarrow>
      label = label' \<and> t = t' \<and> e = e')
    \<and> ((\<forall>env. keyScheduleHash env label parts = keyScheduleHash env label' parts') \<longleftrightarrow>
      label = label' \<and> parts = parts')"
proof
  show "keyScheduleInfo label t e = keyScheduleInfo label' t' e' \<longleftrightarrow>
      label = label' \<and> t = t' \<and> e = e'"
    using assms
    by (auto simp: keyScheduleInfo_def writeKeyScheduleLP_eq writeLP_inj dest: put_be_unat_inj)
  have "lp_concat (string_bytes label # parts) = lp_concat (string_bytes label' # parts')"
    if "\<forall>env. keyScheduleHash env label parts = keyScheduleHash env label' parts'"
    using that [rule_format, of "sample_env\<lparr>env_sha256 := \<lambda>b. b\<rparr>"]
    by (simp add: keyScheduleHash_lp)
  then show "(\<forall>env. keyScheduleHash env label parts = keyScheduleHash env label' parts') \<longleftrightarrow>
      label = label' \<and> parts = parts'"
    using assms by (auto simp: writeLP_append_inj lp_concat_inj)
qed

theorem kdf_inputs_separated_witness:
  "keyScheduleInfo keyLabelC2SKey (replicate 32 1) 0 \<noteq> keyScheduleInfo keyLabelS2CKey (replicate 32 1) 0
    \<and> (\<exists>env. keyScheduleHash env keyLabelRekeySalt [keyScheduleU64 1]
        \<noteq> keyScheduleHash env keyLabelRekeySalt [keyScheduleU64 2])"
proof -
  have "length keyLabelC2SKey < 2 ^ 32" "length keyLabelS2CKey < 2 ^ 32"
    "length keyLabelRekeySalt < 2 ^ 32"
    by (simp_all add: key_labels)
  moreover have "keyLabelC2SKey \<noteq> keyLabelS2CKey"
    by (simp add: key_labels)
  moreover have "keyScheduleU64 1 \<noteq> keyScheduleU64 2"
    by (simp add: keyScheduleU64_def put_be_numeral)
  moreover have "length (keyScheduleU64 e) < 2 ^ 32" for e
    by (simp add: keyScheduleU64_def)
  ultimately show ?thesis
    using kdf_inputs_separated [of keyLabelC2SKey keyLabelS2CKey "replicate 32 1" "replicate 32 1"
        "[]" "[]" 0 0]
      kdf_inputs_separated [of keyLabelRekeySalt keyLabelRekeySalt "replicate 32 1" "replicate 32 1"
        "[keyScheduleU64 1]" "[keyScheduleU64 2]" 0 0]
    by simp
qed

end
