(* ===== verification/Nonce_Owner.thy ===== *)
theory Nonce_Owner
  imports Key_Schedule
begin

text \<open>
  The nonces of \<open>internal/crypto/security/nonce.go\<close>: the legacy manager and the strict owners,
  whose outbound direction keeps one counter per state slot, in a map or in the fixed array of
  the bounded constructor. The locale \<open>nonce_source\<close> is the interface the envelope relies
  on: an allocation never repeats a nonce of the history. The strict direction and the
  legacy manager provide it. Mutexes are left out since every method holds its lock for the
  whole critical section; a nil receiver is \<open>None\<close>.
\<close>

section \<open>Strict directions\<close>

definition DirectionClientToRelayV1 :: u16 where "DirectionClientToRelayV1 = 1"
definition DirectionRelayToClientV1 :: u16 where "DirectionRelayToClientV1 = 2"

definition NonceModeCounterXORBaseV1 :: string where
  "NonceModeCounterXORBaseV1 = ''counter_xor_base''"
definition NonceModeCounterAppendBaseV1 :: string where
  "NonceModeCounterAppendBaseV1 = ''counter_append_base''"
definition NonceModeDirectionalCounterV1 :: string where
  "NonceModeDirectionalCounterV1 = ''directional_counter''"
definition NonceModeStreamPartitionedCounterV1 :: string where
  "NonceModeStreamPartitionedCounterV1 = ''stream_partitioned_counter''"

lemmas nonce_modes = NonceModeCounterXORBaseV1_def NonceModeCounterAppendBaseV1_def
  NonceModeDirectionalCounterV1_def NonceModeStreamPartitionedCounterV1_def

definition nonceBytesV1 :: nat where "nonceBytesV1 = 12"

definition nonceControlRecordV1 :: byte where "nonceControlRecordV1 = 1"
definition nonceApplicationRecordV1 :: byte where "nonceApplicationRecordV1 = 2"

lemmas nonce_classes = nonceControlRecordV1_def nonceApplicationRecordV1_def

record nonce_allocation =
  na_Nonce :: bytes
  na_Sequence :: u64
  na_Epoch :: u64
  na_Direction :: u16
  na_Slot :: u16

record nonce_config =
  nc_base :: bytes
  nc_mode :: string
  nc_epoch :: u64
  nc_direction :: u16

record nonce_sequence =
  nseq_next :: u64
  nseq_exhausted :: bool

record nonce_direction =
  nd_config :: nonce_config
  nd_sequences :: "(u16 \<times> nonce_sequence) list"
  nd_fixed :: "nonce_sequence list option"

definition zero_sequence :: nonce_sequence where
  "zero_sequence = \<lparr> nseq_next = 0, nseq_exhausted = False \<rparr>"

definition validateDirectionV1 :: "u16 \<Rightarrow> sec_error option" where
  "validateDirectionV1 direction =
    (if direction \<noteq> DirectionClientToRelayV1 \<and> direction \<noteq> DirectionRelayToClientV1
     then Some ErrNonceMismatch else None)"

definition validateNonceModeV1 :: "string \<Rightarrow> sec_error option" where
  "validateNonceModeV1 mode =
    (if mode = NonceModeCounterXORBaseV1 \<or> mode = NonceModeCounterAppendBaseV1 \<or>
        mode = NonceModeDirectionalCounterV1 \<or> mode = NonceModeStreamPartitionedCounterV1
     then None else Some ErrPolicyInvalid)"

definition validateNonceSlotV1 :: "byte \<Rightarrow> u16 \<Rightarrow> sec_error option" where
  "validateNonceSlotV1 class slot =
    (if class = nonceControlRecordV1 then (if slot \<noteq> 0 then Some ErrNonceMismatch else None)
     else if class = nonceApplicationRecordV1 then (if slot = 0 then Some ErrNonceMismatch else None)
     else Some ErrNonceMismatch)"

definition nonce_config_validateV1 :: "nonce_config \<Rightarrow> sec_error option" where
  "nonce_config_validateV1 c =
    or_else (validateDirectionV1 (nc_direction c)) (validateNonceModeV1 (nc_mode c))"

definition newNonceDirectionConfigV1 :: "u64 \<Rightarrow> u16 \<Rightarrow> bytes \<Rightarrow> string \<Rightarrow> sec_error + nonce_config" where
  "newNonceDirectionConfigV1 epoch direction base mode =
    guard_result (validateDirectionV1 direction)
     (if length base \<noteq> nonceBytesV1 then Inl ErrNonceMismatch
      else guard_result (validateNonceModeV1 mode)
        (Inr \<lparr> nc_base = base, nc_mode = mode, nc_epoch = epoch, nc_direction = direction \<rparr>))"

definition nonceDomainsV3 :: "string \<Rightarrow> nat" where
  "nonceDomainsV3 mode = (if mode = NonceModeStreamPartitionedCounterV1 then 65536 else 1)"

definition newNonceDirectionBackendV1 ::
    "u64 \<Rightarrow> u16 \<Rightarrow> bytes \<Rightarrow> string \<Rightarrow> bool \<Rightarrow> sec_error + nonce_direction" where
  "newNonceDirectionBackendV1 epoch direction base mode bounded =
    bind_result (newNonceDirectionConfigV1 epoch direction base mode) (\<lambda>config.
      Inr \<lparr> nd_config = config, nd_sequences = [],
        nd_fixed = (if bounded then Some (replicate (nonceDomainsV3 mode) zero_sequence) else None) \<rparr>)"

text \<open>The last eight bytes of the base, exclusive-or the encoded sequence.\<close>

definition xor_bytes :: "bytes \<Rightarrow> bytes \<Rightarrow> bytes" where
  "xor_bytes a b = map2 (XOR) a b"

definition deriveNonceV1 :: "nonce_config \<Rightarrow> u16 \<Rightarrow> u64 \<Rightarrow> sec_error + bytes" where
  "deriveNonceV1 config slot sequence =
    guard_result (nonce_config_validateV1 config)
     (let encoded = put_be 8 (unat sequence); base = nc_base config; mode = nc_mode config in
      if mode = NonceModeCounterXORBaseV1 then Inr (take 4 base @ xor_bytes (drop 4 base) encoded)
      else if mode = NonceModeCounterAppendBaseV1 then Inr (encoded @ take 4 base)
      else if mode = NonceModeDirectionalCounterV1 then Inr (take 4 base @ encoded)
      else if mode = NonceModeStreamPartitionedCounterV1
        then Inr (take 2 base @ put_be 2 (unat slot) @ xor_bytes (drop 4 base) encoded)
      else Inl ErrPolicyInvalid)"

definition expectedV1 :: "nonce_config \<Rightarrow> byte \<Rightarrow> u16 \<Rightarrow> u64 \<Rightarrow> sec_error + bytes" where
  "expectedV1 c class slot sequence =
    guard_result (nonce_config_validateV1 c)
     (guard_result (validateNonceSlotV1 class slot) (deriveNonceV1 c slot sequence))"

definition state_slot :: "nonce_config \<Rightarrow> u16 \<Rightarrow> u16" where
  "state_slot c slot = (if nc_mode c = NonceModeStreamPartitionedCounterV1 then slot else 0)"

definition get_sequence :: "nonce_direction \<Rightarrow> u16 \<Rightarrow> nonce_sequence" where
  "get_sequence s k =
    (case nd_fixed s of
       Some fixed \<Rightarrow> fixed ! unat k
     | None \<Rightarrow> (case map_of (nd_sequences s) k of Some q \<Rightarrow> q | None \<Rightarrow> zero_sequence))"

definition put_sequence :: "nonce_direction \<Rightarrow> u16 \<Rightarrow> nonce_sequence \<Rightarrow> nonce_direction" where
  "put_sequence s k q =
    (case nd_fixed s of
       Some fixed \<Rightarrow> s\<lparr>nd_fixed := Some (fixed[unat k := q])\<rparr>
     | None \<Rightarrow> s\<lparr>nd_sequences := AList.update k q (nd_sequences s)\<rparr>)"

definition advance_sequence :: "nonce_sequence \<Rightarrow> nonce_sequence" where
  "advance_sequence q =
    (if nseq_next q = - 1 then q\<lparr>nseq_exhausted := True\<rparr> else q\<lparr>nseq_next := nseq_next q + 1\<rparr>)"

text \<open>
  The new state is returned with every outcome: an error of the derivation after the counter
  was advanced leaves the sequence burned.
\<close>

definition allocateV1 ::
    "nonce_direction \<Rightarrow> byte \<Rightarrow> u16 \<Rightarrow> (sec_error + nonce_allocation) \<times> nonce_direction" where
  "allocateV1 s class slot =
    (case or_else (nonce_config_validateV1 (nd_config s)) (validateNonceSlotV1 class slot) of
       Some e \<Rightarrow> (Inl e, s)
     | None \<Rightarrow>
         let k = state_slot (nd_config s) slot; q = get_sequence s k in
         if nseq_exhausted q then (Inl ErrNonceExhausted, s)
         else
           let sequence = nseq_next q; s' = put_sequence s k (advance_sequence q) in
           (bind_result (deriveNonceV1 (nd_config s) slot sequence) (\<lambda>nonce.
              Inr \<lparr> na_Nonce = nonce, na_Sequence = sequence, na_Epoch = nc_epoch (nd_config s),
                na_Direction = nc_direction (nd_config s), na_Slot = slot \<rparr>), s'))"

section \<open>Role owners\<close>

record nonce_owner =
  no_outbound :: "nonce_direction option"
  no_inbound :: nonce_config

record nonce_material =
  nm_epoch :: u64
  nm_clientToRelay :: bytes
  nm_relayToClient :: bytes

definition nonceOwnerMaterialFromScheduleV1 :: "key_schedule \<Rightarrow> string \<Rightarrow> sec_error + nonce_material" where
  "nonceOwnerMaterialFromScheduleV1 schedule mode =
    guard_result (validateNonceModeV1 mode)
     (if validateRatchetSourceV1 schedule \<noteq> None then Inl ErrNonceMismatch
      else Inr \<lparr> nm_epoch = ks_Epoch schedule, nm_clientToRelay = ks_ClientNonceBase schedule,
        nm_relayToClient = ks_ServerNonceBase schedule \<rparr>)"

text \<open>Both constructors: any failure after the material was accepted is \<open>ErrNonceMismatch\<close>.\<close>

definition owner_parts ::
    "sec_error + nonce_direction \<Rightarrow> sec_error + nonce_config \<Rightarrow> sec_error + nonce_owner" where
  "owner_parts outbound inbound =
    (case outbound of Inl _ \<Rightarrow> Inl ErrNonceMismatch
     | Inr out \<Rightarrow> (case inbound of Inl _ \<Rightarrow> Inl ErrNonceMismatch
         | Inr c \<Rightarrow> Inr \<lparr> no_outbound = Some out, no_inbound = c \<rparr>))"

definition newClientNonceOwnerV1 :: "key_schedule \<Rightarrow> string \<Rightarrow> bool \<Rightarrow> sec_error + nonce_owner" where
  "newClientNonceOwnerV1 schedule mode bounded =
    bind_result (nonceOwnerMaterialFromScheduleV1 schedule mode) (\<lambda>material.
      owner_parts
        (newNonceDirectionBackendV1 (nm_epoch material) DirectionClientToRelayV1
          (nm_clientToRelay material) mode bounded)
        (newNonceDirectionConfigV1 (nm_epoch material) DirectionRelayToClientV1
          (nm_relayToClient material) mode))"

definition newRelayNonceOwnerV1 :: "key_schedule \<Rightarrow> string \<Rightarrow> bool \<Rightarrow> sec_error + nonce_owner" where
  "newRelayNonceOwnerV1 schedule mode bounded =
    bind_result (nonceOwnerMaterialFromScheduleV1 schedule mode) (\<lambda>material.
      owner_parts
        (newNonceDirectionBackendV1 (nm_epoch material) DirectionRelayToClientV1
          (nm_relayToClient material) mode bounded)
        (newNonceDirectionConfigV1 (nm_epoch material) DirectionClientToRelayV1
          (nm_clientToRelay material) mode))"

text \<open>The methods of both owner types have the same bodies.\<close>

definition OutboundDirectionV1 :: "nonce_owner option \<Rightarrow> u16" where
  "OutboundDirectionV1 ow =
    (case ow of None \<Rightarrow> 0
     | Some x \<Rightarrow> (case no_outbound x of None \<Rightarrow> 0 | Some s \<Rightarrow> nc_direction (nd_config s)))"

definition InboundDirectionV1 :: "nonce_owner option \<Rightarrow> u16" where
  "InboundDirectionV1 ow = (case ow of None \<Rightarrow> 0 | Some x \<Rightarrow> nc_direction (no_inbound x))"

definition owner_allocate ::
    "nonce_owner option \<Rightarrow> byte \<Rightarrow> u16 \<Rightarrow> (sec_error + nonce_allocation) \<times> nonce_owner option" where
  "owner_allocate ow class slot =
    (case ow of None \<Rightarrow> (Inl ErrNonceMismatch, ow)
     | Some x \<Rightarrow> (case no_outbound x of None \<Rightarrow> (Inl ErrNonceMismatch, ow)
         | Some s \<Rightarrow> (case allocateV1 s class slot of (r, s') \<Rightarrow>
             (r, Some (x\<lparr>no_outbound := Some s'\<rparr>)))))"

definition AllocateOutboundControlV1 ::
    "nonce_owner option \<Rightarrow> (sec_error + nonce_allocation) \<times> nonce_owner option" where
  "AllocateOutboundControlV1 ow = owner_allocate ow nonceControlRecordV1 0"

definition AllocateOutboundApplicationV1 ::
    "nonce_owner option \<Rightarrow> u16 \<Rightarrow> (sec_error + nonce_allocation) \<times> nonce_owner option" where
  "AllocateOutboundApplicationV1 ow slot = owner_allocate ow nonceApplicationRecordV1 slot"

definition ExpectedInboundControlV1 :: "nonce_owner option \<Rightarrow> u64 \<Rightarrow> sec_error + bytes" where
  "ExpectedInboundControlV1 ow sequence =
    (case ow of None \<Rightarrow> Inl ErrNonceMismatch
     | Some x \<Rightarrow> expectedV1 (no_inbound x) nonceControlRecordV1 0 sequence)"

definition ExpectedInboundApplicationV1 :: "nonce_owner option \<Rightarrow> u16 \<Rightarrow> u64 \<Rightarrow> sec_error + bytes" where
  "ExpectedInboundApplicationV1 ow slot sequence =
    (case ow of None \<Rightarrow> Inl ErrNonceMismatch
     | Some x \<Rightarrow> expectedV1 (no_inbound x) nonceApplicationRecordV1 slot sequence)"

section \<open>Legacy manager\<close>

record nonce_manager =
  nm_Direction :: string
  nm_Base :: bytes
  nm_Counter :: u64
  nm_Mode :: string

definition NewNonceManager :: "(bytes \<Rightarrow> bytes) \<Rightarrow> string \<Rightarrow> bytes \<Rightarrow> string \<Rightarrow> nonce_manager" where
  "NewNonceManager sha256 direction base mode =
    \<lparr> nm_Direction = direction,
      nm_Base = (if length base \<noteq> 12 then take 12 (sha256 base) else base),
      nm_Counter = 0, nm_Mode = (if mode = [] then ''directional_counter'' else mode) \<rparr>"

definition nonceForLocked :: "(bytes \<Rightarrow> bytes) \<Rightarrow> nonce_manager \<Rightarrow> u64 \<Rightarrow> sec_error + bytes" where
  "nonceForLocked sha256 n sequence =
    (if nm_Mode n = ''counter_xor_base'' \<or> nm_Mode n = ''directional_counter'' \<or>
        nm_Mode n = ''stream_partitioned_counter''
     then
       let cut = length (nm_Base n) - 8;
           out = take cut (nm_Base n) @ xor_bytes (drop cut (nm_Base n)) (put_be 8 (unat sequence))
       in Inr (if nm_Direction n = ''server'' then out[0 := out ! 0 XOR 0x80] else out)
     else if nm_Mode n = ''counter_append_base'' then
       Inr (take 12 (sha256 (string_bytes (nm_Direction n @ ''/'') @ nm_Base n
         @ put_be 8 (unat sequence))))
     else Inl ErrInvalidConfig)"

definition Next :: "(bytes \<Rightarrow> bytes) \<Rightarrow> nonce_manager \<Rightarrow> (sec_error + bytes \<times> u64) \<times> nonce_manager" where
  "Next sha256 n =
    (if nm_Counter n = - 1 then (Inl ErrNonceOverflow, n)
     else let n' = n\<lparr>nm_Counter := nm_Counter n + 1\<rparr> in
       (bind_result (nonceForLocked sha256 n' (nm_Counter n')) (\<lambda>nonce. Inr (nonce, nm_Counter n')), n'))"

section \<open>Distinct nonces from distinct counters\<close>

lemma length_xor_bytes [simp]: "length (xor_bytes a b) = min (length a) (length b)"
  by (simp add: xor_bytes_def)

lemma word_xor_inj: "a XOR b = a XOR c \<longleftrightarrow> b = (c :: byte)"
  by (metis bit.xor_left_self)

lemma xor_bytes_inj:
  assumes "length b = length a" "length c = length a"
  shows "xor_bytes a b = xor_bytes a c \<longleftrightarrow> b = c"
  using assms(1) [symmetric] assms(2) [symmetric]
proof (induction a b arbitrary: c rule: list_induct2)
  case (Cons x xs y ys)
  then show ?case
    by (cases c) (auto simp: xor_bytes_def word_xor_inj)
qed (simp add: xor_bytes_def)

lemma put_be_u64_inj [simp]: "put_be 8 (unat a) = put_be 8 (unat b) \<longleftrightarrow> a = (b :: u64)"
  by (auto dest: put_be_unat_inj)

lemma put_be_u16_inj [simp]: "put_be 2 (unat a) = put_be 2 (unat b) \<longleftrightarrow> a = (b :: u16)"
  by (auto dest: put_be_unat_inj)

lemma put_be_8_numeral_inj:
  "xor_bytes b (put_be 8 (unat (x :: u64))) = xor_bytes b (put_be 8 (unat y)) \<longleftrightarrow> x = y"
  if "length b = 8"
  using that by (simp add: xor_bytes_inj)

lemma nonce_modes_distinct [simp]:
  "NonceModeCounterXORBaseV1 \<noteq> NonceModeCounterAppendBaseV1"
  "NonceModeCounterXORBaseV1 \<noteq> NonceModeDirectionalCounterV1"
  "NonceModeCounterXORBaseV1 \<noteq> NonceModeStreamPartitionedCounterV1"
  "NonceModeCounterAppendBaseV1 \<noteq> NonceModeDirectionalCounterV1"
  "NonceModeCounterAppendBaseV1 \<noteq> NonceModeStreamPartitionedCounterV1"
  "NonceModeDirectionalCounterV1 \<noteq> NonceModeStreamPartitionedCounterV1"
  by (simp_all add: nonce_modes)

text \<open>The nonce determines the sequence, and the slot where the counters are partitioned by it.\<close>

lemma deriveNonceV1_inj:
  assumes "deriveNonceV1 c slot x = Inr n" "deriveNonceV1 c slot' y = Inr n"
    and "length (nc_base c) = 12"
  shows "x = y \<and> state_slot c slot = state_slot c slot'"
proof -
  have "length (drop 4 (nc_base c)) = 8"
    using assms(3) by simp
  note inj = put_be_8_numeral_inj [OF this]
  from assms(1,2) consider
      "nc_mode c = NonceModeCounterXORBaseV1" | "nc_mode c = NonceModeCounterAppendBaseV1"
    | "nc_mode c = NonceModeDirectionalCounterV1" | "nc_mode c = NonceModeStreamPartitionedCounterV1"
    by (auto simp: deriveNonceV1_def Let_def result_simps split: if_splits)
  then show ?thesis
    using assms(1,2) inj
    by cases (auto simp: deriveNonceV1_def Let_def result_simps state_slot_def
      nonce_modes_distinct [symmetric] dest!: sym [of _ n])
qed

lemma deriveNonceV1_length:
  assumes "deriveNonceV1 c slot x = Inr n" "length (nc_base c) = 12"
  shows "length n = 12"
  using assms by (auto simp: deriveNonceV1_def Let_def result_simps split: if_splits)

section \<open>The interface of a nonce source\<close>

text \<open>A run of allocations, and the allocations it granted, in order.\<close>

fun alloc_run :: "('s \<Rightarrow> 'q \<Rightarrow> ('e + 'a) \<times> 's) \<Rightarrow> 's \<Rightarrow> 'q list \<Rightarrow> ('e + 'a) list \<times> 's" where
  "alloc_run alloc s [] = ([], s)"
| "alloc_run alloc s (q # qs) =
    (case alloc s q of (r, s') \<Rightarrow> case alloc_run alloc s' qs of (rs, s'') \<Rightarrow> (r # rs, s''))"

fun granted :: "('e + 'a) list \<Rightarrow> 'a list" where
  "granted [] = []"
| "granted (Inl e # rs) = granted rs"
| "granted (Inr a # rs) = a # granted rs"

lemma alloc_run_Cons_eq:
  "alloc_run alloc s (q # qs) =
    (fst (alloc s q) # fst (alloc_run alloc (snd (alloc s q)) qs),
     snd (alloc_run alloc (snd (alloc s q)) qs))"
  by (simp split: prod.splits)

locale nonce_source =
  fixes alloc :: "'s \<Rightarrow> 'q \<Rightarrow> ('e + 'a) \<times> 's"
    and nonce :: "'a \<Rightarrow> bytes"
    and inv :: "'s \<Rightarrow> 'a set \<Rightarrow> bool"
  assumes alloc_ok: "inv s H \<Longrightarrow> alloc s q = (Inr a, s') \<Longrightarrow>
      nonce a \<notin> nonce ` H \<and> inv s' (insert a H)"
    and alloc_err: "inv s H \<Longrightarrow> alloc s q = (Inl e, s') \<Longrightarrow> inv s' H"
begin

lemma run_fresh:
  assumes "inv s H" "alloc_run alloc s qs = (rs, s')"
  shows "distinct (map nonce (granted rs)) \<and> nonce ` set (granted rs) \<inter> nonce ` H = {}
    \<and> inv s' (set (granted rs) \<union> H)"
  using assms
proof (induction qs arbitrary: s H rs)
  case Nil
  then show ?case by simp
next
  case (Cons q qs)
  obtain r s1 where a: "alloc s q = (r, s1)" by fastforce
  obtain rs1 where run: "alloc_run alloc s1 qs = (rs1, s')" and rs: "rs = r # rs1"
    using Cons.prems(2) a by (auto split: prod.splits)
  show ?case
  proof (cases r)
    case (Inl e)
    then show ?thesis
      using Cons.IH [OF alloc_err run] Cons.prems(1) a rs by simp
  next
    case (Inr x)
    then have x: "nonce x \<notin> nonce ` H" "inv s1 (insert x H)"
      using alloc_ok Cons.prems(1) a by blast+
    show ?thesis
      using Cons.IH [OF x(2) run] x(1) Inr rs by auto
  qed
qed

lemma run_distinct:
  assumes "inv s {}"
  shows "distinct (map nonce (granted (fst (alloc_run alloc s qs))))"
  using run_fresh [OF assms, of qs "fst (alloc_run alloc s qs)" "snd (alloc_run alloc s qs)"] by simp

end

section \<open>The strict direction is a nonce source\<close>

definition store_ok :: "nonce_direction \<Rightarrow> bool" where
  "store_ok s \<longleftrightarrow> length (nc_base (nd_config s)) = 12 \<and>
    (case nd_fixed s of None \<Rightarrow> True
     | Some fixed \<Rightarrow> length fixed = nonceDomainsV3 (nc_mode (nd_config s)))"

lemma state_slot_less: "unat (state_slot c slot) < nonceDomainsV3 (nc_mode c)"
proof -
  have "unat slot < 2 ^ 16"
    using unsigned_less [of slot, where ?'a = nat] by simp
  then show ?thesis
    by (simp add: state_slot_def nonceDomainsV3_def)
qed

lemma get_put_sequence:
  assumes "store_ok s"
  shows "get_sequence (put_sequence s (state_slot (nd_config s) slot) q) k =
    (if k = state_slot (nd_config s) slot then q else get_sequence s k)"
  using assms state_slot_less [of "nd_config s" slot]
  by (auto simp: get_sequence_def put_sequence_def store_ok_def nth_list_update
    split: option.splits dest: unsigned_word_eqI)

lemma put_sequence_config [simp]: "nd_config (put_sequence s k q) = nd_config s"
  by (simp add: put_sequence_def split: option.splits)

lemma store_ok_put [simp]: "store_ok (put_sequence s k q) = store_ok s"
  by (simp add: store_ok_def put_sequence_def split: option.splits)

definition alloc_request :: "nonce_direction \<Rightarrow> byte \<times> u16 \<Rightarrow> (sec_error + nonce_allocation) \<times> nonce_direction" where
  "alloc_request s q = allocateV1 s (fst q) (snd q)"

text \<open>Every nonce of the history is the derived one of a sequence below the counter of its slot.\<close>

definition spent :: "nonce_sequence \<Rightarrow> u64 \<Rightarrow> bool" where
  "spent q x \<longleftrightarrow> nseq_exhausted q \<or> x < nseq_next q"

definition direction_inv :: "nonce_direction \<Rightarrow> nonce_allocation set \<Rightarrow> bool" where
  "direction_inv s H \<longleftrightarrow> store_ok s \<and>
    (\<forall>a \<in> H. deriveNonceV1 (nd_config s) (na_Slot a) (na_Sequence a) = Inr (na_Nonce a) \<and>
      spent (get_sequence s (state_slot (nd_config s) (na_Slot a))) (na_Sequence a))"

lemma spent_advance: "\<not> nseq_exhausted q \<Longrightarrow> spent (advance_sequence q) (nseq_next q)"
  by (auto simp: spent_def advance_sequence_def word_less_nat_alt unat_Suc_u64)

lemma spent_mono: "spent q x \<Longrightarrow> spent (advance_sequence q) x"
  by (auto simp: spent_def advance_sequence_def word_less_nat_alt unat_Suc_u64)

lemma not_spent_next: "\<not> nseq_exhausted q \<Longrightarrow> \<not> spent q (nseq_next q)"
  by (simp add: spent_def)

lemma allocateV1_Inr:
  assumes "allocateV1 s class slot = (Inr a, s')"
  shows "let k = state_slot (nd_config s) slot; q = get_sequence s k in
    nonce_config_validateV1 (nd_config s) = None \<and> validateNonceSlotV1 class slot = None \<and>
    \<not> nseq_exhausted q \<and> s' = put_sequence s k (advance_sequence q) \<and>
    deriveNonceV1 (nd_config s) slot (nseq_next q) = Inr (na_Nonce a) \<and>
    na_Sequence a = nseq_next q \<and> na_Slot a = slot \<and>
    na_Epoch a = nc_epoch (nd_config s) \<and> na_Direction a = nc_direction (nd_config s)"
  using assms
  by (auto simp: allocateV1_def Let_def result_simps split: option.splits if_splits)

lemma deriveNonceV1_total: "nonce_config_validateV1 c = None \<Longrightarrow> is_ok (deriveNonceV1 c slot x)"
  by (auto simp: deriveNonceV1_def nonce_config_validateV1_def validateNonceModeV1_def Let_def
    result_simps split: if_splits)

lemma allocateV1_Inl:
  assumes "allocateV1 s class slot = (Inl e, s')"
  shows "s' = s"
proof (cases "nonce_config_validateV1 (nd_config s)")
  case None
  let ?x = "nseq_next (get_sequence s (state_slot (nd_config s) slot))"
  obtain n where "deriveNonceV1 (nd_config s) slot ?x = Inr n"
    using deriveNonceV1_total [OF None] by (auto simp: is_ok_iff)
  then show ?thesis
    using assms None by (auto simp: allocateV1_def Let_def split: option.splits if_splits)
qed (use assms in \<open>auto simp: allocateV1_def\<close>)

lemma direction_inv_alloc:
  assumes "direction_inv s H" "allocateV1 s class slot = (Inr a, s')"
  shows "na_Nonce a \<notin> na_Nonce ` H \<and> direction_inv s' (insert a H)"
proof -
  let ?k = "state_slot (nd_config s) slot"
  let ?q = "get_sequence s ?k"
  have ok: "store_ok s" and base: "length (nc_base (nd_config s)) = 12"
    using assms(1) by (auto simp: direction_inv_def store_ok_def)
  note a = allocateV1_Inr [OF assms(2), unfolded Let_def]
  have "na_Nonce a \<noteq> na_Nonce b" if "b \<in> H" for b
  proof
    assume eq: "na_Nonce a = na_Nonce b"
    from assms(1) that have b: "deriveNonceV1 (nd_config s) (na_Slot b) (na_Sequence b) = Inr (na_Nonce b)"
      "spent (get_sequence s (state_slot (nd_config s) (na_Slot b))) (na_Sequence b)"
      by (auto simp: direction_inv_def)
    have "deriveNonceV1 (nd_config s) slot (nseq_next ?q) = Inr (na_Nonce b)"
      using a eq by simp
    from deriveNonceV1_inj [OF this b(1) base] show False
      using b(2) a not_spent_next by metis
  qed
  moreover have "direction_inv s' (insert a H)"
    using assms(1) a
    by (auto simp: direction_inv_def get_put_sequence [OF ok] spent_advance spent_mono)
  ultimately show ?thesis by auto
qed

interpretation strict_source: nonce_source alloc_request na_Nonce direction_inv
proof
  fix s :: nonce_direction and H q a s'
  assume "direction_inv s H" "alloc_request s q = (Inr a, s')"
  then show "na_Nonce a \<notin> na_Nonce ` H \<and> direction_inv s' (insert a H)"
    by (simp add: alloc_request_def direction_inv_alloc)
next
  fix s :: nonce_direction and H q e s'
  assume "direction_inv s H" "alloc_request s q = (Inl e, s')"
  then show "direction_inv s' H"
    using allocateV1_Inl [of s "fst q" "snd q" e s'] by (simp add: alloc_request_def)
qed

section \<open>The legacy manager is a nonce source\<close>

definition manager_request ::
    "(bytes \<Rightarrow> bytes) \<Rightarrow> nonce_manager \<Rightarrow> unit \<Rightarrow> (sec_error + bytes \<times> u64) \<times> nonce_manager" where
  "manager_request sha256 n q = Next sha256 n"

definition manager_inv :: "(bytes \<Rightarrow> bytes) \<Rightarrow> nonce_manager \<Rightarrow> (bytes \<times> u64) set \<Rightarrow> bool" where
  "manager_inv sha256 n H \<longleftrightarrow> length (nm_Base n) = 12 \<and> nm_Mode n \<noteq> ''counter_append_base'' \<and>
    (\<forall>(b, x) \<in> H. x \<le> nm_Counter n \<and> nonceForLocked sha256 n x = Inr b)"

lemma list_update_0_xor_inj:
  "xs[0 := xs ! 0 XOR (m :: byte)] = ys[0 := ys ! 0 XOR m] \<longleftrightarrow> xs = ys" if "xs \<noteq> []" "ys \<noteq> []"
  using that by (cases xs; cases ys) (auto simp: xor.commute [of _ m] word_xor_inj)

lemma nonceForLocked_inj:
  assumes "nonceForLocked sha256 n x = Inr b" "nonceForLocked sha256 n y = Inr b"
    and "length (nm_Base n) = 12" "nm_Mode n \<noteq> ''counter_append_base''"
  shows "x = y"
proof -
  let ?out = "\<lambda>x. take 4 (nm_Base n) @ xor_bytes (drop 4 (nm_Base n)) (put_be 8 (unat x))"
  have "?out x = ?out y"
  proof -
    have ne: "?out z \<noteq> []" for z using assms(3) by auto
    show ?thesis
      using assms list_update_0_xor_inj [OF ne ne, of x 128 y]
      by (auto simp: nonceForLocked_def Let_def split: if_splits)
  qed
  then show ?thesis
    using assms(3) by (simp add: put_be_8_numeral_inj)
qed

lemma nonceForLocked_counter [simp]:
  "nonceForLocked sha256 (n\<lparr>nm_Counter := c\<rparr>) x = nonceForLocked sha256 n x"
  by (simp add: nonceForLocked_def)

interpretation legacy_source: nonce_source "manager_request sha256" fst "manager_inv sha256"
  for sha256
proof
  fix n H q a n'
  assume inv: "manager_inv sha256 n H" and step: "manager_request sha256 n q = (Inr a, n')"
  then have a: "nm_Counter n \<noteq> - 1" "n' = n\<lparr>nm_Counter := nm_Counter n + 1\<rparr>"
    "snd a = nm_Counter n + 1" "nonceForLocked sha256 n (nm_Counter n + 1) = Inr (fst a)"
    by (auto simp: manager_request_def Next_def Let_def result_simps split: if_splits)
  have lt: "x < nm_Counter n + 1" if "x \<le> nm_Counter n" for x
    using that a(1) by (simp add: word_less_nat_alt word_le_nat_alt unat_Suc_u64)
  have "fst a \<noteq> fst b" if "b \<in> H" for b
  proof
    assume "fst a = fst b"
    then have "snd b \<le> nm_Counter n" "nonceForLocked sha256 n (snd b) = Inr (fst a)"
      using inv that by (cases b; force simp: manager_inv_def)+
    then show False
      using nonceForLocked_inj [OF a(4)] inv lt by (fastforce simp: manager_inv_def)
  qed
  moreover have "manager_inv sha256 n' (insert a H)"
    using inv a lt by (cases a) (force simp: manager_inv_def split: prod.splits)
  ultimately show "fst a \<notin> fst ` H \<and> manager_inv sha256 n' (insert a H)"
    by auto
next
  fix n H q e n'
  assume inv: "manager_inv sha256 n H" and step: "manager_request sha256 n q = (Inl e, n')"
  then have "n' = n \<or> nm_Counter n \<noteq> - 1 \<and> n' = n\<lparr>nm_Counter := nm_Counter n + 1\<rparr>"
    by (auto simp: manager_request_def Next_def Let_def split: if_splits)
  moreover have "x \<le> nm_Counter n + 1" if "x \<le> nm_Counter n" "nm_Counter n \<noteq> - 1" for x
    using that by (simp add: word_le_nat_alt unat_Suc_u64)
  ultimately show "manager_inv sha256 n' H"
    using inv by (fastforce simp: manager_inv_def split: prod.splits)
qed

section \<open>Owners\<close>

text \<open>A request for a control nonce (\<open>None\<close>) or an application nonce of a slot.\<close>

definition owner_request ::
    "nonce_owner option \<Rightarrow> u16 option \<Rightarrow> (sec_error + nonce_allocation) \<times> nonce_owner option" where
  "owner_request ow q =
    (case q of None \<Rightarrow> AllocateOutboundControlV1 ow | Some slot \<Rightarrow> AllocateOutboundApplicationV1 ow slot)"

text \<open>The receiver's nonce for an allocation: control records are those of slot zero.\<close>

definition expected_for :: "nonce_owner option \<Rightarrow> nonce_allocation \<Rightarrow> sec_error + bytes" where
  "expected_for ow a =
    (if na_Slot a = 0 then ExpectedInboundControlV1 ow (na_Sequence a)
     else ExpectedInboundApplicationV1 ow (na_Slot a) (na_Sequence a))"

definition owner_inv :: "nonce_owner option \<Rightarrow> nonce_allocation set \<Rightarrow> bool" where
  "owner_inv ow H \<longleftrightarrow> (\<exists>x s. ow = Some x \<and> no_outbound x = Some s \<and> direction_inv s H)"

definition request_class :: "u16 option \<Rightarrow> byte" where
  "request_class q = (case q of None \<Rightarrow> nonceControlRecordV1 | Some _ \<Rightarrow> nonceApplicationRecordV1)"

definition request_slot :: "u16 option \<Rightarrow> u16" where
  "request_slot q = (case q of None \<Rightarrow> 0 | Some slot \<Rightarrow> slot)"

lemma owner_request_alloc:
  assumes "no_outbound x = Some s"
  shows "owner_request (Some x) q =
    (case allocateV1 s (request_class q) (request_slot q) of (r, s') \<Rightarrow>
      (r, Some (x\<lparr>no_outbound := Some s'\<rparr>)))"
  using assms
  by (simp add: owner_request_def AllocateOutboundControlV1_def AllocateOutboundApplicationV1_def
    owner_allocate_def request_class_def request_slot_def split: option.splits)

interpretation owner_source: nonce_source owner_request na_Nonce owner_inv
proof
  fix ow :: "nonce_owner option" and H q a ow'
  assume "owner_inv ow H" "owner_request ow q = (Inr a, ow')"
  then show "na_Nonce a \<notin> na_Nonce ` H \<and> owner_inv ow' (insert a H)"
    using direction_inv_alloc by (fastforce simp: owner_inv_def owner_request_alloc split: prod.splits)
next
  fix ow :: "nonce_owner option" and H q e ow'
  assume "owner_inv ow H" "owner_request ow q = (Inl e, ow')"
  then show "owner_inv ow' H"
    using allocateV1_Inl by (fastforce simp: owner_inv_def owner_request_alloc split: prod.splits)
qed

lemma direction_backend_ok:
  assumes "newNonceDirectionBackendV1 epoch direction base mode bounded = Inr s"
  shows "direction_inv s {} \<and> nonce_config_validateV1 (nd_config s) = None
    \<and> nd_config s = \<lparr> nc_base = base, nc_mode = mode, nc_epoch = epoch, nc_direction = direction \<rparr>
    \<and> (\<forall>k. unat k < nonceDomainsV3 mode \<longrightarrow> get_sequence s k = zero_sequence)"
  using assms
  by (auto simp: newNonceDirectionBackendV1_def newNonceDirectionConfigV1_def result_simps
    direction_inv_def store_ok_def nonceBytesV1_def nonce_config_validateV1_def get_sequence_def
    split: if_splits)

lemma owner_parts_ok:
  "owner_parts outb inb = Inr ow \<longleftrightarrow>
    (\<exists>s c. outb = Inr s \<and> inb = Inr c \<and> ow = \<lparr> no_outbound = Some s, no_inbound = c \<rparr>)"
  by (auto simp: owner_parts_def split: sum.splits)

lemmas new_owner_defs = newClientNonceOwnerV1_def newRelayNonceOwnerV1_def
  nonceOwnerMaterialFromScheduleV1_def

lemma new_owner_inv:
  assumes "newClientNonceOwnerV1 schedule mode bounded = Inr ow \<or>
    newRelayNonceOwnerV1 schedule mode bounded = Inr ow"
  shows "owner_inv (Some ow) {}"
  using assms
  by (auto simp: new_owner_defs result_simps owner_parts_ok owner_inv_def dest: direction_backend_ok
    split: if_splits)

text \<open>Every allocation of a run carries the configuration of the direction.\<close>

lemma run_expected:
  assumes "alloc_run owner_request (Some x) qs = (rs, ow')" "no_outbound x = Some s"
    and "a \<in> set (granted rs)"
  shows "expectedV1 (nd_config s) (if na_Slot a = 0 then nonceControlRecordV1 else nonceApplicationRecordV1)
      (na_Slot a) (na_Sequence a) = Inr (na_Nonce a)
    \<and> na_Epoch a = nc_epoch (nd_config s) \<and> na_Direction a = nc_direction (nd_config s)"
  using assms
proof (induction qs arbitrary: x s rs)
  case (Cons q qs)
  obtain r s1 where al: "allocateV1 s (request_class q) (request_slot q) = (r, s1)" by fastforce
  obtain rs1 where run: "alloc_run owner_request (Some (x\<lparr>no_outbound := Some s1\<rparr>)) qs = (rs1, ow')"
    and rs: "rs = r # rs1"
    using Cons.prems(1) al by (auto simp: owner_request_alloc [OF Cons.prems(2)] split: prod.splits)
  have config: "nd_config s1 = nd_config s"
    using al by (cases r) (auto dest: allocateV1_Inl allocateV1_Inr simp: Let_def)
  show ?case
  proof (cases "a \<in> set (granted rs1)")
    case True
    then show ?thesis
      using Cons.IH [OF run, of s1] config by simp
  next
    case False
    then have "r = Inr a"
      using Cons.prems(3) rs by (cases r) auto
    then show ?thesis
      using allocateV1_Inr [of s "request_class q" "request_slot q" a s1] al
      by (auto simp: Let_def expectedV1_def validateNonceSlotV1_def request_class_def nonce_classes
        split: if_splits option.splits)
  qed
qed simp

text \<open>Storage does not matter: two directions with the same counters allocate alike.\<close>

definition same_counters :: "nonce_direction \<Rightarrow> nonce_direction \<Rightarrow> bool" where
  "same_counters s t \<longleftrightarrow> store_ok s \<and> store_ok t \<and> nd_config s = nd_config t \<and>
    (\<forall>k. unat k < nonceDomainsV3 (nc_mode (nd_config s)) \<longrightarrow> get_sequence s k = get_sequence t k)"

lemma same_counters_alloc:
  assumes "same_counters s t" "allocateV1 s class slot = (r, s')" "allocateV1 t class slot = (r', t')"
  shows "r = r' \<and> same_counters s' t'"
proof -
  have eq: "nd_config s = nd_config t" "get_sequence s (state_slot (nd_config t) slot)
      = get_sequence t (state_slot (nd_config t) slot)"
    using assms(1) state_slot_less by (auto simp: same_counters_def)
  have ok: "store_ok s" "store_ok t"
    using assms(1) by (auto simp: same_counters_def)
  have "same_counters (put_sequence s (state_slot (nd_config t) slot) q)
      (put_sequence t (state_slot (nd_config t) slot) q)" for q
    using assms(1) get_put_sequence [OF ok(1), of slot q] get_put_sequence [OF ok(2), of slot q] eq(1)
    by (simp add: same_counters_def)
  then show ?thesis
    using assms eq by (auto simp: allocateV1_def Let_def split: option.splits if_splits)
qed

lemma same_counters_run:
  assumes "no_outbound x = Some s" "no_outbound y = Some t" "same_counters s t"
  shows "fst (alloc_run owner_request (Some x) qs) = fst (alloc_run owner_request (Some y) qs)"
  using assms
proof (induction qs arbitrary: x y s t)
  case (Cons q qs)
  obtain r s1 where s1: "allocateV1 s (request_class q) (request_slot q) = (r, s1)" by fastforce
  obtain r' t1 where t1: "allocateV1 t (request_class q) (request_slot q) = (r', t1)" by fastforce
  have "r = r'" "same_counters s1 t1"
    using same_counters_alloc [OF Cons.prems(3) s1 t1] by auto
  then show ?case
    using Cons.IH [of "x\<lparr>no_outbound := Some s1\<rparr>" s1 "y\<lparr>no_outbound := Some t1\<rparr>" t1]
    by (simp add: alloc_run_Cons_eq owner_request_alloc [OF Cons.prems(1)]
      owner_request_alloc [OF Cons.prems(2)] s1 t1 del: alloc_run.simps(2))
qed simp

section \<open>Properties\<close>

lemma sample_owners:
  "is_ok (newClientNonceOwnerV1 sample_schedule NonceModeDirectionalCounterV1 b)"
  "is_ok (newRelayNonceOwnerV1 sample_schedule NonceModeDirectionalCounterV1 b)"
  by (cases b; code_simp)+

text \<open>
  C33: A nonce is never used twice under one key: whatever control and application nonces are
  requested from a client or relay owner, in whatever order and slots and with either storage,
  the granted nonces are pairwise different.
\<close>

theorem nonce_never_repeats:
  assumes "newClientNonceOwnerV1 schedule mode bounded = Inr ow \<or>
    newRelayNonceOwnerV1 schedule mode bounded = Inr ow"
  shows "distinct (map na_Nonce (granted (fst (alloc_run owner_request (Some ow) qs))))"
  by (rule owner_source.run_distinct [OF new_owner_inv [OF assms]])

theorem nonce_never_repeats_witness:
  "\<exists>ow. newClientNonceOwnerV1 sample_schedule NonceModeDirectionalCounterV1 True = Inr ow
    \<and> distinct (map na_Nonce (granted (fst (alloc_run owner_request (Some ow) [None, Some 7, Some 7]))))"
  using sample_owners(1) [of True] nonce_never_repeats unfolding is_ok_iff by blast

text \<open>
  Sender and receiver agree without a nonce on the wire: for every allocation a client owner
  grants, the relay owner of the same schedule derives the same nonce from the slot and the
  sequence, and expects the direction the allocation carries; and the same from relay to client.
\<close>

theorem nonce_sender_receiver_agree:
  assumes "newClientNonceOwnerV1 schedule mode b = Inr client"
    and "newRelayNonceOwnerV1 schedule mode b' = Inr relay"
  shows "(a \<in> set (granted (fst (alloc_run owner_request (Some client) qs))) \<longrightarrow>
      expected_for (Some relay) a = Inr (na_Nonce a) \<and>
      na_Direction a = InboundDirectionV1 (Some relay) \<and> na_Epoch a = ks_Epoch schedule)
    \<and> (a \<in> set (granted (fst (alloc_run owner_request (Some relay) qs))) \<longrightarrow>
      expected_for (Some client) a = Inr (na_Nonce a) \<and>
      na_Direction a = InboundDirectionV1 (Some client) \<and> na_Epoch a = ks_Epoch schedule)"
proof -
  obtain s where s: "no_outbound client = Some s" "nd_config s = no_inbound relay"
      "nc_epoch (nd_config s) = ks_Epoch schedule"
    using assms
    by (auto simp: new_owner_defs result_simps owner_parts_ok newNonceDirectionBackendV1_def
      newNonceDirectionConfigV1_def split: if_splits)
  obtain t where t: "no_outbound relay = Some t" "nd_config t = no_inbound client"
      "nc_epoch (nd_config t) = ks_Epoch schedule"
    using assms
    by (auto simp: new_owner_defs result_simps owner_parts_ok newNonceDirectionBackendV1_def
      newNonceDirectionConfigV1_def split: if_splits)
  show ?thesis
    using run_expected [OF surjective_pairing s(1), of a qs] run_expected [OF surjective_pairing t(1), of a qs]
      s(2,3) t(2,3)
    by (auto simp: expected_for_def ExpectedInboundControlV1_def ExpectedInboundApplicationV1_def
      InboundDirectionV1_def)
qed

theorem nonce_sender_receiver_agree_witness:
  "\<exists>client relay. newClientNonceOwnerV1 sample_schedule NonceModeDirectionalCounterV1 True = Inr client
    \<and> newRelayNonceOwnerV1 sample_schedule NonceModeDirectionalCounterV1 False = Inr relay
    \<and> (\<forall>a. a \<in> set (granted (fst (alloc_run owner_request (Some client) [None, Some 7]))) \<longrightarrow>
        expected_for (Some relay) a = Inr (na_Nonce a))"
proof -
  obtain client relay where
    "newClientNonceOwnerV1 sample_schedule NonceModeDirectionalCounterV1 True = Inr client"
    "newRelayNonceOwnerV1 sample_schedule NonceModeDirectionalCounterV1 False = Inr relay"
    using sample_owners(1) [of True] sample_owners(2) [of False] unfolding is_ok_iff by blast
  then show ?thesis
    using nonce_sender_receiver_agree by blast
qed

text \<open>
  The fixed array of the bounded owners implements the map of the others: from one schedule
  both grant and refuse the same requests with the same nonces, sequences and errors.
\<close>

theorem nonce_storage_equivalent:
  assumes "newClientNonceOwnerV1 schedule mode True = Inr fixed"
    and "newClientNonceOwnerV1 schedule mode False = Inr mapped"
  shows "fst (alloc_run owner_request (Some fixed) qs) = fst (alloc_run owner_request (Some mapped) qs)"
proof -
  obtain s where s: "no_outbound fixed = Some s"
      "newNonceDirectionBackendV1 (ks_Epoch schedule) DirectionClientToRelayV1
        (ks_ClientNonceBase schedule) mode True = Inr s"
    using assms(1) by (auto simp: new_owner_defs result_simps owner_parts_ok split: if_splits)
  obtain t where t: "no_outbound mapped = Some t"
      "newNonceDirectionBackendV1 (ks_Epoch schedule) DirectionClientToRelayV1
        (ks_ClientNonceBase schedule) mode False = Inr t"
    using assms(2) by (auto simp: new_owner_defs result_simps owner_parts_ok split: if_splits)
  have "same_counters s t"
    using direction_backend_ok [OF s(2)] direction_backend_ok [OF t(2)]
    by (auto simp: same_counters_def direction_inv_def)
  then show ?thesis
    by (rule same_counters_run [OF s(1) t(1)])
qed

theorem nonce_storage_equivalent_witness:
  "\<exists>fixed mapped. newClientNonceOwnerV1 sample_schedule NonceModeDirectionalCounterV1 True = Inr fixed
    \<and> newClientNonceOwnerV1 sample_schedule NonceModeDirectionalCounterV1 False = Inr mapped
    \<and> fst (alloc_run owner_request (Some fixed) [None, Some 7]) =
       fst (alloc_run owner_request (Some mapped) [None, Some 7])"
proof -
  obtain fixed mapped where
    "newClientNonceOwnerV1 sample_schedule NonceModeDirectionalCounterV1 True = Inr fixed"
    "newClientNonceOwnerV1 sample_schedule NonceModeDirectionalCounterV1 False = Inr mapped"
    using sample_owners(1) [of True] sample_owners(1) [of False] unfolding is_ok_iff by blast
  then show ?thesis
    using nonce_storage_equivalent by blast
qed

end
