(* ===== verification/Replay_Window.thy ===== *)
theory Replay_Window
  imports Security_Base
begin

text \<open>
  The replay windows of \<open>internal/crypto/security/replay.go\<close>: the strict window with its two
  storages, a map of sequences and the bitmap of the bounded constructor, and the legacy
  window. Sequences are 64-bit words and every sum and difference wraps like the source's.
  The interface \<open>replay_backend\<close> states what a window promises of a history of accepted
  sequences; both storages provide it, so that they give the same verdicts on every run and
  never accept a sequence twice.
\<close>

section \<open>The strict window\<close>

record replay_state =
  rs_policy :: string
  rs_window :: u64
  rs_initialized :: bool
  rs_highest :: u64
  rs_seen :: "u64 list"
  rs_bitmap :: "u64 list option"

definition ReplayPolicyOrderedOnlyV1 :: string where "ReplayPolicyOrderedOnlyV1 = ''ordered_only''"
definition ReplayPolicyBoundedReorderV1 :: string where "ReplayPolicyBoundedReorderV1 = ''bounded_reorder''"
definition ReplayPolicyWindowedReplayV1 :: string where "ReplayPolicyWindowedReplayV1 = ''windowed_replay''"

lemmas replay_policies = ReplayPolicyOrderedOnlyV1_def ReplayPolicyBoundedReorderV1_def
  ReplayPolicyWindowedReplayV1_def

definition validateReplayPolicyV1 :: "string \<Rightarrow> int \<Rightarrow> sec_error option" where
  "validateReplayPolicyV1 policy windowSize =
     (if windowSize < 2 \<or> windowSize > 4096 then Some ErrPolicyInvalid
      else if policy = ReplayPolicyOrderedOnlyV1 \<or> policy = ReplayPolicyBoundedReorderV1 \<or>
        policy = ReplayPolicyWindowedReplayV1 then None
      else Some ErrPolicyInvalid)"

definition NewReplayWindowV1 :: "string \<Rightarrow> int \<Rightarrow> sec_error + replay_state" where
  "NewReplayWindowV1 policy windowSize = guard_result (validateReplayPolicyV1 policy windowSize)
     (Inr \<lparr>rs_policy = policy, rs_window = word_of_int windowSize, rs_initialized = False,
           rs_highest = 0, rs_seen = [], rs_bitmap = None\<rparr>)"

text \<open>One window of the arena of \<open>newReplayArenaV3\<close>: no map, \<open>(window + 63) / 64\<close> zero words.\<close>

definition arena_window :: "string \<Rightarrow> int \<Rightarrow> replay_state" where
  "arena_window policy windowSize =
     \<lparr>rs_policy = policy, rs_window = word_of_int windowSize, rs_initialized = False,
      rs_highest = 0, rs_seen = [], rs_bitmap = Some (replicate (nat ((windowSize + 63) div 64)) 0)\<rparr>"

definition replayLowerBoundV1 :: "u64 \<Rightarrow> u64 \<Rightarrow> u64" where
  "replayLowerBoundV1 highest window = (if highest < window then 0 else highest - window + 1)"

definition bitmap_bit :: "u64 list \<Rightarrow> u64 \<Rightarrow> bool" where
  "bitmap_bit bm residue \<longleftrightarrow>
     bm ! unat (residue div 64) AND push_bit (unat (residue mod 64)) 1 \<noteq> 0"

definition bitmap_set :: "u64 list \<Rightarrow> u64 \<Rightarrow> u64 list" where
  "bitmap_set bm residue =
     bm[unat (residue div 64) := bm ! unat (residue div 64) OR push_bit (unat (residue mod 64)) 1]"

definition bitmap_clear :: "u64 list \<Rightarrow> u64 \<Rightarrow> u64 list" where
  "bitmap_clear bm residue =
     bm[unat (residue div 64) := bm ! unat (residue div 64) AND NOT (push_bit (unat (residue mod 64)) 1)]"

definition containsV3Locked :: "replay_state \<Rightarrow> u64 \<Rightarrow> bool" where
  "containsV3Locked r sequence =
     (case rs_bitmap r of
        None \<Rightarrow> sequence \<in> set (rs_seen r)
      | Some bm \<Rightarrow>
          if \<not> rs_initialized r \<or> sequence > rs_highest r \<or>
             sequence < replayLowerBoundV1 (rs_highest r) (rs_window r)
          then False else bitmap_bit bm (sequence mod rs_window r))"

definition checkOrderedV1Locked :: "replay_state \<Rightarrow> u64 \<Rightarrow> sec_error option" where
  "checkOrderedV1Locked r sequence =
     (if \<not> rs_initialized r then
        (if sequence = 0 then None
         else if sequence \<le> rs_window r then Some ErrReplayOutOfOrder else Some ErrReplayTooFarFuture)
      else if rs_highest r = - 1 then Some ErrReplayExhausted
      else let next = rs_highest r + 1 in
        if sequence = next then None
        else if sequence < next then Some ErrReplayStale
        else if next > - 1 - rs_window r \<or> sequence \<le> next + rs_window r then Some ErrReplayOutOfOrder
        else Some ErrReplayTooFarFuture)"

definition checkBoundedV1Locked :: "replay_state \<Rightarrow> u64 \<Rightarrow> sec_error option" where
  "checkBoundedV1Locked r sequence =
     (if \<not> rs_initialized r then
        (if sequence \<le> rs_window r then None else Some ErrReplayTooFarFuture)
      else if sequence < replayLowerBoundV1 (rs_highest r) (rs_window r) then Some ErrReplayStale
      else if sequence \<le> rs_highest r then None
      else if sequence - rs_highest r > rs_window r then Some ErrReplayTooFarFuture
      else None)"

definition checkWindowedV1Locked :: "replay_state \<Rightarrow> u64 \<Rightarrow> sec_error option" where
  "checkWindowedV1Locked r sequence =
     (if \<not> rs_initialized r \<or> sequence > rs_highest r then None
      else if sequence < replayLowerBoundV1 (rs_highest r) (rs_window r) then Some ErrReplayStale
      else None)"

definition checkV1Locked :: "replay_state \<Rightarrow> u64 \<Rightarrow> sec_error option" where
  "checkV1Locked r sequence =
     (if containsV3Locked r sequence then Some ErrReplayDuplicate
      else if rs_policy r = ReplayPolicyOrderedOnlyV1 then checkOrderedV1Locked r sequence
      else if rs_policy r = ReplayPolicyBoundedReorderV1 then checkBoundedV1Locked r sequence
      else if rs_policy r = ReplayPolicyWindowedReplayV1 then checkWindowedV1Locked r sequence
      else Some ErrPolicyInvalid)"

text \<open>The residues that leave the window are cleared one by one, or all at once.\<close>

definition slide_bitmap :: "u64 \<Rightarrow> u64 \<Rightarrow> u64 \<Rightarrow> u64 list \<Rightarrow> u64 list" where
  "slide_bitmap oldLower newLower window bm =
     (let difference = newLower - oldLower in
      if difference \<ge> window then replicate (length bm) 0
      else foldl (\<lambda>bm offset. bitmap_clear bm ((oldLower + word_of_nat offset) mod window)) bm
             [0 ..< unat difference])"

definition insertBitmapV3Locked :: "replay_state \<Rightarrow> u64 \<Rightarrow> u64 list \<Rightarrow> u64 list" where
  "insertBitmapV3Locked r sequence bm =
     (let bm = (if rs_initialized r \<and> sequence > rs_highest r
                then slide_bitmap (replayLowerBoundV1 (rs_highest r) (rs_window r))
                       (replayLowerBoundV1 sequence (rs_window r)) (rs_window r) bm
                else bm)
      in bitmap_set bm (sequence mod rs_window r))"

definition pruneV1Locked :: "replay_state \<Rightarrow> replay_state" where
  "pruneV1Locked r =
     r\<lparr>rs_seen := filter (\<lambda>s. \<not> s < replayLowerBoundV1 (rs_highest r) (rs_window r)) (rs_seen r)\<rparr>"

definition CommitAuthenticated :: "replay_state \<Rightarrow> u64 \<Rightarrow> sec_error + replay_state" where
  "CommitAuthenticated r sequence = guard_result (checkV1Locked r sequence)
     (let r' = (case rs_bitmap r of
                  Some bm \<Rightarrow> r\<lparr>rs_bitmap := Some (insertBitmapV3Locked r sequence bm)\<rparr>
                | None \<Rightarrow> r\<lparr>rs_seen := List.insert sequence (rs_seen r)\<rparr>);
          r' = (if \<not> rs_initialized r' \<or> sequence > rs_highest r' then r'\<lparr>rs_highest := sequence\<rparr> else r')
      in Inr (pruneV1Locked (r'\<lparr>rs_initialized := True\<rparr>)))"

definition Plausible :: "replay_state \<Rightarrow> u64 \<Rightarrow> sec_error option" where
  "Plausible r sequence = checkV1Locked r sequence"

definition onesCount :: "u64 \<Rightarrow> nat" where
  "onesCount w = length (filter (bit w) [0 ..< 64])"

definition seenCountV3Locked :: "replay_state \<Rightarrow> int" where
  "seenCountV3Locked r = (case rs_bitmap r of None \<Rightarrow> int (length (rs_seen r))
     | Some bm \<Rightarrow> int (sum_list (map onesCount bm)))"

record replay_metadata =
  rm_Policy :: string
  rm_WindowSize :: u32
  rm_Initialized :: bool
  rm_Highest :: u64
  rm_SeenCount :: int

definition MetadataV1 :: "replay_state \<Rightarrow> replay_metadata" where
  "MetadataV1 r = \<lparr>rm_Policy = rs_policy r, rm_WindowSize = ucast (rs_window r),
     rm_Initialized = rs_initialized r, rm_Highest = rs_highest r, rm_SeenCount = seenCountV3Locked r\<rparr>"

section \<open>What a window promises\<close>

text \<open>
  The verdict on a sequence number after a history \<open>A\<close> of accepted ones, in unbounded
  arithmetic: never seen before, and within the reach of the policy.
\<close>

definition highest_of :: "nat set \<Rightarrow> nat" where
  "highest_of A = Max A"

definition reorder_accepts :: "string \<Rightarrow> nat \<Rightarrow> nat set \<Rightarrow> nat \<Rightarrow> bool" where
  "reorder_accepts policy w A s \<longleftrightarrow> s \<notin> A \<and>
     (if policy = ''ordered_only'' then s = (if A = {} then 0 else Suc (highest_of A))
      else if policy = ''bounded_reorder'' then
        (if A = {} then s \<le> w else highest_of A < s + w \<and> s \<le> highest_of A + w)
      else policy = ''windowed_replay'' \<and> (A = {} \<or> highest_of A < s + w))"

fun commit_run :: "('s \<Rightarrow> u64 \<Rightarrow> 'e + 's) \<Rightarrow> 's \<Rightarrow> u64 list \<Rightarrow> 'e option list" where
  "commit_run commit st [] = []"
| "commit_run commit st (s # ss) =
     (case commit st s of Inl e \<Rightarrow> Some e # commit_run commit st ss
      | Inr st' \<Rightarrow> None # commit_run commit st' ss)"

fun commit_state :: "('s \<Rightarrow> u64 \<Rightarrow> 'e + 's) \<Rightarrow> 's \<Rightarrow> u64 list \<Rightarrow> 's" where
  "commit_state commit st [] = st"
| "commit_state commit st (s # ss) =
     (case commit st s of Inl e \<Rightarrow> commit_state commit st ss | Inr st' \<Rightarrow> commit_state commit st' ss)"

definition accepted_of :: "u64 list \<Rightarrow> 'e option list \<Rightarrow> u64 list" where
  "accepted_of ss vs = map fst (filter (\<lambda>(s, v). v = None) (zip ss vs))"

locale replay_backend =
  fixes policy :: string and w :: nat
    and rep :: "'s \<Rightarrow> nat set \<Rightarrow> bool"
    and check :: "'s \<Rightarrow> u64 \<Rightarrow> 'e option"
    and commit :: "'s \<Rightarrow> u64 \<Rightarrow> 'e + 's"
  assumes check_iff: "rep st A \<Longrightarrow> check st s = None \<longleftrightarrow> reorder_accepts policy w A (unat s)"
    and commit_rejected: "check st s = Some e \<Longrightarrow> commit st s = Inl e"
    and commit_accepted: "rep st A \<Longrightarrow> check st s = None \<Longrightarrow>
      \<exists>st'. commit st s = Inr st' \<and> rep st' (insert (unat s) A)"
begin

text \<open>A run accepts no sequence that the history holds, and none twice.\<close>

lemma run_fresh:
  "rep st A \<Longrightarrow> distinct (accepted_of ss (commit_run commit st ss)) \<and>
     unat ` set (accepted_of ss (commit_run commit st ss)) \<inter> A = {}"
proof (induction ss arbitrary: st A)
  case Nil
  then show ?case by (simp add: accepted_of_def)
next
  case (Cons s ss)
  show ?case
  proof (cases "check st s")
    case None
    obtain st' where st': "commit st s = Inr st'" "rep st' (insert (unat s) A)"
      using commit_accepted [OF Cons.prems None] by blast
    have fresh: "unat s \<notin> A" using check_iff [OF Cons.prems] None by (simp add: reorder_accepts_def)
    note ih = Cons.IH [OF st'(2)]
    have "s \<notin> set (accepted_of ss (commit_run commit st' ss))" using ih by auto
    then show ?thesis using ih fresh st'(1) by (auto simp: accepted_of_def)
  next
    case (Some e)
    then show ?thesis using Cons.IH [OF Cons.prems] commit_rejected [OF Some] by (simp add: accepted_of_def)
  qed
qed

text \<open>After a run the state stands for the old history and the accepted sequences.\<close>

lemma run_rep:
  "rep st A \<Longrightarrow> rep (commit_state commit st ss) (A \<union> unat ` set (accepted_of ss (commit_run commit st ss)))"
proof (induction ss arbitrary: st A)
  case Nil
  then show ?case by (simp add: accepted_of_def)
next
  case (Cons s ss)
  show ?case
  proof (cases "check st s")
    case None
    obtain st' where st': "commit st s = Inr st'" "rep st' (insert (unat s) A)"
      using commit_accepted [OF Cons.prems None] by blast
    show ?thesis using Cons.IH [OF st'(2)] st'(1) by (simp add: accepted_of_def)
  next
    case (Some e)
    then show ?thesis using Cons.IH [OF Cons.prems] commit_rejected [OF Some] by (simp add: accepted_of_def)
  qed
qed

text \<open>The verdict on one sequence is the one the history calls for.\<close>

lemma step_verdict:
  "rep st A \<Longrightarrow> (\<exists>st'. commit st s = Inr st') \<longleftrightarrow> reorder_accepts policy w A (unat s)"
  using check_iff [of st A s] commit_accepted [of st A s] commit_rejected [of st s]
  by (cases "check st s") auto

end

section \<open>Words and bits\<close>

lemma unat_lower:
  assumes "1 \<le> unat w"
  shows "unat (replayLowerBoundV1 h w) = Suc (unat h) - unat w"
proof (cases "unat h < unat w")
  case True
  then show ?thesis by (simp add: replayLowerBoundV1_def word_less_nat_alt)
next
  case False
  then have d: "unat (h - w) = unat h - unat w" by (simp add: unat_sub word_le_nat_alt)
  have "unat h < 2 ^ 64" using unsigned_less [where w = h and 'a = nat] by simp
  then have "unat (h - w) + 1 < 2 ^ 64" using d assms False by simp
  then have "unat (h - w + 1) = unat (h - w) + 1" by (simp add: unat_word_ariths(1))
  then show ?thesis using False d by (simp add: replayLowerBoundV1_def word_less_nat_alt)
qed

lemma bitmap_bit_nat: "bitmap_bit bm r \<longleftrightarrow> bit (bm ! (unat r div 64)) (unat r mod 64)"
  unfolding bitmap_bit_def bit_iff_and_push_bit_not_eq_0 by (simp add: unat_div_distrib unat_mod_distrib)

definition bm_get :: "u64 list \<Rightarrow> nat \<Rightarrow> bool" where
  "bm_get bm n \<longleftrightarrow> bit (bm ! (n div 64)) (n mod 64)"

lemma bm_get_set:
  assumes "unat r < 64 * length bm" and "n < 64 * length bm"
  shows "bm_get (bitmap_set bm r) n \<longleftrightarrow> n = unat r \<or> bm_get bm n"
proof -
  have d: "unat r div 64 < length bm" "n div 64 < length bm"
    using assms by (simp_all add: less_mult_imp_div_less mult.commute)
  show ?thesis
  proof (cases "n div 64 = unat r div 64")
    case True
    have "n = unat r \<longleftrightarrow> n mod 64 = unat r mod 64" using True by (metis div_mult_mod_eq)
    then show ?thesis
      using True d by (auto simp: bm_get_def bitmap_set_def unat_div_distrib unat_mod_distrib bit_or_iff bit_exp_iff)
  next
    case False
    then show ?thesis
      using d by (auto simp: bm_get_def bitmap_set_def unat_div_distrib nth_list_update)
  qed
qed

lemma bm_get_clear:
  assumes "unat r < 64 * length bm" and "n < 64 * length bm"
  shows "bm_get (bitmap_clear bm r) n \<longleftrightarrow> n \<noteq> unat r \<and> bm_get bm n"
proof -
  have d: "unat r div 64 < length bm" "n div 64 < length bm"
    using assms by (simp_all add: less_mult_imp_div_less mult.commute)
  show ?thesis
  proof (cases "n div 64 = unat r div 64")
    case True
    have "n = unat r \<longleftrightarrow> n mod 64 = unat r mod 64" using True by (metis div_mult_mod_eq)
    then show ?thesis
      using True d by (auto simp: bm_get_def bitmap_clear_def unat_div_distrib unat_mod_distrib bit_and_iff
          bit_not_iff bit_exp_iff)
  next
    case False
    then show ?thesis
      using d by (auto simp: bm_get_def bitmap_clear_def unat_div_distrib nth_list_update)
  qed
qed

lemma length_bitmap_ops [simp]: "length (bitmap_set bm r) = length bm" "length (bitmap_clear bm r) = length bm"
  by (simp_all add: bitmap_set_def bitmap_clear_def)

lemma bm_get_fold_clear:
  assumes "\<And>k. k \<in> set ks \<Longrightarrow> unat (f k) < 64 * length bm" and "n < 64 * length bm"
  shows "bm_get (foldl (\<lambda>bm k. bitmap_clear bm (f k)) bm ks) n \<longleftrightarrow> (\<forall>k \<in> set ks. n \<noteq> unat (f k)) \<and> bm_get bm n"
  using assms
proof (induction ks arbitrary: bm)
  case Nil
  then show ?case by simp
next
  case (Cons k ks)
  have "bm_get (foldl (\<lambda>bm k. bitmap_clear bm (f k)) (bitmap_clear bm (f k)) ks) n \<longleftrightarrow>
      (\<forall>k \<in> set ks. n \<noteq> unat (f k)) \<and> bm_get (bitmap_clear bm (f k)) n"
    using Cons.prems by (intro Cons.IH) simp_all
  moreover have "bm_get (bitmap_clear bm (f k)) n \<longleftrightarrow> n \<noteq> unat (f k) \<and> bm_get bm n"
    using Cons.prems by (intro bm_get_clear) simp_all
  ultimately show ?case by auto
qed

lemma length_fold_clear [simp]: "length (foldl (\<lambda>bm k. bitmap_clear bm (f k)) bm ks) = length bm"
  by (induction ks arbitrary: bm) simp_all

section \<open>The verdict depends on the history\<close>

text \<open>What both storages have in common: policy, window, the highest sequence of the history.\<close>

definition base_rep :: "replay_state \<Rightarrow> nat set \<Rightarrow> bool" where
  "base_rep r A \<longleftrightarrow> finite A \<and> 2 \<le> unat (rs_window r) \<and> unat (rs_window r) \<le> 4096 \<and>
     rs_policy r \<in> {''ordered_only'', ''bounded_reorder'', ''windowed_replay''} \<and>
     (rs_initialized r \<longleftrightarrow> A \<noteq> {}) \<and> (A \<noteq> {} \<longrightarrow> unat (rs_highest r) = highest_of A)"

definition in_window :: "nat \<Rightarrow> nat set \<Rightarrow> nat \<Rightarrow> bool" where
  "in_window w A s \<longleftrightarrow> s \<in> A \<and> highest_of A < s + w"

lemma below_lower:
  assumes "1 \<le> unat w"
  shows "s < replayLowerBoundV1 h w \<longleftrightarrow> unat s + unat w \<le> unat h"
  using unat_lower [OF assms, of h] by (auto simp: word_less_nat_alt)

lemma ordered_None:
  assumes "base_rep r A"
  shows "checkOrderedV1Locked r s = None \<longleftrightarrow> unat s = (if A = {} then 0 else Suc (highest_of A))"
proof (cases "A = {}")
  case True
  then show ?thesis using assms by (auto simp: base_rep_def checkOrderedV1Locked_def unsigned_eq_0_iff)
next
  case False
  have h: "unat (rs_highest r) = highest_of A" "rs_initialized r" using assms False by (simp_all add: base_rep_def)
  show ?thesis
  proof (cases "rs_highest r = - 1")
    case True
    then have "highest_of A = 2 ^ 64 - 1" using h by (simp add: unsigned_minus_1_eq_mask mask_eq_exp_minus_1)
    moreover have "unat s < 2 ^ 64" using unsigned_less [where w = s and 'a = nat] by simp
    ultimately show ?thesis using h False True by (simp add: checkOrderedV1Locked_def)
  next
    case no: False
    have "unat (- 1 :: u64) = 2 ^ 64 - 1" by (simp add: unsigned_minus_1_eq_mask mask_eq_exp_minus_1)
    then have "unat (rs_highest r) \<noteq> 2 ^ 64 - 1" using no by (metis unsigned_word_eqI)
    moreover have "unat (rs_highest r) < 2 ^ 64" using unsigned_less [where w = "rs_highest r" and 'a = nat] by simp
    ultimately have "unat (rs_highest r + 1) = Suc (highest_of A)" using h by (simp add: unat_word_ariths(1))
    then show ?thesis
      using h False no by (auto simp: checkOrderedV1Locked_def Let_def word_unat_eq_iff)
  qed
qed

lemma bounded_None:
  assumes "base_rep r A"
  shows "checkBoundedV1Locked r s = None \<longleftrightarrow>
    (if A = {} then unat s \<le> unat (rs_window r)
     else highest_of A < unat s + unat (rs_window r) \<and> unat s \<le> highest_of A + unat (rs_window r))"
proof -
  have low: "s < replayLowerBoundV1 (rs_highest r) (rs_window r) \<longleftrightarrow> unat s + unat (rs_window r) \<le> unat (rs_highest r)"
    using assms by (intro below_lower) (simp add: base_rep_def)
  have "unat (s - rs_highest r) = unat s - unat (rs_highest r)" if "\<not> s \<le> rs_highest r"
    using that by (intro unat_sub) simp
  then show ?thesis
    using assms low by (auto simp: base_rep_def checkBoundedV1Locked_def word_le_nat_alt word_less_nat_alt)
qed

lemma windowed_None:
  assumes "base_rep r A"
  shows "checkWindowedV1Locked r s = None \<longleftrightarrow> A = {} \<or> highest_of A < unat s + unat (rs_window r)"
proof -
  have "s < replayLowerBoundV1 (rs_highest r) (rs_window r) \<longleftrightarrow> unat s + unat (rs_window r) \<le> unat (rs_highest r)"
    using assms by (intro below_lower) (simp add: base_rep_def)
  then show ?thesis
    using assms by (auto simp: base_rep_def checkWindowedV1Locked_def word_less_nat_alt)
qed

lemma check_None:
  assumes "base_rep r A" and "containsV3Locked r s \<longleftrightarrow> in_window (unat (rs_window r)) A (unat s)"
  shows "checkV1Locked r s = None \<longleftrightarrow> reorder_accepts (rs_policy r) (unat (rs_window r)) A (unat s)"
proof -
  have max: "a \<le> highest_of A" if "a \<in> A" for a using assms(1) that by (simp add: base_rep_def highest_of_def)
  show ?thesis
    using assms(1) ordered_None [OF assms(1), of s] bounded_None [OF assms(1), of s] windowed_None [OF assms(1), of s]
      max [of "unat s"]
    by (auto simp: checkV1Locked_def assms(2) in_window_def reorder_accepts_def base_rep_def replay_policies)
qed

section \<open>Both storages represent the history\<close>

definition map_rep :: "string \<Rightarrow> nat \<Rightarrow> replay_state \<Rightarrow> nat set \<Rightarrow> bool" where
  "map_rep policy w r A \<longleftrightarrow> base_rep r A \<and> rs_policy r = policy \<and> unat (rs_window r) = w \<and>
     rs_bitmap r = None \<and> (\<forall>s. s \<in> set (rs_seen r) \<longleftrightarrow> in_window w A (unat s))"

definition bits_rep :: "string \<Rightarrow> nat \<Rightarrow> replay_state \<Rightarrow> nat set \<Rightarrow> bool" where
  "bits_rep policy w r A \<longleftrightarrow> base_rep r A \<and> rs_policy r = policy \<and> unat (rs_window r) = w \<and>
     (\<exists>bm. rs_bitmap r = Some bm \<and> w \<le> 64 * length bm \<and>
        (\<forall>n < w. bm_get bm n \<longleftrightarrow> (\<exists>a. in_window w A a \<and> a mod w = n)))"

lemma highest_of_insert:
  "finite A \<Longrightarrow> highest_of (insert s A) = (if A = {} then s else max s (highest_of A))"
  by (simp add: highest_of_def)

lemma le_highest_of: "finite A \<Longrightarrow> a \<in> A \<Longrightarrow> a \<le> highest_of A"
  by (simp add: highest_of_def)

lemma unat_add_small: "unat a + k < 2 ^ 64 \<Longrightarrow> unat (a + word_of_nat k :: u64) = unat a + k"
  by (simp add: unat_word_ariths(1) unat_of_nat mod_add_right_eq)

text \<open>Two numbers less than \<open>w\<close> apart with the same residue are equal.\<close>

lemma same_residue: "(x :: nat) \<le> y \<Longrightarrow> y < x + w \<Longrightarrow> x mod w = y mod w \<Longrightarrow> x = y"
proof (rule ccontr)
  assume "x \<le> y" "y < x + w" "x mod w = y mod w" "x \<noteq> y"
  then have "w dvd y - x" by (metis mod_eq_dvd_iff_nat)
  moreover have "0 < y - x" "y - x < w" using \<open>x \<le> y\<close> \<open>y < x + w\<close> \<open>x \<noteq> y\<close> by simp_all
  ultimately show False by (simp add: nat_dvd_not_less)
qed

lemma bits_contains:
  assumes "bits_rep policy w r A"
  shows "containsV3Locked r s \<longleftrightarrow> in_window w A (unat s)"
proof -
  obtain bm where bm: "rs_bitmap r = Some bm"
      "\<And>n. n < w \<Longrightarrow> bm_get bm n \<longleftrightarrow> (\<exists>a. in_window w A a \<and> a mod w = n)"
    using assms by (auto simp: bits_rep_def)
  have b: "base_rep r A" "unat (rs_window r) = w" "2 \<le> w" "finite A" using assms by (auto simp: bits_rep_def base_rep_def)
  have low: "s < replayLowerBoundV1 (rs_highest r) (rs_window r) \<longleftrightarrow> unat s + w \<le> unat (rs_highest r)"
    using below_lower [of "rs_window r" s "rs_highest r"] b by simp
  show ?thesis
  proof (cases "A \<noteq> {} \<and> unat s \<le> highest_of A \<and> highest_of A < unat s + w")
    case True
    then have h: "unat (rs_highest r) = highest_of A" "rs_initialized r" using b by (simp_all add: base_rep_def)
    have "unat (s mod rs_window r) = unat s mod w" using b(2) by (simp add: unat_mod_distrib)
    then have "containsV3Locked r s \<longleftrightarrow> bm_get bm (unat s mod w)"
      using True h low by (simp add: containsV3Locked_def bm(1) bitmap_bit_nat bm_get_def word_less_nat_alt)
    also have "\<dots> \<longleftrightarrow> (\<exists>a. in_window w A a \<and> a mod w = unat s mod w)" using bm(2) [of "unat s mod w"] b(3) by simp
    also have "\<dots> \<longleftrightarrow> in_window w A (unat s)"
    proof
      assume "\<exists>a. in_window w A a \<and> a mod w = unat s mod w"
      then obtain a where a: "a \<in> A" "highest_of A < a + w" "a mod w = unat s mod w" by (auto simp: in_window_def)
      have "a \<le> highest_of A" using le_highest_of b(4) a(1) by blast
      then have "a = unat s" using same_residue [of a "unat s" w] same_residue [of "unat s" a w] a True by fastforce
      then show "in_window w A (unat s)" using a by (simp add: in_window_def)
    qed auto
    finally show ?thesis .
  next
    case False
    then have "\<not> in_window w A (unat s)" using le_highest_of [OF b(4), of "unat s"] by (auto simp: in_window_def)
    moreover have "\<not> containsV3Locked r s"
      using False b(1) low by (auto simp: containsV3Locked_def bm(1) base_rep_def word_less_nat_alt)
    ultimately show ?thesis by simp
  qed
qed

lemma slide_bits:
  assumes b: "base_rep r A" "A \<noteq> {}" "unat (rs_window r) = w" and s: "unat s > highest_of A"
    and bm: "w \<le> 64 * length bm" "\<forall>n < w. bm_get bm n \<longleftrightarrow> (\<exists>a. in_window w A a \<and> a mod w = n)" and n: "n < w"
  shows "bm_get (slide_bitmap (replayLowerBoundV1 (rs_highest r) (rs_window r))
      (replayLowerBoundV1 s (rs_window r)) (rs_window r) bm) n \<longleftrightarrow> (\<exists>a \<in> A. unat s < a + w \<and> a mod w = n)"
proof -
  let ?old = "replayLowerBoundV1 (rs_highest r) (rs_window r)" and ?new = "replayLowerBoundV1 s (rs_window r)"
  define h where "h = highest_of A"
  have h: "unat (rs_highest r) = h" "2 \<le> w" "finite A" using b by (auto simp: base_rep_def h_def)
  have le: "a \<in> A \<Longrightarrow> a \<le> h" for a using le_highest_of [OF h(3)] by (simp add: h_def)
  have old: "unat ?old = Suc h - w" using unat_lower [of "rs_window r" "rs_highest r"] b(3) h by simp
  have new: "unat ?new = Suc (unat s) - w" using unat_lower [of "rs_window r" s] b(3) h by simp
  have sh: "h < unat s" using s by (simp add: h_def)
  have d: "unat (?new - ?old) = unat ?new - unat ?old"
    using old new sh by (intro unat_sub) (simp add: word_le_nat_alt)
  show ?thesis
  proof (cases "w \<le> unat ?new - unat ?old")
    case True
    have "\<not> bm_get (replicate (length bm) 0) n"
      using n bm(1) by (simp add: bm_get_def less_mult_imp_div_less mult.commute)
    moreover have "\<not> (\<exists>a \<in> A. unat s < a + w \<and> a mod w = n)"
    proof
      assume "\<exists>a \<in> A. unat s < a + w \<and> a mod w = n"
      then obtain a where "a \<le> h" "unat s < a + w" using le by blast
      then show False using True h(2) unfolding old new by linarith
    qed
    ultimately show ?thesis using True d b(3) by (simp add: slide_bitmap_def word_le_nat_alt)
  next
    case False
    let ?f = "\<lambda>k. (?old + word_of_nat k) mod rs_window r"
    have f: "unat (?f k) = (unat ?old + k) mod w" if "k < unat ?new - unat ?old" for k
    proof -
      have "unat ?new < 2 ^ 64" using unsigned_less [where w = ?new and 'a = nat] by simp
      then have "unat (?old + word_of_nat k) = unat ?old + k" using that by (intro unat_add_small) simp
      then show ?thesis using b(3) by (simp add: unat_mod_distrib)
    qed
    have "bm_get (foldl (\<lambda>bm k. bitmap_clear bm (?f k)) bm [0 ..< unat (?new - ?old)]) n \<longleftrightarrow>
        (\<forall>k \<in> set [0 ..< unat (?new - ?old)]. n \<noteq> unat (?f k)) \<and> bm_get bm n"
    proof (rule bm_get_fold_clear)
      show "unat (?f k) < 64 * length bm" if "k \<in> set [0 ..< unat (?new - ?old)]" for k
      proof -
        have "unat (?f k) = (unat ?old + k) mod w" using that d by (intro f) simp
        moreover have "(unat ?old + k) mod w < w" using h(2) by simp
        ultimately show ?thesis using bm(1) by linarith
      qed
      show "n < 64 * length bm" using n bm(1) by simp
    qed
    also have "\<dots> \<longleftrightarrow> (\<forall>k < unat ?new - unat ?old. n \<noteq> (unat ?old + k) mod w) \<and>
        (\<exists>a. in_window w A a \<and> a mod w = n)"
      using bm(2) n f d by auto
    also have "\<dots> \<longleftrightarrow> (\<exists>a \<in> A. unat s < a + w \<and> a mod w = n)" (is "?l \<longleftrightarrow> ?r")
    proof
      assume l: ?l
      then obtain a where a: "a \<in> A" "h < a + w" "a mod w = n" by (auto simp: in_window_def h_def)
      have "unat s < a + w"
      proof (rule ccontr)
        assume "\<not> unat s < a + w"
        then have "a - unat ?old < unat ?new - unat ?old" "unat ?old + (a - unat ?old) = a"
          using a(2) old new sh by simp_all
        then show False using l a(3) by metis
      qed
      then show ?r using a by blast
    next
      assume ?r
      then obtain a where a: "a \<in> A" "unat s < a + w" "a mod w = n" by blast
      have "n \<noteq> (unat ?old + k) mod w" if k: "k < unat ?new - unat ?old" for k
      proof
        assume "n = (unat ?old + k) mod w"
        moreover have "unat ?old + k \<le> a" "a < unat ?old + k + w" using k a(2) le [OF a(1)] old new by simp_all
        ultimately have "unat ?old + k = a" using same_residue [of "unat ?old + k" a w] a(3) by simp
        then show False using k a(2) new by simp
      qed
      then show ?l using a sh by (auto simp: in_window_def h_def)
    qed
    finally show ?thesis using False d b(3) by (simp add: slide_bitmap_def word_le_nat_alt)
  qed
qed

section \<open>Committing\<close>

text \<open>The state after an accepted commit, before pruning and apart from the storage.\<close>

lemma commit_base:
  assumes "base_rep r A" and "CommitAuthenticated r s = Inr r'"
  shows "base_rep r' (insert (unat s) A) \<and> rs_policy r' = rs_policy r \<and> rs_window r' = rs_window r \<and>
    unat (rs_highest r') = highest_of (insert (unat s) A)"
proof -
  have f: "finite A" using assms(1) by (simp add: base_rep_def)
  have "r' = pruneV1Locked ((let q = (case rs_bitmap r of
                  Some bm \<Rightarrow> r\<lparr>rs_bitmap := Some (insertBitmapV3Locked r s bm)\<rparr>
                | None \<Rightarrow> r\<lparr>rs_seen := List.insert s (rs_seen r)\<rparr>) in
      if \<not> rs_initialized q \<or> s > rs_highest q then q\<lparr>rs_highest := s\<rparr> else q)\<lparr>rs_initialized := True\<rparr>)"
    using assms(2) by (auto simp: CommitAuthenticated_def guard_result_eq_Inr Let_def)
  then have r': "rs_policy r' = rs_policy r" "rs_window r' = rs_window r" "rs_initialized r'"
      "rs_highest r' = (if \<not> rs_initialized r \<or> s > rs_highest r then s else rs_highest r)"
    by (auto simp: pruneV1Locked_def Let_def split: option.splits)
  have "unat (rs_highest r') = highest_of (insert (unat s) A)"
    using assms(1) r'(4) highest_of_insert [OF f, of "unat s"]
    by (auto simp: base_rep_def word_less_nat_alt max_def)
  then show ?thesis using assms(1) r'(1-3) by (simp add: base_rep_def)
qed

lemma insert_in_window:
  assumes "finite A" and "reorder_accepts policy w A s" and "1 \<le> w"
  shows "in_window w (insert s A) a \<longleftrightarrow> a = s \<or> a \<in> A \<and> highest_of (insert s A) < a + w"
proof -
  have "highest_of (insert s A) < s + w" if "A \<noteq> {}"
    using assms that le_highest_of [OF assms(1)]
    by (auto simp: reorder_accepts_def highest_of_insert split: if_splits)
  moreover have "highest_of (insert s A) < s + w" if "A = {}"
    using that assms(3) by (simp add: highest_of_def)
  ultimately show ?thesis by (auto simp: in_window_def)
qed

lemma map_commit:
  assumes "map_rep policy w r A" and "checkV1Locked r s = None"
  shows "\<exists>r'. CommitAuthenticated r s = Inr r' \<and> map_rep policy w r' (insert (unat s) A)"
proof -
  obtain r' where r': "CommitAuthenticated r s = Inr r'" using assms(2) by (auto simp: CommitAuthenticated_def Let_def)
  have b: "base_rep r A" "rs_policy r = policy" "unat (rs_window r) = w" "rs_bitmap r = None"
      "\<And>x. x \<in> set (rs_seen r) \<longleftrightarrow> in_window w A (unat x)" "2 \<le> w" "finite A"
    using assms(1) by (auto simp: map_rep_def base_rep_def)
  note c = commit_base [OF b(1) r']
  have acc: "reorder_accepts policy w A (unat s)"
    using check_None [OF b(1), of s] assms(2) b by (simp add: containsV3Locked_def)
  have seen: "rs_bitmap r' = None"
      "rs_seen r' = filter (\<lambda>x. \<not> x < replayLowerBoundV1 (rs_highest r') (rs_window r)) (List.insert s (rs_seen r))"
    using r' b(4) assms(2) by (auto simp: CommitAuthenticated_def pruneV1Locked_def Let_def split: if_splits)
  have up: "highest_of A \<le> highest_of (insert (unat s) A)" if "A \<noteq> {}"
    using that b(7) by (simp add: highest_of_insert)
  have "x \<in> set (rs_seen r') \<longleftrightarrow> in_window w (insert (unat s) A) (unat x)" for x
  proof -
    have "x \<in> set (rs_seen r') \<longleftrightarrow>
        (x = s \<or> in_window w A (unat x)) \<and> highest_of (insert (unat s) A) < unat x + w"
      using below_lower [of "rs_window r" x "rs_highest r'"] b(3,5,6) c by (auto simp: seen(2))
    also have "\<dots> \<longleftrightarrow> (unat x = unat s \<or> unat x \<in> A) \<and> highest_of (insert (unat s) A) < unat x + w"
    proof (cases "unat x \<in> A")
      case True
      then have "highest_of A \<le> highest_of (insert (unat s) A)" using up by blast
      then show ?thesis using True by (auto simp: in_window_def)
    next
      case False
      then show ?thesis by (auto simp: in_window_def word_unat_eq_iff)
    qed
    finally show ?thesis by (auto simp: in_window_def)
  qed
  then have "map_rep policy w r' (insert (unat s) A)" using c b(2,3) seen(1) by (simp add: map_rep_def)
  then show ?thesis using r' by blast
qed

lemma insert_bitmap_length [simp]: "length (insertBitmapV3Locked r s bm) = length bm"
  by (simp add: insertBitmapV3Locked_def slide_bitmap_def Let_def)

lemma bits_commit:
  assumes "bits_rep policy w r A" and "checkV1Locked r s = None"
  shows "\<exists>r'. CommitAuthenticated r s = Inr r' \<and> bits_rep policy w r' (insert (unat s) A)"
proof -
  obtain r' where r': "CommitAuthenticated r s = Inr r'" using assms(2) by (auto simp: CommitAuthenticated_def Let_def)
  obtain bm where bm: "rs_bitmap r = Some bm" "w \<le> 64 * length bm"
      "\<forall>n < w. bm_get bm n \<longleftrightarrow> (\<exists>a. in_window w A a \<and> a mod w = n)"
    using assms(1) by (auto simp: bits_rep_def)
  have b: "base_rep r A" "rs_policy r = policy" "unat (rs_window r) = w" "2 \<le> w" "finite A"
    using assms(1) by (auto simp: bits_rep_def base_rep_def)
  note c = commit_base [OF b(1) r']
  have acc: "reorder_accepts policy w A (unat s)"
    using check_None [OF b(1), of s] assms(2) b bits_contains [OF assms(1), of s] by simp
  let ?top = "highest_of (insert (unat s) A)"
  let ?bm = "insertBitmapV3Locked r s bm"
  have bm': "rs_bitmap r' = Some ?bm"
    using r' bm(1) assms(2) by (auto simp: CommitAuthenticated_def pruneV1Locked_def Let_def split: if_splits)
  define slid where "slid = (if rs_initialized r \<and> s > rs_highest r
    then slide_bitmap (replayLowerBoundV1 (rs_highest r) (rs_window r))
      (replayLowerBoundV1 s (rs_window r)) (rs_window r) bm else bm)"
  have ins: "?bm = bitmap_set slid (s mod rs_window r)" by (simp add: insertBitmapV3Locked_def slid_def Let_def)
  have len: "length slid = length bm" by (simp add: slid_def slide_bitmap_def Let_def)
  have slid: "bm_get slid n \<longleftrightarrow> (\<exists>a \<in> A. ?top < a + w \<and> a mod w = n)" if n: "n < w" for n
  proof (cases "A \<noteq> {} \<and> highest_of A < unat s")
    case True
    then have "rs_initialized r" "s > rs_highest r" "?top = unat s"
      using b by (simp_all add: base_rep_def word_less_nat_alt highest_of_insert)
    then show ?thesis using slide_bits [OF b(1) _ b(3) _ bm(2,3) n, of s] True by (simp add: slid_def)
  next
    case False
    then have "slid = bm" using b(1) by (auto simp: slid_def base_rep_def word_less_nat_alt)
    moreover have "(\<exists>a. in_window w A a \<and> a mod w = n) \<longleftrightarrow> (\<exists>a \<in> A. ?top < a + w \<and> a mod w = n)"
    proof (cases "A = {}")
      case True
      then show ?thesis by (simp add: in_window_def)
    next
      case ne: False
      then have "?top = highest_of A" using False b(5) by (simp add: highest_of_insert)
      then show ?thesis by (auto simp: in_window_def)
    qed
    ultimately show ?thesis using bm(3) n by simp
  qed
  have res: "unat (s mod rs_window r) = unat s mod w" using b(3) by (simp add: unat_mod_distrib)
  have "unat s mod w < w" using b(4) by simp
  then have "unat s mod w < 64 * length bm" using bm(2) by (rule less_le_trans)
  then have "bm_get ?bm n \<longleftrightarrow> n = unat s mod w \<or> bm_get slid n" if "n < w" for n
    using that bm_get_set [of "s mod rs_window r" slid n] res bm(2) len by (simp add: ins)
  then have "bm_get ?bm n \<longleftrightarrow> (\<exists>a. in_window w (insert (unat s) A) a \<and> a mod w = n)" if "n < w" for n
    using that slid insert_in_window [OF b(5) acc] b(4) by auto
  then have "bits_rep policy w r' (insert (unat s) A)"
    using c b(2,3) bm' bm(2) by (simp add: bits_rep_def)
  then show ?thesis using r' by blast
qed

lemma commit_rejected: "checkV1Locked r s = Some e \<Longrightarrow> CommitAuthenticated r s = Inl e"
  by (simp add: CommitAuthenticated_def)

interpretation map_window: replay_backend policy w "map_rep policy w" checkV1Locked CommitAuthenticated
  for policy w
proof
  show "checkV1Locked r s = None \<longleftrightarrow> reorder_accepts policy w A (unat s)" if "map_rep policy w r A" for r A s
    using that check_None [of r A s] by (simp add: map_rep_def containsV3Locked_def)
qed (auto intro: commit_rejected map_commit)

interpretation bits_window: replay_backend policy w "bits_rep policy w" checkV1Locked CommitAuthenticated
  for policy w
proof
  show "checkV1Locked r s = None \<longleftrightarrow> reorder_accepts policy w A (unat s)" if "bits_rep policy w r A" for r A s
    using that check_None [of r A s] bits_contains [OF that, of s] by (simp add: bits_rep_def)
qed (auto intro: commit_rejected bits_commit)

lemma window_size:
  assumes "2 \<le> n" and "n \<le> 4096"
  shows "unat (word_of_int n :: u64) = nat n"
proof -
  have "take_bit 64 n = n" using assms by (simp add: take_bit_int_eq_self)
  then show ?thesis by (simp add: unsigned_of_int)
qed

lemma new_map_rep:
  assumes "NewReplayWindowV1 policy n = Inr r"
  shows "map_rep policy (nat n) r {}"
  using assms window_size [of n]
  by (auto simp: NewReplayWindowV1_def guard_result_eq_Inr validateReplayPolicyV1_def map_rep_def
      base_rep_def in_window_def replay_policies split: if_splits)

lemma new_bits_rep:
  assumes "validateReplayPolicyV1 policy n = None"
  shows "bits_rep policy (nat n) (arena_window policy n) {}"
proof -
  have n: "2 \<le> n" "n \<le> 4096" using assms by (auto simp: validateReplayPolicyV1_def split: if_splits)
  have "n \<le> 64 * ((n + 63) div 64)" by presburger
  then have len: "nat n \<le> 64 * nat ((n + 63) div 64)" by linarith
  have "\<not> bm_get (replicate (nat ((n + 63) div 64)) 0) k" if "k < nat n" for k
    using that len by (simp add: bm_get_def less_mult_imp_div_less mult.commute)
  then show ?thesis
    using assms window_size [OF n] len n
    by (auto simp: bits_rep_def base_rep_def arena_window_def in_window_def validateReplayPolicyV1_def
        replay_policies split: if_splits)
qed

text \<open>Two states of the same history give the same verdict, error kind included.\<close>

lemma same_verdict:
  assumes "map_rep policy w m A" and "bits_rep policy w b A"
  shows "checkV1Locked m s = checkV1Locked b s"
proof -
  have "containsV3Locked m s = containsV3Locked b s"
    using assms(1) bits_contains [OF assms(2), of s] by (simp add: map_rep_def containsV3Locked_def)
  moreover have "rs_policy m = rs_policy b" "rs_window m = rs_window b" "rs_initialized m = rs_initialized b"
    "rs_initialized m \<Longrightarrow> rs_highest m = rs_highest b"
    using assms by (auto simp: map_rep_def bits_rep_def base_rep_def intro: unsigned_word_eqI [where 'a = nat])
  ultimately show ?thesis
    by (cases "rs_initialized m") (simp_all add: checkV1Locked_def checkOrderedV1Locked_def
        checkBoundedV1Locked_def checkWindowedV1Locked_def Let_def)
qed

lemma same_run:
  "map_rep policy w m A \<Longrightarrow> bits_rep policy w b A \<Longrightarrow>
   commit_run CommitAuthenticated m ss = commit_run CommitAuthenticated b ss"
proof (induction ss arbitrary: m b A)
  case Nil
  then show ?case by simp
next
  case (Cons s ss)
  note v = same_verdict [OF Cons.prems, of s]
  show ?case
  proof (cases "checkV1Locked m s")
    case None
    obtain m' where m': "CommitAuthenticated m s = Inr m'" "map_rep policy w m' (insert (unat s) A)"
      using map_commit [OF Cons.prems(1) None] by blast
    obtain b' where b': "CommitAuthenticated b s = Inr b'" "bits_rep policy w b' (insert (unat s) A)"
      using bits_commit [OF Cons.prems(2)] None v by auto
    show ?thesis using Cons.IH [OF m'(2) b'(2)] m'(1) b'(1) by simp
  next
    case (Some e)
    then have "CommitAuthenticated m s = Inl e" "CommitAuthenticated b s = Inl e"
      using v by (simp_all add: commit_rejected)
    then show ?thesis using Cons.IH [OF Cons.prems] by simp
  qed
qed

section \<open>The legacy window\<close>

record legacy_window =
  lw_WindowSize :: int
  lw_Policy :: string
  lw_highest :: u64
  lw_seen :: "u64 list"

definition NewReplayWindow :: "string \<Rightarrow> int \<Rightarrow> legacy_window" where
  "NewReplayWindow policy windowSize =
     \<lparr>lw_WindowSize = (if windowSize \<le> 0 then 64 else windowSize),
      lw_Policy = (if policy = '''' then ''ordered_only'' else policy),
      lw_highest = 0, lw_seen = []\<rparr>"

definition checkLocked :: "legacy_window \<Rightarrow> u64 \<Rightarrow> sec_error option" where
  "checkLocked r seq =
     (let w = word_of_int (lw_WindowSize r) :: u64 in
      if seq = 0 then Some ErrReplay
      else if seq \<in> set (lw_seen r) then Some ErrReplay
      else if lw_Policy r = ''ordered_only'' \<or> lw_Policy r = ''strict_no_reorder'' then
        (if seq \<noteq> lw_highest r + 1 then Some ErrReplay else None)
      else if lw_Policy r = ''bounded_reorder'' \<or> lw_Policy r = ''windowed_replay'' then
        (if lw_highest r = 0 then (if seq > w then Some ErrReplay else None)
         else if seq > lw_highest r + w then Some ErrReplay
         else if seq + w \<le> lw_highest r then Some ErrReplay else None)
      else Some ErrInvalidConfig)"

definition precheck :: "legacy_window \<Rightarrow> u64 \<Rightarrow> sec_error option" where
  "precheck r seq = checkLocked r seq"

definition commit :: "legacy_window \<Rightarrow> u64 \<Rightarrow> sec_error + legacy_window" where
  "commit r seq = guard_result (checkLocked r seq)
     (let top = (if seq > lw_highest r then seq else lw_highest r) in
      Inr (r\<lparr>lw_highest := top,
        lw_seen := filter (\<lambda>old. \<not> old + word_of_int (lw_WindowSize r) \<le> top) (List.insert seq (lw_seen r))\<rparr>))"

definition Accept :: "legacy_window \<Rightarrow> u64 \<Rightarrow> sec_error + legacy_window" where
  "Accept r seq = commit r seq"

text \<open>Every accepted sequence is remembered or too old, in the wrapping sums of the source.\<close>

definition legacy_inv :: "u64 set \<Rightarrow> legacy_window \<Rightarrow> bool" where
  "legacy_inv A r \<longleftrightarrow> 0 \<notin> A \<and> (\<forall>a \<in> A. a \<le> lw_highest r \<and>
     (a \<in> set (lw_seen r) \<or> a + word_of_int (lw_WindowSize r) \<le> lw_highest r))"

lemma word_le_Suc_zero: "(h :: u64) + 1 \<le> h \<Longrightarrow> h + 1 = 0"
proof -
  assume le: "h + 1 \<le> h"
  have "\<not> unat h + 1 < 2 ^ 64"
  proof
    assume "unat h + 1 < 2 ^ 64"
    then have "unat (h + 1) = unat h + 1" by (simp add: unat_word_ariths(1))
    then show False using le by (simp add: word_le_nat_alt)
  qed
  moreover have "unat h < 2 ^ 64" using unsigned_less [where w = h and 'a = nat] by simp
  ultimately have "unat h + 1 = 2 ^ 64" by simp
  then have "unat (h + 1) = 0" by (simp add: unat_word_ariths(1))
  then show "h + 1 = 0" by (simp add: unsigned_eq_0_iff)
qed

lemma legacy_fresh:
  assumes "legacy_inv A r" and "checkLocked r s = None"
  shows "s \<notin> A"
proof
  assume s: "s \<in> A"
  then have le: "s \<le> lw_highest r" "s \<noteq> 0" using assms(1) by (auto simp: legacy_inv_def)
  then have "s \<noteq> lw_highest r + 1" using word_le_Suc_zero [of "lw_highest r"] by auto
  moreover have "lw_highest r \<noteq> 0" using le by auto
  ultimately show False using assms s by (auto simp: checkLocked_def Let_def legacy_inv_def split: if_splits)
qed

lemma legacy_commit:
  assumes "legacy_inv A r" and "commit r s = Inr r'"
  shows "legacy_inv (insert s A) r'"
proof -
  let ?w = "word_of_int (lw_WindowSize r) :: u64" and ?top = "if s > lw_highest r then s else lw_highest r"
  have c: "checkLocked r s = None" and r': "r' = r\<lparr>lw_highest := ?top,
      lw_seen := filter (\<lambda>old. \<not> old + ?w \<le> ?top) (List.insert s (lw_seen r))\<rparr>"
    using assms(2) by (auto simp: commit_def guard_result_eq_Inr Let_def)
  have "s \<noteq> 0" using c by (auto simp: checkLocked_def Let_def split: if_splits)
  moreover have "lw_highest r \<le> ?top" "s \<le> ?top" by auto
  moreover have "a \<le> ?top \<and> (a \<in> set (lw_seen r') \<or> a + ?w \<le> ?top)" if "a \<in> A" for a
  proof -
    have "a \<le> lw_highest r" "a \<in> set (lw_seen r) \<or> a + ?w \<le> lw_highest r"
      using assms(1) that by (auto simp: legacy_inv_def)
    then show ?thesis using \<open>lw_highest r \<le> ?top\<close> order_trans by (auto simp: r')
  qed
  ultimately show ?thesis using assms(1) by (auto simp: legacy_inv_def r')
qed

lemma legacy_run:
  "legacy_inv A r \<Longrightarrow> distinct (accepted_of ss (commit_run commit r ss)) \<and>
     set (accepted_of ss (commit_run commit r ss)) \<inter> A = {}"
proof (induction ss arbitrary: r A)
  case Nil
  then show ?case by (simp add: accepted_of_def)
next
  case (Cons s ss)
  show ?case
  proof (cases "commit r s")
    case (Inr r')
    then have "s \<notin> A" using legacy_fresh [OF Cons.prems] by (auto simp: commit_def guard_result_eq_Inr)
    moreover note Cons.IH [OF legacy_commit [OF Cons.prems Inr]]
    ultimately show ?thesis using Inr by (auto simp: accepted_of_def)
  next
    case (Inl e)
    then show ?thesis using Cons.IH [OF Cons.prems] by (simp add: accepted_of_def)
  qed
qed

section \<open>Properties\<close>

text \<open>
  C27: The bitmap of the bounded constructor refines the map: for every policy and window size
  the constructor accepts and for every sequence of commits, the window of the arena gives
  the same verdicts, with the same error kinds, as the window with the map.
\<close>

theorem replay_bitmap_refines_map:
  assumes "NewReplayWindowV1 policy n = Inr m"
  shows "commit_run CommitAuthenticated (arena_window policy n) ss = commit_run CommitAuthenticated m ss"
proof -
  have "validateReplayPolicyV1 policy n = None" using assms by (auto simp: NewReplayWindowV1_def guard_result_eq_Inr)
  from same_run [OF new_map_rep [OF assms] new_bits_rep [OF this], of ss] show ?thesis by simp
qed

theorem replay_bitmap_refines_map_witness:
  "commit_run CommitAuthenticated (arena_window ''bounded_reorder'' 4) [3, 1, 3, 6, 2, 5, 100] =
     [None, None, Some ErrReplayDuplicate, None, Some ErrReplayStale, None, Some ErrReplayTooFarFuture]"
proof -
  define m where "m = (case NewReplayWindowV1 ''bounded_reorder'' 4 of Inr m \<Rightarrow> m | Inl _ \<Rightarrow> arena_window [] 0)"
  have m: "NewReplayWindowV1 ''bounded_reorder'' 4 = Inr m"
    by (simp add: m_def NewReplayWindowV1_def validateReplayPolicyV1_def replay_policies)
  have "commit_run CommitAuthenticated m [3, 1, 3, 6, 2, 5, 100] =
     [None, None, Some ErrReplayDuplicate, None, Some ErrReplayStale, None, Some ErrReplayTooFarFuture]"
    unfolding m_def by code_simp
  then show ?thesis unfolding replay_bitmap_refines_map [OF m] .
qed

text \<open>
  C28: The strict window accepts exactly what its history allows. After any run of commits, with
  \<open>A\<close> the sequences accepted so far, a further sequence is accepted if and only if it is not in
  \<open>A\<close> and the policy reaches it: the successor of the highest (or zero at the start) in order,
  within the window on both sides for bounded reordering, and anything above the lower end of
  the window for the sliding window. The arithmetic of the statement does not wrap.
\<close>

theorem replay_verdict_exact:
  assumes "NewReplayWindowV1 policy n = Inr m"
    and "A = unat ` set (accepted_of ss (commit_run CommitAuthenticated m ss))"
  shows "is_ok (CommitAuthenticated (commit_state CommitAuthenticated m ss) s) \<longleftrightarrow>
    unat s \<notin> A \<and>
    (if policy = ''ordered_only'' then unat s = (if A = {} then 0 else Suc (Max A))
     else if policy = ''bounded_reorder'' then
       (if A = {} then unat s \<le> nat n else Max A < unat s + nat n \<and> unat s \<le> Max A + nat n)
     else policy = ''windowed_replay'' \<and> (A = {} \<or> Max A < unat s + nat n))"
proof -
  have "map_rep policy (nat n) (commit_state CommitAuthenticated m ss) A"
    using map_window.run_rep [OF new_map_rep [OF assms(1)], of ss] assms(2) by simp
  from map_window.step_verdict [OF this, of s] show ?thesis
    by (simp add: reorder_accepts_def highest_of_def is_ok_iff)
qed

theorem replay_verdict_exact_witness:
  "is_ok (CommitAuthenticated (arena_window ''ordered_only'' 2) 0) \<and>
   (\<exists>m. NewReplayWindowV1 ''ordered_only'' 2 = Inr m \<and> is_ok (CommitAuthenticated m 0) \<and> \<not> is_ok (CommitAuthenticated m 1))"
proof -
  obtain m where m: "NewReplayWindowV1 ''ordered_only'' 2 = Inr m"
    by (simp add: NewReplayWindowV1_def validateReplayPolicyV1_def replay_policies)
  have "is_ok (CommitAuthenticated m 0)" "\<not> is_ok (CommitAuthenticated m 1)"
    using replay_verdict_exact [OF m, of "{}" "[]"] by (simp_all add: accepted_of_def)
  moreover have "is_ok (CommitAuthenticated (arena_window ''ordered_only'' 2) 0)" by code_simp
  ultimately show ?thesis using m by blast
qed

text \<open>
  C29: No window accepts a sequence number twice: not the strict window with its map, not the one
  with its bitmap, whatever the policy and the order of commits, and not the legacy window for
  any policy string and any window size, although its sums wrap.
\<close>

theorem replay_never_twice:
  assumes "NewReplayWindowV1 policy n = Inr m"
  shows "distinct (accepted_of ss (commit_run CommitAuthenticated m ss)) \<and>
    distinct (accepted_of ss (commit_run CommitAuthenticated (arena_window policy n) ss)) \<and>
    distinct (accepted_of ss (commit_run Accept (NewReplayWindow policy' n') ss))"
proof (intro conjI)
  have v: "validateReplayPolicyV1 policy n = None" using assms by (auto simp: NewReplayWindowV1_def guard_result_eq_Inr)
  show "distinct (accepted_of ss (commit_run CommitAuthenticated m ss))"
    using map_window.run_fresh [OF new_map_rep [OF assms]] by blast
  show "distinct (accepted_of ss (commit_run CommitAuthenticated (arena_window policy n) ss))"
    using bits_window.run_fresh [OF new_bits_rep [OF v]] by blast
  have "Accept = commit" by (rule ext)+ (simp add: Accept_def)
  moreover have "legacy_inv {} (NewReplayWindow policy' n')" by (simp add: legacy_inv_def)
  ultimately show "distinct (accepted_of ss (commit_run Accept (NewReplayWindow policy' n') ss))"
    using legacy_run by metis
qed

theorem replay_never_twice_witness:
  "accepted_of [1, 1, 2] (commit_run Accept (NewReplayWindow '''' 0) [1, 1, 2]) = [1, 2] \<and>
   distinct (accepted_of [1, 1, 2] (commit_run CommitAuthenticated (arena_window ''windowed_replay'' 8) [1, 1, 2]))"
proof -
  obtain m where m: "NewReplayWindowV1 ''windowed_replay'' 8 = Inr m"
    by (simp add: NewReplayWindowV1_def validateReplayPolicyV1_def replay_policies)
  have "accepted_of [1, 1, 2] (commit_run Accept (NewReplayWindow '''' 0) [1, 1, 2]) = [1, 2]" by code_simp
  then show ?thesis using replay_never_twice [OF m] by blast
qed

end
