(* ===== verification/Capabilities.thy ===== *)
theory Capabilities
  imports Security_Base "HOL-Library.List_Lexorder" "HOL-Library.Char_ord"
begin

text \<open>
  Capability negotiation of \<open>internal/crypto/security/capabilities.go\<close> and the downgrade check
  of \<open>compatibility.go\<close>: the canonical forms of a capability list and the bilateral selection
  that both peers compute on their own. A Go map used as a set is the list of its keys; where
  the source ranges over such a map it sorts the result, so the order of the keys is irrelevant.
\<close>

section \<open>Operations\<close>

record bilateral_input =
  bi_LocalOffer :: "string list"
  bi_PeerOffer :: "string list"
  bi_LocalFloor :: "string list"
  bi_PeerFloor :: "string list"
  bi_CapabilityNegotiationPolicy :: string
  bi_DowngradePolicy :: string
  bi_LocalSuite :: suite
  bi_PeerSuite :: suite
  bi_LocalTranscriptMode :: string
  bi_PeerTranscriptMode :: string

definition DefaultCapabilities :: "string list" where
  "DefaultCapabilities =
    [''multi_stream'', ''proxy_semantics'', ''carrier_abstraction'', ''adapter_interface'',
     ''carrier_loss_recovery'', ''carrier_backpressure'', ''generated_backend'',
     ''transcript_binding'', ''replay_window'', ''nonce_schedule'']"

definition KnownCapabilities :: "string list" where
  "KnownCapabilities = DefaultCapabilities"

definition RequireCapabilities :: "string list \<Rightarrow> string list \<Rightarrow> sec_error option" where
  "RequireCapabilities required selected =
    (if list_ex (\<lambda>feature. \<not> List.member selected feature) required then Some ErrDowngrade else None)"

fun canonical_loop :: "string list \<Rightarrow> string list \<Rightarrow> sec_error + string list" where
  "canonical_loop out [] = Inr out"
| "canonical_loop out (feature # rest) =
    (if \<not> List.member KnownCapabilities feature then Inl ErrInvalidConfig
     else if List.member out feature then canonical_loop out rest
     else canonical_loop (out @ [feature]) rest)"

definition canonicalCapabilities :: "string list \<Rightarrow> sec_error + string list" where
  "canonicalCapabilities features = bind_result (canonical_loop [] features) (\<lambda>out. Inr (sort out))"

fun unique_loop :: "string list \<Rightarrow> string list \<Rightarrow> sec_error + string list" where
  "unique_loop out [] = Inr out"
| "unique_loop out (feature # rest) =
    (if \<not> List.member KnownCapabilities feature then Inl ErrInvalidConfig
     else if List.member out feature then Inl ErrInvalidConfig
     else unique_loop (out @ [feature]) rest)"

definition canonicalUniqueCapabilities :: "string list \<Rightarrow> sec_error + string list" where
  "canonicalUniqueCapabilities features = bind_result (unique_loop [] features) (\<lambda>out. Inr (sort out))"

definition validateBilateralDowngrade :: "bilateral_input \<Rightarrow> sec_error option" where
  "validateBilateralDowngrade input =
    (if \<not> SuiteSupported (bi_LocalSuite input) \<or> \<not> SuiteSupported (bi_PeerSuite input)
       then Some ErrDowngrade
     else if bi_DowngradePolicy input = ''strict_suite_and_capabilities'' then
       (if bi_LocalSuite input \<noteq> bi_PeerSuite input then Some ErrDowngrade else None)
     else if bi_DowngradePolicy input = ''strict_capabilities'' then None
     else if bi_DowngradePolicy input = ''suite_bound_transcript'' then
       (if bi_LocalSuite input \<noteq> bi_PeerSuite input \<or> bi_LocalTranscriptMode input = '''' \<or>
           bi_LocalTranscriptMode input \<noteq> bi_PeerTranscriptMode input
        then Some ErrDowngrade else None)
     else Some ErrDowngrade)"

definition SelectBilateralCapabilities :: "bilateral_input \<Rightarrow> sec_error + string list" where
  "SelectBilateralCapabilities input =
    guard_result (validateBilateralDowngrade input)
     (bind_result (canonicalUniqueCapabilities (bi_LocalOffer input)) (\<lambda>localOffer.
      bind_result (canonicalUniqueCapabilities (bi_PeerOffer input)) (\<lambda>peerOffer.
      bind_result (canonicalUniqueCapabilities (bi_LocalFloor input)) (\<lambda>localFloor.
      bind_result (canonicalUniqueCapabilities (bi_PeerFloor input)) (\<lambda>peerFloor.
        if localOffer = [] \<or> peerOffer = [] \<or> localFloor = [] \<or> peerFloor = []
        then Inl ErrDowngrade
        else
          let floorSet = remdups (localFloor @ peerFloor) in
          if list_ex (\<lambda>offer. list_ex (\<lambda>c. \<not> List.member offer c) floorSet) [localOffer, peerOffer]
          then Inl ErrDowngrade
          else if bi_CapabilityNegotiationPolicy input = ''strict_required''
            then Inr (sort floorSet)
          else if bi_CapabilityNegotiationPolicy input = ''intersection_with_required'' \<or>
              bi_CapabilityNegotiationPolicy input = ''profile_declared_required''
            then Inr (sort (filter (List.member peerOffer) localOffer))
          else Inl ErrDowngrade)))))"

definition DetectSuiteDowngrade :: "suite \<Rightarrow> suite \<Rightarrow> string \<Rightarrow> sec_error option" where
  "DetectSuiteDowngrade expected selected transcriptHash =
    (if expected \<noteq> selected then Some ErrDowngrade else None)"

section \<open>Canonical forms\<close>

lemma canonical_loop_eq:
  "canonical_loop out features =
    (if set features \<subseteq> set KnownCapabilities
     then Inr (fold (\<lambda>f out. if f \<in> set out then out else out @ [f]) features out)
     else Inl ErrInvalidConfig)"
  by (induction out features rule: canonical_loop.induct) auto

lemma fold_distinct:
  assumes "distinct out"
  shows "distinct (fold (\<lambda>f out. if f \<in> set out then out else out @ [f]) features out) \<and>
    set (fold (\<lambda>f out. if f \<in> set out then out else out @ [f]) features out) = set out \<union> set features"
  using assms by (induction features arbitrary: out) auto

text \<open>The canonical form is the sorted list of the set of known capabilities.\<close>

lemma canonicalCapabilities_eq:
  "canonicalCapabilities features =
    (if set features \<subseteq> set KnownCapabilities then Inr (sorted_list_of_set (set features))
     else Inl ErrInvalidConfig)"
  using fold_distinct [of "[]" features]
  by (simp add: canonicalCapabilities_def canonical_loop_eq sort_set_eq)

lemma unique_loop_eq:
  "unique_loop out features =
    (if set features \<subseteq> set KnownCapabilities \<and> distinct features \<and> set features \<inter> set out = {}
     then Inr (out @ features) else Inl ErrInvalidConfig)"
  by (induction out features rule: unique_loop.induct) auto

definition listed_once :: "string list \<Rightarrow> bool" where
  "listed_once features \<longleftrightarrow> set features \<subseteq> set KnownCapabilities \<and> distinct features"

lemma canonicalUniqueCapabilities_eq:
  "canonicalUniqueCapabilities features =
    (if listed_once features then Inr (sorted_list_of_set (set features)) else Inl ErrInvalidConfig)"
  by (auto simp: canonicalUniqueCapabilities_def unique_loop_eq listed_once_def sort_set_eq)

section \<open>The selection as a function of sets\<close>

text \<open>
  What two peers must agree on: from the offers and floors as sets, nothing unless both offers
  meet both floors, and then the floors or the common part of the offers, sorted.
\<close>

definition select_spec :: "string \<Rightarrow> string set \<Rightarrow> string set \<Rightarrow> string set \<Rightarrow> string set \<Rightarrow> sec_error + string list" where
  "select_spec policy offerA offerB floorA floorB =
    (if offerA = {} \<or> offerB = {} \<or> floorA = {} \<or> floorB = {} \<or>
        \<not> floorA \<union> floorB \<subseteq> offerA \<inter> offerB then Inl ErrDowngrade
     else if policy = ''strict_required'' then Inr (sorted_list_of_set (floorA \<union> floorB))
     else if policy = ''intersection_with_required'' \<or> policy = ''profile_declared_required''
       then Inr (sorted_list_of_set (offerA \<inter> offerB))
     else Inl ErrDowngrade)"

lemma sorted_list_of_set_Nil_iff: "finite A \<Longrightarrow> sorted_list_of_set A = [] \<longleftrightarrow> A = {}"
  by simp

lemma select_eq_spec:
  "SelectBilateralCapabilities input =
    guard_result (validateBilateralDowngrade input)
     (if listed_once (bi_LocalOffer input) \<and> listed_once (bi_PeerOffer input) \<and>
         listed_once (bi_LocalFloor input) \<and> listed_once (bi_PeerFloor input)
      then select_spec (bi_CapabilityNegotiationPolicy input)
        (set (bi_LocalOffer input)) (set (bi_PeerOffer input))
        (set (bi_LocalFloor input)) (set (bi_PeerFloor input))
      else Inl ErrInvalidConfig)"
proof -
  have strict: "sort (remdups (sorted_list_of_set (set a) @ sorted_list_of_set (set b)))
      = sorted_list_of_set (set a \<union> set b)" for a b :: "string list"
    by (simp add: sorted_list_of_set_sort_remdups [symmetric])
  have common: "sort (filter (List.member (sorted_list_of_set (set b))) (sorted_list_of_set (set a)))
      = sorted_list_of_set (set a \<inter> set b)" for a b :: "string list"
    by (subst sort_set_eq) (auto intro: arg_cong [where f = sorted_list_of_set])
  show ?thesis
    by (cases "validateBilateralDowngrade input")
      (auto simp: SelectBilateralCapabilities_def canonicalUniqueCapabilities_eq select_spec_def
        Let_def list_ex_iff strict common simp del: remdups_append)
qed

lemma select_spec_ok:
  assumes "select_spec policy A B F G = Inr r" "finite A"
  shows "sorted r \<and> distinct r \<and> F \<union> G \<subseteq> set r \<and> set r \<subseteq> A \<inter> B \<and> r \<noteq> []
    \<and> set r = (if policy = ''strict_required'' then F \<union> G else A \<inter> B)"
proof -
  have sub: "F \<union> G \<subseteq> A \<inter> B" "F \<noteq> {}"
    using assms(1) by (auto simp: select_spec_def split: if_splits)
  then have fin: "finite (F \<union> G)" "finite (A \<inter> B)"
    using assms(2) finite_subset by auto
  have r: "r = sorted_list_of_set (if policy = ''strict_required'' then F \<union> G else A \<inter> B)"
    using assms(1) by (auto simp: select_spec_def split: if_splits)
  have "set r = (if policy = ''strict_required'' then F \<union> G else A \<inter> B)"
    unfolding r using fin by simp
  moreover have "sorted r" "distinct r"
    unfolding r by simp_all
  moreover have "set r \<noteq> {}"
    unfolding calculation(1) using sub by auto
  ultimately show ?thesis
    using sub(1) by auto
qed

definition swap_roles :: "bilateral_input \<Rightarrow> bilateral_input" where
  "swap_roles input =
    input\<lparr>bi_LocalOffer := bi_PeerOffer input, bi_PeerOffer := bi_LocalOffer input,
      bi_LocalFloor := bi_PeerFloor input, bi_PeerFloor := bi_LocalFloor input,
      bi_LocalSuite := bi_PeerSuite input, bi_PeerSuite := bi_LocalSuite input,
      bi_LocalTranscriptMode := bi_PeerTranscriptMode input,
      bi_PeerTranscriptMode := bi_LocalTranscriptMode input\<rparr>"

lemma downgrade_symmetric: "validateBilateralDowngrade (swap_roles input) = validateBilateralDowngrade input"
  by (auto simp: validateBilateralDowngrade_def swap_roles_def)

section \<open>Properties\<close>

text \<open>
  C34: Both peers select the same capabilities, or refuse with the same error: the selection does
  not change when local and peer inputs are exchanged.
\<close>

theorem capability_selection_agrees:
  "SelectBilateralCapabilities (swap_roles input) = SelectBilateralCapabilities input"
  by (simp add: select_eq_spec downgrade_symmetric)
    (auto simp: swap_roles_def select_spec_def Un_commute Int_commute)

text \<open>
  C35: A selection is sound: it is sorted, lists each capability once, contains both mandatory
  floors and nothing that a peer did not offer, and is reached only under equal supported
  suites; under the strict policy it is exactly the floors, otherwise exactly the common offer.
\<close>

theorem capability_selection_sound:
  assumes "SelectBilateralCapabilities input = Inr selected"
  shows "sorted selected \<and> distinct selected
    \<and> set (bi_LocalFloor input) \<union> set (bi_PeerFloor input) \<subseteq> set selected
    \<and> set selected \<subseteq> set (bi_LocalOffer input) \<inter> set (bi_PeerOffer input)
    \<and> set selected \<subseteq> set KnownCapabilities \<and> selected \<noteq> []
    \<and> bi_LocalSuite input = DefaultSuite \<and> bi_PeerSuite input = DefaultSuite
    \<and> set selected = (if bi_CapabilityNegotiationPolicy input = ''strict_required''
        then set (bi_LocalFloor input) \<union> set (bi_PeerFloor input)
        else set (bi_LocalOffer input) \<inter> set (bi_PeerOffer input))"
proof -
  have suites: "bi_LocalSuite input = DefaultSuite" "bi_PeerSuite input = DefaultSuite"
    using assms
    by (auto simp: select_eq_spec result_simps validateBilateralDowngrade_def SuiteSupported_def
      split: if_splits)
  have known: "set (bi_LocalOffer input) \<subseteq> set KnownCapabilities"
    and spec: "select_spec (bi_CapabilityNegotiationPolicy input) (set (bi_LocalOffer input))
      (set (bi_PeerOffer input)) (set (bi_LocalFloor input)) (set (bi_PeerFloor input)) = Inr selected"
    using assms by (simp_all add: select_eq_spec result_simps listed_once_def split: if_splits)
  note ok = select_spec_ok [OF spec finite_set]
  then have "set selected \<subseteq> set KnownCapabilities"
    using known by (meson le_inf_iff subset_trans)
  then show ?thesis
    using ok suites by (intro conjI) blast+
qed

definition sample_bilateral :: bilateral_input where
  "sample_bilateral =
    \<lparr> bi_LocalOffer = [''replay_window'', ''multi_stream'', ''nonce_schedule''],
      bi_PeerOffer = [''multi_stream'', ''replay_window''],
      bi_LocalFloor = [''replay_window''], bi_PeerFloor = [''multi_stream''],
      bi_CapabilityNegotiationPolicy = ''intersection_with_required'',
      bi_DowngradePolicy = ''suite_bound_transcript'',
      bi_LocalSuite = DefaultSuite, bi_PeerSuite = DefaultSuite,
      bi_LocalTranscriptMode = ''canonical_v1'', bi_PeerTranscriptMode = ''canonical_v1'' \<rparr>"

theorem capability_selection_sound_witness:
  "SelectBilateralCapabilities sample_bilateral = Inr [''multi_stream'', ''replay_window'']
    \<and> sorted [''multi_stream'', ''replay_window'']"
proof -
  have "SelectBilateralCapabilities sample_bilateral = Inr [''multi_stream'', ''replay_window'']"
    by code_simp
  then show ?thesis
    using capability_selection_sound by blast
qed

end
