(* ===== verification/Effective_Policy.thy ===== *)
theory Effective_Policy
  imports IR_Validate "HOL-Library.List_Lexorder" "HOL-Library.Char_ord"
begin

text \<open>
  The effective security policy of \<open>internal/protocol/ir\<close>: what a session runs under once the
  profile is validated and the capabilities are negotiated (\<open>BuildEffectiveSecurityPolicy\<close> and
  \<open>ValidateEffectiveSecurityPolicy\<close> of \<open>validate.go\<close>, the projection of
  \<open>effective_projection_v1.go\<close>), and the version tuples and decoders of
  \<open>migration_v1.go\<close>. \<open>sort.Strings\<close> is the library's \<open>sort\<close> under the
  lexicographic order of strings by byte.
\<close>

section \<open>Capabilities\<close>

fun capability_errors :: "string option \<Rightarrow> string list \<Rightarrow> ir_error option" where
  "capability_errors previous [] = None"
| "capability_errors previous (c # cs) =
    (if c = [] \<or> c \<notin> set SecurityCapabilities
       then Some ''effective security policy: unknown capability''
     else if previous = Some c then Some ''effective security policy: duplicate capability''
     else capability_errors (Some c) cs)"

definition canonicalEffectiveCapabilities :: "string list \<Rightarrow> ir_error + string list" where
  "canonicalEffectiveCapabilities values =
    guard_result (capability_errors None (sort values)) (Inr (sort values))"

definition below_floor :: "string list \<Rightarrow> string list list \<Rightarrow> bool" where
  "below_floor selected floors \<longleftrightarrow>
    list_ex (\<lambda>floor. list_ex (\<lambda>c. \<not> List.member selected c) floor) floors"

definition effectivePolicyHash :: "ir_env \<Rightarrow> effective_security_policy \<Rightarrow> ir_error + bytes" where
  "effectivePolicyHash env policy =
    (case json_effective env policy of None \<Rightarrow> Inl ''json'' | Some raw \<Rightarrow> Inr (sha256 env raw))"

section \<open>Validation\<close>

definition effective_security :: "effective_security_policy \<Rightarrow> security_policy" where
  "effective_security policy =
    \<lparr> sec_SecurityVersion = eff_SecurityVersion policy,
      sec_TranscriptMode = eff_TranscriptMode policy,
      sec_KDFSuite = eff_KDFSuite policy, sec_AEADSuite = eff_AEADSuite policy,
      sec_MACSuite = eff_MACSuite policy, sec_NonceMode = eff_NonceMode policy,
      sec_ReplayPolicy = eff_ReplayPolicy policy,
      sec_ReplayWindowSize = eff_ReplayWindowSize policy,
      sec_DowngradePolicy = eff_DowngradePolicy policy,
      sec_CapabilityNegotiationPolicy = eff_CapabilityNegotiationPolicy policy,
      sec_ProfileCompatibilityPolicy = eff_ProfileCompatibilityPolicy policy,
      sec_KeyRotationPolicy = eff_KeyRotationPolicy policy,
      sec_ConfigValidationPolicy = eff_ConfigValidationPolicy policy,
      sec_SecureEnvelopeMode = eff_SecureEnvelopeMode policy,
      sec_MaxSessionMessages = eff_MaxSessionMessages policy,
      sec_MaxKeyLifetimeMessages = eff_MaxKeyLifetimeMessages policy \<rparr>"

definition canonical_list :: "string list \<Rightarrow> bool" where
  "canonical_list values =
    (case canonicalEffectiveCapabilities values of
       Inl _ \<Rightarrow> False
     | Inr canonical \<Rightarrow> canonical \<noteq> [] \<and> values = canonical)"

definition profile_hash_valid :: "string \<Rightarrow> bool" where
  "profile_hash_valid h =
    (case hex_decode h of
       None \<Rightarrow> False
     | Some raw \<Rightarrow> length raw = 32 \<and> foldl (OR) 0 raw \<noteq> 0)"

definition ValidateEffectiveSecurityPolicy ::
    "ir_env \<Rightarrow> effective_security_policy \<Rightarrow> ir_error option" where
  "ValidateEffectiveSecurityPolicy env policy =
    or_else (first_error [
      (eff_ProfileID policy = '''' \<or> eff_SchemaVersion policy \<noteq> SupportedVersion \<or>
       eff_CompilerSecurityVersion policy = '''' \<or> eff_MinimumRuntimeVersion policy = '''',
       ''invalid effective security policy identity''),
      (\<not> profile_hash_valid (eff_ProfileHash policy),
       ''invalid effective security policy profile hash'')])
    (or_else (validateSecurityPolicy (effective_security policy))
    (or_else (first_error [
      (\<not> list_all canonical_list [eff_ClientMandatoryCapabilities policy,
         eff_ServerMandatoryCapabilities policy, eff_SelectedCapabilities policy],
       ''invalid effective security policy capabilities''),
      (below_floor (eff_SelectedCapabilities policy) [eff_ClientMandatoryCapabilities policy,
         eff_ServerMandatoryCapabilities policy],
       ''invalid effective security policy floor'')])
    (case effectivePolicyHash env policy of
       Inl _ \<Rightarrow> Some ''invalid or mutated effective security policy''
     | Inr want \<Rightarrow> first_error [(eff_validationHash policy \<noteq> want,
         ''invalid or mutated effective security policy'')])))"

section \<open>Construction\<close>

definition effective_policy ::
    "string \<Rightarrow> string \<Rightarrow> string \<Rightarrow> string \<Rightarrow> string \<Rightarrow> security_policy \<Rightarrow>
      string list \<Rightarrow> string list \<Rightarrow> string list \<Rightarrow> effective_security_policy" where
  "effective_policy ident hash schema compiler runtime sec client server selection =
    \<lparr> eff_ProfileID = ident, eff_ProfileHash = hash, eff_SchemaVersion = schema,
      eff_CompilerSecurityVersion = compiler, eff_MinimumRuntimeVersion = runtime,
      eff_SecurityVersion = sec_SecurityVersion sec,
      eff_TranscriptMode = sec_TranscriptMode sec,
      eff_KDFSuite = sec_KDFSuite sec, eff_AEADSuite = sec_AEADSuite sec,
      eff_MACSuite = sec_MACSuite sec, eff_NonceMode = sec_NonceMode sec,
      eff_ReplayPolicy = sec_ReplayPolicy sec,
      eff_ReplayWindowSize = sec_ReplayWindowSize sec,
      eff_DowngradePolicy = sec_DowngradePolicy sec,
      eff_CapabilityNegotiationPolicy = sec_CapabilityNegotiationPolicy sec,
      eff_ProfileCompatibilityPolicy = sec_ProfileCompatibilityPolicy sec,
      eff_KeyRotationPolicy = sec_KeyRotationPolicy sec,
      eff_ConfigValidationPolicy = sec_ConfigValidationPolicy sec,
      eff_SecureEnvelopeMode = sec_SecureEnvelopeMode sec,
      eff_MaxSessionMessages = sec_MaxSessionMessages sec,
      eff_MaxKeyLifetimeMessages = sec_MaxKeyLifetimeMessages sec,
      eff_ClientMandatoryCapabilities = client, eff_ServerMandatoryCapabilities = server,
      eff_SelectedCapabilities = selection, eff_validationHash = replicate 32 0 \<rparr>"

definition BuildEffectiveSecurityPolicy ::
    "ir_env \<Rightarrow> profile option \<Rightarrow> string list \<Rightarrow> string list \<Rightarrow> string list \<Rightarrow>
      ir_error + effective_security_policy" where
  "BuildEffectiveSecurityPolicy env pr clientFloor serverFloor selected =
    guard_result (Validate env pr)
     (bind_result (canonicalEffectiveCapabilities clientFloor) (\<lambda>client.
      bind_result (canonicalEffectiveCapabilities serverFloor) (\<lambda>server.
      bind_result (canonicalEffectiveCapabilities selected) (\<lambda>selection.
      guard_result (first_error [
        (client = [] \<or> server = [] \<or> selection = [],
         ''effective security policy: empty mandatory floor or selection''),
        (below_floor selection [client, server],
         ''effective security policy: selection below mandatory floor'')])
      (bind_result (CanonicalHash env pr) (\<lambda>profileHash.
       (let p = the pr;
            policy = effective_policy (pr_ID p) profileHash
              (cm_SchemaVersion (pr_Compatibility p))
              (cm_CompilerSecurityVersion (pr_Compatibility p))
              (cm_MinimumRuntimeVersion (pr_Compatibility p)) (pr_Security p)
              client server selection
        in bind_result (effectivePolicyHash env policy) (\<lambda>h.
             let policy = policy\<lparr>eff_validationHash := h\<rparr> in
             guard_result (ValidateEffectiveSecurityPolicy env policy) (Inr policy)))))))))"

definition allZeroProjectionV1 :: "bytes \<Rightarrow> bool" where
  "allZeroProjectionV1 v \<longleftrightarrow> foldl (OR) 0 v = 0"

text \<open>All errors of the projection carry one text.\<close>

definition projection_capabilities :: "string list \<Rightarrow> ir_error + string list" where
  "projection_capabilities values =
    (case canonicalEffectiveCapabilities values of
       Inl _ \<Rightarrow> Inl ''effective security projection is invalid''
     | Inr c \<Rightarrow> if c = [] then Inl ''effective security projection is invalid'' else Inr c)"

definition BuildEffectiveSecurityPolicyFromProjectionV1 ::
    "ir_env \<Rightarrow> bytes \<Rightarrow> bytes \<Rightarrow> string \<Rightarrow> string \<Rightarrow> security_policy \<Rightarrow>
      string list \<Rightarrow> string list \<Rightarrow> string list \<Rightarrow> ir_error + effective_security_policy" where
  "BuildEffectiveSecurityPolicyFromProjectionV1 env programID sourceGenerationHash
      compilerSecurityVersion minimumRuntimeVersion security clientMandatory relayMandatory selected =
    (let invalid = ''effective security projection is invalid'' in
     guard_result (first_error [
       (allZeroProjectionV1 programID \<or> allZeroProjectionV1 sourceGenerationHash \<or>
        compilerSecurityVersion = '''' \<or> minimumRuntimeVersion = '''', invalid),
       (validateSecurityPolicy security \<noteq> None, invalid)])
     (bind_result (projection_capabilities clientMandatory) (\<lambda>client.
      bind_result (projection_capabilities relayMandatory) (\<lambda>relay.
      bind_result (projection_capabilities selected) (\<lambda>selection.
      guard_result (first_error [(below_floor selection [client, relay], invalid)])
      (let policy = effective_policy (hex_encode programID) (hex_encode sourceGenerationHash)
             SupportedVersion compilerSecurityVersion minimumRuntimeVersion security
             client relay selection
       in case effectivePolicyHash env policy of
            Inl _ \<Rightarrow> Inl invalid
          | Inr h \<Rightarrow>
              let policy = policy\<lparr>eff_validationHash := h\<rparr> in
              if ValidateEffectiveSecurityPolicy env policy \<noteq> None then Inl invalid
              else Inr policy))))))"

section \<open>Version tuples and migration\<close>

datatype migration_error = ErrProfileMalformed | ErrProfileVersionUnsupported
  | ErrProfileVersionMismatch | ErrMigrationRequired | ErrProfileInvalid | ErrProfileMismatch

datatype tuple_class = tupleInvalidV1 | tupleLegacyV1 | tupleCurrentV1 | tupleMixedV1
  | tupleUnsupportedV1

definition version_tuple :: "profile \<Rightarrow> string list" where
  "version_tuple p = [pr_Version p, cm_SchemaVersion (pr_Compatibility p),
    sec_SecurityVersion (pr_Security p), cm_CompilerSecurityVersion (pr_Compatibility p),
    cm_MinimumRuntimeVersion (pr_Compatibility p)]"

definition legacy_tuple :: "string list" where
  "legacy_tuple = [LegacySchemaVersionV1, LegacySchemaVersionV1, LegacySecurityVersionV1,
    LegacySecurityVersionV1, LegacySecurityVersionV1]"

definition current_tuple :: "string list" where
  "current_tuple = [SupportedVersion, SupportedVersion, SupportedSecurityVersion,
    SupportedSecurityVersion, SupportedSecurityVersion]"

definition classifyTupleV1 :: "profile \<Rightarrow> tuple_class" where
  "classifyTupleV1 p =
    (let v = version_tuple p in
     if list_ex (\<lambda>x. x = []) v then tupleInvalidV1
     else if list_all2 (=) v legacy_tuple then tupleLegacyV1
     else if list_all2 (=) v current_tuple then tupleCurrentV1
     else if list_all (\<lambda>(x, l, c). x = l \<or> x = c) (zip v (zip legacy_tuple current_tuple))
       then tupleMixedV1
     else tupleUnsupportedV1)"

definition setCurrentTupleV1 :: "profile \<Rightarrow> profile" where
  "setCurrentTupleV1 p =
    p\<lparr>pr_Version := SupportedVersion,
      pr_Compatibility := (pr_Compatibility p)
        \<lparr>cm_SchemaVersion := SupportedVersion,
         cm_CompilerSecurityVersion := SupportedSecurityVersion,
         cm_MinimumRuntimeVersion := SupportedSecurityVersion\<rparr>,
      pr_Security := (pr_Security p)\<lparr>sec_SecurityVersion := SupportedSecurityVersion\<rparr>\<rparr>"

text \<open>
  The token stream of \<open>json.Decoder\<close> is a parameter of the strict scan: delimiters, strings
  and other values, with \<open>JError\<close> where reading a token fails. \<open>More\<close> holds unless the
  next token closes the value or the input ends.
\<close>

datatype json_token = JDelim char | JString string | JValue | JError

definition token_more :: "json_token list \<Rightarrow> bool" where
  "token_more ts = (case ts of [] \<Rightarrow> False
    | t # _ \<Rightarrow> t \<noteq> JDelim CHR ''}'' \<and> t \<noteq> JDelim CHR '']'')"

text \<open>
  One value of the stream; \<open>None\<close> is an error. The fuel bounds the nesting and the number of
  elements together; every call reads a token, so the length of the stream suffices.
\<close>

fun scanValueV1 :: "nat \<Rightarrow> json_token list \<Rightarrow> json_token list option"
  and scan_members :: "nat \<Rightarrow> string list \<Rightarrow> json_token list \<Rightarrow> json_token list option"
  and scan_elements :: "nat \<Rightarrow> json_token list \<Rightarrow> json_token list option" where
  "scanValueV1 0 ts = None"
| "scanValueV1 (Suc fuel) [] = None"
| "scanValueV1 (Suc fuel) (JError # ts) = None"
| "scanValueV1 (Suc fuel) (JString s # ts) = Some ts"
| "scanValueV1 (Suc fuel) (JValue # ts) = Some ts"
| "scanValueV1 (Suc fuel) (JDelim c # ts) =
    (if c = CHR ''{'' then
       (case scan_members fuel [] ts of
          None \<Rightarrow> None
        | Some rest \<Rightarrow> (case rest of t # rest' \<Rightarrow> if t = JDelim CHR ''}'' then Some rest' else None
            | [] \<Rightarrow> None))
     else if c = CHR ''['' then
       (case scan_elements fuel ts of
          None \<Rightarrow> None
        | Some rest \<Rightarrow> (case rest of t # rest' \<Rightarrow> if t = JDelim CHR '']'' then Some rest' else None
            | [] \<Rightarrow> None))
     else None)"
| "scan_members 0 seen ts = None"
| "scan_members (Suc fuel) seen ts =
    (if \<not> token_more ts then Some ts
     else (case ts of
         JString key # rest \<Rightarrow>
           if List.member seen key then None
           else (case scanValueV1 fuel rest of
               None \<Rightarrow> None | Some rest' \<Rightarrow> scan_members fuel (key # seen) rest')
       | _ \<Rightarrow> None))"
| "scan_elements 0 ts = None"
| "scan_elements (Suc fuel) ts =
    (if \<not> token_more ts then Some ts
     else (case scanValueV1 fuel ts of None \<Rightarrow> None | Some rest \<Rightarrow> scan_elements fuel rest))"

definition strictJSONV1 :: "json_token list \<Rightarrow> bool" where
  "strictJSONV1 ts \<longleftrightarrow> scanValueV1 (2 * length ts + 2) ts = Some []"

record decode_env =
  json_tokens :: "bytes \<Rightarrow> json_token list"
  json_decode :: "bytes \<Rightarrow> profile option"
  json_clone :: "profile \<Rightarrow> profile option"

definition maxProfileBytesV1 :: nat where "maxProfileBytesV1 = 1048576"

definition decodeProfileSyntaxV1 :: "decode_env \<Rightarrow> bytes \<Rightarrow> migration_error + profile \<times> tuple_class" where
  "decodeProfileSyntaxV1 dec raw =
    (if raw = [] \<or> length raw > maxProfileBytesV1 then Inl ErrProfileMalformed
     else if \<not> strictJSONV1 (json_tokens dec raw) then Inl ErrProfileMalformed
     else (case json_decode dec raw of
         None \<Rightarrow> Inl ErrProfileMalformed
       | Some p \<Rightarrow> Inr (p, classifyTupleV1 p)))"

definition DecodeProfileV1 :: "ir_env \<Rightarrow> decode_env \<Rightarrow> bytes \<Rightarrow> migration_error + profile" where
  "DecodeProfileV1 env dec raw =
    bind_result (decodeProfileSyntaxV1 dec raw) (\<lambda>(p, class).
      case class of
        tupleLegacyV1 \<Rightarrow> Inl ErrMigrationRequired
      | tupleMixedV1 \<Rightarrow> Inl ErrProfileVersionMismatch
      | tupleUnsupportedV1 \<Rightarrow> Inl ErrProfileVersionUnsupported
      | tupleInvalidV1 \<Rightarrow> Inl ErrProfileMalformed
      | tupleCurrentV1 \<Rightarrow>
          if Validate env (Some p) \<noteq> None then Inl ErrProfileInvalid else Inr p)"

definition DecodeLegacyProfileForMigrationV1 ::
    "ir_env \<Rightarrow> decode_env \<Rightarrow> bytes \<Rightarrow> migration_error + profile" where
  "DecodeLegacyProfileForMigrationV1 env dec raw =
    bind_result (decodeProfileSyntaxV1 dec raw) (\<lambda>(p, class).
      case class of
        tupleCurrentV1 \<Rightarrow> Inl ErrMigrationRequired
      | tupleMixedV1 \<Rightarrow> Inl ErrProfileVersionMismatch
      | tupleUnsupportedV1 \<Rightarrow> Inl ErrProfileVersionUnsupported
      | tupleInvalidV1 \<Rightarrow> Inl ErrProfileMalformed
      | tupleLegacyV1 \<Rightarrow>
          if pr_GenerationHash p = '''' then Inl ErrProfileInvalid
          else (case CanonicalHash env (Some p) of
              Inl _ \<Rightarrow> Inl ErrProfileInvalid
            | Inr h \<Rightarrow>
                if h \<noteq> pr_GenerationHash p then Inl ErrProfileInvalid
                else (case json_clone dec p of
                    None \<Rightarrow> Inl ErrProfileInvalid
                  | Some probe \<Rightarrow>
                      if Validate env (Some ((setCurrentTupleV1 probe)\<lparr>pr_GenerationHash := ''''\<rparr>)) \<noteq> None
                      then Inl ErrProfileInvalid else Inr p)))"

text \<open>The fuel of the scan is enough: more of it does not change the result.\<close>

lemma scan_shorter:
  "scanValueV1 fuel ts = Some rest \<Longrightarrow> length rest < length ts"
  "scan_members fuel seen ts = Some rest \<Longrightarrow> length rest \<le> length ts"
  "scan_elements fuel ts = Some rest \<Longrightarrow> length rest \<le> length ts"
proof (induction fuel ts and fuel seen ts and fuel ts arbitrary: rest and rest and rest
    rule: scanValueV1_scan_members_scan_elements.induct)
  case (6 fuel c ts)
  then show ?case
    by (fastforce split: if_splits option.splits list.splits)
next
  case (8 fuel seen ts)
  then show ?case
    by (fastforce split: if_splits option.splits list.splits json_token.splits)
next
  case (10 fuel ts)
  then show ?case
    by (fastforce split: if_splits option.splits)
qed auto

lemma scan_fuel:
  "(2 * length ts + 1 \<le> fuel \<longrightarrow> scanValueV1 (Suc fuel) ts = scanValueV1 fuel ts)
    \<and> (2 * length ts + 2 \<le> fuel \<longrightarrow> scan_members (Suc fuel) seen ts = scan_members fuel seen ts)
    \<and> (2 * length ts + 2 \<le> fuel \<longrightarrow> scan_elements (Suc fuel) ts = scan_elements fuel ts)"
proof (induction fuel arbitrary: ts seen)
  case 0
  then show ?case by simp
next
  case (Suc fuel)
  have v: "scanValueV1 (Suc (Suc fuel)) ts = scanValueV1 (Suc fuel) ts" if "2 * length ts + 1 \<le> Suc fuel"
  proof (cases ts)
    case (Cons t us)
    then have "scan_members (Suc fuel) [] us = scan_members fuel [] us"
      "scan_elements (Suc fuel) us = scan_elements fuel us"
      using Suc that by simp_all
    then show ?thesis
      using Cons by (cases t) (simp_all del: scan_members.simps scan_elements.simps)
  qed simp
  have m: "scan_members (Suc (Suc fuel)) seen ts = scan_members (Suc fuel) seen ts"
    if len: "2 * length ts + 2 \<le> Suc fuel" for seen
  proof (cases "token_more ts")
    case True
    then obtain t us where ts: "ts = t # us"
      by (cases ts) (auto simp: token_more_def)
    show ?thesis
    proof (cases t)
      case (JString key)
      have "scanValueV1 (Suc fuel) us = scanValueV1 fuel us"
        using Suc len ts by simp
      moreover have "scan_members (Suc fuel) (key # seen) rest = scan_members fuel (key # seen) rest"
        if "scanValueV1 fuel us = Some rest" for rest
        using scan_shorter(1) [OF that] Suc len ts by simp
      ultimately show ?thesis
        using True ts JString
        by (subst (1 2) scan_members.simps(2)) (auto split: option.splits simp del: scan_members.simps)
    qed (use True ts in simp_all)
  qed simp
  have e: "scan_elements (Suc (Suc fuel)) ts = scan_elements (Suc fuel) ts"
    if len: "2 * length ts + 2 \<le> Suc fuel"
  proof -
    have "scanValueV1 (Suc fuel) ts = scanValueV1 fuel ts"
      using Suc len by simp
    moreover have "scan_elements (Suc fuel) rest = scan_elements fuel rest"
      if "scanValueV1 fuel ts = Some rest" for rest
      using scan_shorter(1) [OF that] Suc len by simp
    ultimately show ?thesis
      by (subst (1 2) scan_elements.simps(2)) (auto split: option.splits simp del: scan_elements.simps)
  qed
  show ?case
    using v m e by blast
qed

lemma strictJSONV1_fuel:
  assumes "2 * length ts + 1 \<le> fuel"
  shows "strictJSONV1 ts \<longleftrightarrow> scanValueV1 fuel ts = Some []"
proof -
  have "scanValueV1 (2 * length ts + 1 + n) ts = scanValueV1 (2 * length ts + 1) ts" for n
  proof (induction n)
    case (Suc n)
    then show ?case
      using scan_fuel [of ts "2 * length ts + 1 + n" "[]"] by simp
  qed simp
  from this [of 1] this [of "fuel - (2 * length ts + 1)"] show ?thesis
    using assms by (simp add: strictJSONV1_def)
qed

end
