(* ===== verification/Transcript_Encoding.thy ===== *)
theory Transcript_Encoding
  imports Capabilities Effective_Policy
begin

text \<open>
  The binary encodings of \<open>internal/crypto/security/transcript.go\<close>: string lists, the policy
  bytes that are hashed into every transcript, and the four shapes of the local mode binding;
  and the legacy canonical transcript, whose JSON marshalling is a parameter like the hash. A
  \<open>[32]byte\<close> is a byte string that the predicates of the properties require to have 32
  bytes.
\<close>

section \<open>Strings and lists\<close>

definition validateASCII :: "string \<Rightarrow> sec_error option" where
  "validateASCII v =
    (if v = [] then Some ErrInvalidTranscript
     else if list_ex (\<lambda>c. of_char c < (0x20 :: nat) \<or> of_char c > (0x7e :: nat)) v
       then Some ErrInvalidTranscript
     else None)"

definition allZero32 :: "bytes \<Rightarrow> bool" where
  "allZero32 v \<longleftrightarrow> foldl (OR) 0 v = 0"

fun list_item_error :: "string option \<Rightarrow> string list \<Rightarrow> sec_error option" where
  "list_item_error previous [] = None"
| "list_item_error previous (v # rest) =
    or_else (validateASCII v)
     (if previous = Some v then Some ErrInvalidTranscript else list_item_error (Some v) rest)"

definition encode_list :: "string list \<Rightarrow> bytes" where
  "encode_list values = writeU32 (word_of_nat (length values)) @ lp_concat (map string_bytes values)"

definition EncodeStringListV1 :: "string list \<Rightarrow> sec_error + bytes" where
  "EncodeStringListV1 values =
    (let canonical = sort values in
     guard_result (list_item_error None canonical) (Inr (encode_list canonical)))"

fun strict_item_error :: "string option \<Rightarrow> string list \<Rightarrow> sec_error option" where
  "strict_item_error previous [] = None"
| "strict_item_error previous (v # rest) =
    or_else (validateASCII v)
     (if (case previous of None \<Rightarrow> False | Some p \<Rightarrow> p \<ge> v) then Some ErrInvalidTranscript
      else strict_item_error (Some v) rest)"

definition encodeStrictStringListV1 :: "string list \<Rightarrow> sec_error + bytes" where
  "encodeStrictStringListV1 values =
    guard_result (strict_item_error None values) (Inr (encode_list values))"

section \<open>The policy\<close>

definition policy_texts :: "effective_security_policy \<Rightarrow> string list" where
  "policy_texts policy =
    [eff_SecurityVersion policy, eff_TranscriptMode policy, eff_KDFSuite policy,
     eff_AEADSuite policy, eff_MACSuite policy, eff_NonceMode policy, eff_ReplayPolicy policy]"

definition policy_rules :: "effective_security_policy \<Rightarrow> string list" where
  "policy_rules policy =
    [eff_DowngradePolicy policy, eff_CapabilityNegotiationPolicy policy,
     eff_ProfileCompatibilityPolicy policy, eff_KeyRotationPolicy policy,
     eff_ConfigValidationPolicy policy, eff_SecureEnvelopeMode policy]"

definition EncodePolicyV1 :: "ir_env \<Rightarrow> effective_security_policy \<Rightarrow> sec_error + bytes" where
  "EncodePolicyV1 env policy =
    (if ValidateEffectiveSecurityPolicy env policy \<noteq> None then Inl ErrInvalidTranscript
     else Inr (lp_concat (map string_bytes (policy_texts policy))
       @ writeU32 (word_of_int (eff_ReplayWindowSize policy))
       @ lp_concat (map string_bytes (policy_rules policy))
       @ put_be 8 (unat (word_of_int (eff_MaxSessionMessages policy) :: u64))
       @ put_be 8 (unat (word_of_int (eff_MaxKeyLifetimeMessages policy) :: u64))))"

section \<open>Mode bindings\<close>

record compatibility_block =
  cb_SchemaVersion :: string
  cb_CompilerSecurityVersion :: string
  cb_MinimumRuntimeVersion :: string
  cb_SupportedSecuritySuites :: "string list"
  cb_RequiredCapabilities :: "string list"
  cb_SupportedCarrierFamilies :: "string list"
  cb_SupportedProxyFeatures :: "string list"
  cb_SupportedStreamFeatures :: "string list"
  cb_MaxEnvelopeBytes :: u32
  cb_MaxStreamCount :: u32
  cb_MaxReplayWindow :: u32

record limit_block =
  lb_MaxFrameBytes :: u32
  lb_MaxPayloadBytes :: u32
  lb_MaxStates :: u32
  lb_MaxTransitions :: u32
  lb_MaxSessionMillis :: u64
  lb_CarrierMaxEnvelopeBytes :: u32
  lb_CarrierMaxQueueDepth :: u32
  lb_SessionMaxConcurrentStreams :: u32

record selected_suite =
  ss_KDFSuite :: string
  ss_AEADSuite :: string
  ss_MACSuite :: string

record config_source_block =
  csb_ProfileID :: string
  csb_ProfileHash :: bytes
  csb_SecurityVersion :: string
  csb_SelectedSuite :: selected_suite
  csb_EffectivePolicyHash :: bytes
  csb_SelectedCapabilityHash :: bytes
  csb_AdapterClass :: string
  csb_CompatibilityBlockHash :: bytes
  csb_LimitBlockHash :: bytes

record mode_binding =
  mb_ClientOptional :: "string list"
  mb_ServerOptional :: "string list"
  mb_FeatureVectors :: "string list"
  mb_CarrierFamily :: string
  mb_CarrierPolicyHash :: bytes
  mb_EnvelopeLimit :: u32
  mb_MaxFrameBytes :: u32
  mb_LocalAdapterClass :: string
  mb_FramingPolicyHash :: bytes
  mb_StateMachinePolicyHash :: bytes
  mb_SchedulerPolicyHash :: bytes
  mb_PaddingPolicyHash :: bytes
  mb_StreamPolicyHash :: bytes
  mb_ProxyPolicyHash :: bytes
  mb_CarrierContextHash :: bytes
  mb_CompatibilityBlock :: compatibility_block
  mb_CompatibilityBlockHash :: bytes
  mb_LimitBlock :: limit_block
  mb_LimitBlockHash :: bytes
  mb_ConfigSourceBlock :: config_source_block
  mb_ConfigSourceBlockHash :: bytes

definition TranscriptCanonicalV1 :: string where "TranscriptCanonicalV1 = ''canonical_v1''"
definition TranscriptCapabilitiesV1 :: string where
  "TranscriptCapabilitiesV1 = ''canonical_with_capabilities_v1''"
definition TranscriptCarrierBindingV1 :: string where
  "TranscriptCarrierBindingV1 = ''canonical_with_carrier_binding_v1''"
definition TranscriptFullBindingV1 :: string where
  "TranscriptFullBindingV1 = ''canonical_full_binding_v1''"

lemmas transcript_modes = TranscriptCanonicalV1_def TranscriptCapabilitiesV1_def
  TranscriptCarrierBindingV1_def TranscriptFullBindingV1_def

definition knownCarrierFamilyV1 :: "string \<Rightarrow> bool" where
  "knownCarrierFamilyV1 v \<longleftrightarrow> v = ''tls13-tcp'' \<or> List.member CarrierFamilies v"

definition adapterClasses :: "string list" where
  "adapterClasses = [''one_flow_one_stream'', ''priority_mapped_stream'',
    ''metadata_bound_stream'', ''state_derived_mapping'']"

definition writeCapabilities :: "mode_binding \<Rightarrow> sec_error + bytes" where
  "writeCapabilities b =
    (if mb_FeatureVectors b = [] then Inl ErrInvalidTranscript
     else bind_result (EncodeStringListV1 (mb_ClientOptional b)) (\<lambda>c.
          bind_result (EncodeStringListV1 (mb_ServerOptional b)) (\<lambda>s.
          bind_result (EncodeStringListV1 (mb_FeatureVectors b)) (\<lambda>f.
            Inr (writeLP c @ writeLP s @ writeLP f)))))"

definition writeCarrier :: "mode_binding \<Rightarrow> sec_error + bytes" where
  "writeCarrier b =
    guard_result (or_else (validateASCII (mb_CarrierFamily b)) (validateASCII (mb_LocalAdapterClass b)))
     (if \<not> knownCarrierFamilyV1 (mb_CarrierFamily b) \<or>
         \<not> List.member adapterClasses (mb_LocalAdapterClass b) \<or>
         allZero32 (mb_CarrierPolicyHash b) \<or> mb_EnvelopeLimit b = 0 \<or> mb_MaxFrameBytes b = 0 \<or>
         mb_EnvelopeLimit b > mb_MaxFrameBytes b \<or> mb_MaxFrameBytes b > 0x100000
      then Inl ErrInvalidTranscript
      else Inr (writeLP (string_bytes (mb_CarrierFamily b)) @ mb_CarrierPolicyHash b
        @ writeU32 (mb_EnvelopeLimit b) @ writeLP (string_bytes (mb_LocalAdapterClass b))))"

definition full_hashes :: "mode_binding \<Rightarrow> bytes list" where
  "full_hashes b = [mb_FramingPolicyHash b, mb_StateMachinePolicyHash b, mb_SchedulerPolicyHash b,
    mb_PaddingPolicyHash b, mb_StreamPolicyHash b, mb_ProxyPolicyHash b, mb_CarrierContextHash b]"

definition CanonicalHandshakeModeBinding :: "string \<Rightarrow> mode_binding \<Rightarrow> sec_error + bytes" where
  "CanonicalHandshakeModeBinding mode b =
    (let out = writeLP (string_bytes (''kurdistan/transcript/v1/'' @ mode)) in
     if mode = TranscriptCanonicalV1 then Inr out
     else if mode = TranscriptCapabilitiesV1 then
       bind_result (writeCapabilities b) (\<lambda>c. Inr (out @ c))
     else if mode = TranscriptCarrierBindingV1 then
       bind_result (writeCarrier b) (\<lambda>c. Inr (out @ c))
     else if mode = TranscriptFullBindingV1 then
       bind_result (writeCapabilities b) (\<lambda>c.
       bind_result (writeCarrier b) (\<lambda>d.
         if list_ex allZero32 (full_hashes b) then Inl ErrInvalidTranscript
         else Inr (out @ c @ d @ concat (full_hashes b))))
     else Inl ErrInvalidTranscript)"

section \<open>The legacy transcript\<close>

record transcript_input =
  ti_ProfileID :: string
  ti_ProfileHash :: string
  ti_CompilerHash :: string
  ti_SemanticMappingHash :: string
  ti_FSMPolicy :: string
  ti_FramingPolicy :: string
  ti_SchedulerPolicy :: string
  ti_PaddingPolicy :: string
  ti_StreamPolicy :: string
  ti_ProxyPolicy :: string
  ti_CarrierPolicy :: string
  ti_Capabilities :: "string list"
  ti_SessionNonce :: bytes
  ti_Suite :: suite
  ti_OrderedStatePath :: "string list"
  ti_AdditionalPolicyData :: "(string \<times> string) list"

record canonical_transcript =
  ct_Version :: string
  ct_Domain :: string
  ct_ProfileID :: string
  ct_ProfileHash :: string
  ct_CompilerHash :: string
  ct_SemanticMappingHash :: string
  ct_FSMPolicy :: string
  ct_FramingPolicy :: string
  ct_SchedulerPolicy :: string
  ct_PaddingPolicy :: string
  ct_StreamPolicy :: string
  ct_ProxyPolicy :: string
  ct_CarrierPolicy :: string
  ct_Capabilities :: "string list"
  ct_SessionNonceHex :: string
  ct_Suite :: suite
  ct_OrderedStatePath :: "string list"
  ct_Additional :: "(string \<times> string) list"

text \<open>The marshallers and the hash that the package calls; \<open>None\<close> is a marshalling error.\<close>

record sec_env =
  se_ir :: ir_env
  se_json_transcript :: "canonical_transcript \<Rightarrow> bytes option"
  se_json_strings :: "string list \<Rightarrow> bytes option"
  se_json_capabilities :: "string \<Rightarrow> string list \<Rightarrow> bytes option"

definition se_sha256 :: "sec_env \<Rightarrow> bytes \<Rightarrow> bytes" where
  "se_sha256 env = sha256 (se_ir env)"

text \<open>The keys of the map are sorted and each is paired with its value.\<close>

definition sorted_pairs :: "(string \<times> string) list \<Rightarrow> (string \<times> string) list" where
  "sorted_pairs m = map (\<lambda>k. (k, lookup_string m k)) (sort (remdups (map fst m)))"

datatype transcript_error = SecError sec_error | JsonError

definition CanonicalTranscript :: "sec_env \<Rightarrow> transcript_input \<Rightarrow> transcript_error + bytes" where
  "CanonicalTranscript env input =
    (if ti_ProfileID input = '''' \<or> ti_ProfileHash input = '''' \<or> ti_SessionNonce input = []
     then Inl (SecError ErrInvalidTranscript)
     else (case canonicalCapabilities (ti_Capabilities input) of
         Inl e \<Rightarrow> Inl (SecError e)
       | Inr caps \<Rightarrow>
           (case se_json_transcript env
              \<lparr> ct_Version = SupportedSecurityVersion, ct_Domain = ''kurdistan-transcript-v1'',
                ct_ProfileID = ti_ProfileID input, ct_ProfileHash = ti_ProfileHash input,
                ct_CompilerHash = ti_CompilerHash input,
                ct_SemanticMappingHash = ti_SemanticMappingHash input,
                ct_FSMPolicy = ti_FSMPolicy input, ct_FramingPolicy = ti_FramingPolicy input,
                ct_SchedulerPolicy = ti_SchedulerPolicy input,
                ct_PaddingPolicy = ti_PaddingPolicy input, ct_StreamPolicy = ti_StreamPolicy input,
                ct_ProxyPolicy = ti_ProxyPolicy input, ct_CarrierPolicy = ti_CarrierPolicy input,
                ct_Capabilities = caps, ct_SessionNonceHex = hex_encode (ti_SessionNonce input),
                ct_Suite = ti_Suite input, ct_OrderedStatePath = ti_OrderedStatePath input,
                ct_Additional = sorted_pairs (ti_AdditionalPolicyData input) \<rparr> of
              None \<Rightarrow> Inl JsonError | Some raw \<Rightarrow> Inr raw)))"

definition TranscriptHash :: "sec_env \<Rightarrow> transcript_input \<Rightarrow> transcript_error + string" where
  "TranscriptHash env input =
    bind_result (CanonicalTranscript env input) (\<lambda>raw. Inr (hex_encode (se_sha256 env raw)))"

definition hashStrings :: "sec_env \<Rightarrow> string list \<Rightarrow> transcript_error + string" where
  "hashStrings env parts =
    (case se_json_strings env parts of
       None \<Rightarrow> Inl JsonError | Some raw \<Rightarrow> Inr (hex_encode (se_sha256 env raw)))"

definition CapabilitySet_Hash :: "sec_env \<Rightarrow> string list \<Rightarrow> transcript_error + string" where
  "CapabilitySet_Hash env features =
    (case canonicalCapabilities features of
       Inl e \<Rightarrow> Inl (SecError e)
     | Inr caps \<Rightarrow>
         (case se_json_capabilities env ''kurdistan-capabilities-v1'' caps of
            None \<Rightarrow> Inl JsonError | Some raw \<Rightarrow> Inr (hex_encode (se_sha256 env raw))))"

section \<open>Lists are encoded by their set\<close>

lemma list_item_error_None:
  "list_item_error previous vs = None \<longleftrightarrow>
    list_all (\<lambda>v. validateASCII v = None) vs \<and> successively (\<noteq>) vs \<and>
    (vs = [] \<or> previous \<noteq> Some (hd vs))"
  by (induction previous vs rule: list_item_error.induct)
    (auto simp: result_simps successively_Cons)

lemma strict_item_error_None:
  "strict_item_error previous vs = None \<longleftrightarrow>
    list_all (\<lambda>v. validateASCII v = None) vs \<and> successively (<) vs \<and>
    (vs = [] \<or> (case previous of None \<Rightarrow> True | Some p \<Rightarrow> p < hd vs))"
  by (induction previous vs rule: strict_item_error.induct)
    (auto simp: result_simps successively_Cons not_le split: option.splits)

lemma successively_neq_sorted: "sorted vs \<Longrightarrow> successively (\<noteq>) vs \<longleftrightarrow> distinct (vs :: 'a :: linorder list)"
proof (induction vs)
  case (Cons v vs)
  then show ?case
    by (cases vs) (auto simp: order.order_iff_strict)
qed simp

lemma item_error_cases:
  "list_item_error previous vs = None \<or> list_item_error previous vs = Some ErrInvalidTranscript"
  by (induction previous vs rule: list_item_error.induct) (auto simp: validateASCII_def or_else_def)

lemma EncodeStringListV1_eq:
  "EncodeStringListV1 values =
    (if list_all (\<lambda>v. validateASCII v = None) values \<and> distinct values
     then Inr (encode_list (sort values)) else Inl ErrInvalidTranscript)"
proof -
  have "list_item_error None (sort values) = None \<longleftrightarrow>
      list_all (\<lambda>v. validateASCII v = None) values \<and> distinct values"
    by (simp add: list_item_error_None successively_neq_sorted list_all_iff)
  then show ?thesis
    using item_error_cases [of None "sort values"]
    by (auto simp: EncodeStringListV1_def Let_def)
qed

lemma encodeStrict_ok:
  "encodeStrictStringListV1 values = Inr raw \<longleftrightarrow>
    list_all (\<lambda>v. validateASCII v = None) values \<and> successively (<) values \<and> raw = encode_list values"
  by (auto simp: encodeStrictStringListV1_def result_simps strict_item_error_None)

text \<open>Lists whose encoding has no truncated length.\<close>

definition fits32 :: "bytes \<Rightarrow> bool" where
  "fits32 raw \<longleftrightarrow> length raw < 2 ^ 32"

lemma length_lp_concat_item: "v \<in> set vs \<Longrightarrow> length v \<le> length (lp_concat vs)"
  by (induction vs) auto

lemma length_lp_concat_count: "length vs \<le> length (lp_concat vs)"
  by (induction vs) auto

lemma encode_list_inj:
  assumes "fits32 (encode_list a)" "fits32 (encode_list b)"
  shows "encode_list a = encode_list b \<longleftrightarrow> a = b"
proof
  assume eq: "encode_list a = encode_list b"
  have "\<forall>v \<in> set (map string_bytes a). length v < 2 ^ 32" "\<forall>v \<in> set (map string_bytes b). length v < 2 ^ 32"
    using assms length_lp_concat_item [of _ "map string_bytes a"]
      length_lp_concat_item [of _ "map string_bytes b"]
    by (fastforce simp: fits32_def encode_list_def)+
  moreover have "lp_concat (map string_bytes a) = lp_concat (map string_bytes b)"
    using eq by (simp add: encode_list_def)
  ultimately show "a = b"
    using lp_concat_inj by force
qed simp

section \<open>The policy bytes determine the policy\<close>

lemma oneOf_length: "oneOf v allowed \<Longrightarrow> list_all (\<lambda>x. length x < 100) allowed \<Longrightarrow> length v < 4294967296"
  by (fastforce simp: oneOf_def list_ex_iff list_all_iff)

lemma policy_lengths:
  assumes "validateSecurityPolicy (effective_security p) = None" "length (eff_SecurityVersion p) < 2 ^ 32"
  shows "\<forall>v \<in> set (map string_bytes (policy_texts p)). length v < 2 ^ 32"
    "\<forall>v \<in> set (map string_bytes (policy_rules p)). length v < 2 ^ 32"
    "0 \<le> eff_ReplayWindowSize p \<and> eff_ReplayWindowSize p < 2 ^ 32"
    "0 \<le> eff_MaxSessionMessages p \<and> eff_MaxSessionMessages p < 2 ^ 64"
    "0 \<le> eff_MaxKeyLifetimeMessages p \<and> eff_MaxKeyLifetimeMessages p < 2 ^ 64"
proof -
  have lengths: "length (eff_TranscriptMode p) < 2 ^ 32" "length (eff_NonceMode p) < 2 ^ 32"
    "length (eff_ReplayPolicy p) < 2 ^ 32" "length (eff_DowngradePolicy p) < 2 ^ 32"
    "length (eff_CapabilityNegotiationPolicy p) < 2 ^ 32"
    "length (eff_ProfileCompatibilityPolicy p) < 2 ^ 32" "length (eff_KeyRotationPolicy p) < 2 ^ 32"
    "length (eff_ConfigValidationPolicy p) < 2 ^ 32" "length (eff_SecureEnvelopeMode p) < 2 ^ 32"
    using assms(1) unfolding validateSecurityPolicy_def effective_security_def
    by - (simp del: oneOf_iff, elim conjE, erule oneOf_length, simp)+
  have suites: "length (eff_KDFSuite p) < 2 ^ 32" "length (eff_AEADSuite p) < 2 ^ 32"
    "length (eff_MACSuite p) < 2 ^ 32"
    using assms(1) unfolding validateSecurityPolicy_def effective_security_def
    by - (simp del: oneOf_iff)+
  show "\<forall>v \<in> set (map string_bytes (policy_texts p)). length v < 2 ^ 32"
    "\<forall>v \<in> set (map string_bytes (policy_rules p)). length v < 2 ^ 32"
    using lengths suites assms(2) by (simp_all add: policy_texts_def policy_rules_def)
  show "0 \<le> eff_ReplayWindowSize p \<and> eff_ReplayWindowSize p < 2 ^ 32"
    "0 \<le> eff_MaxSessionMessages p \<and> eff_MaxSessionMessages p < 2 ^ 64"
    "0 \<le> eff_MaxKeyLifetimeMessages p \<and> eff_MaxKeyLifetimeMessages p < 2 ^ 64"
    using assms(1) unfolding validateSecurityPolicy_def effective_security_def
    by - (simp del: oneOf_iff)+
qed

lemma word_of_int_u32_inj:
  "0 \<le> x \<Longrightarrow> x < 2 ^ 32 \<Longrightarrow> 0 \<le> y \<Longrightarrow> y < 2 ^ 32 \<Longrightarrow>
    (word_of_int x :: u32) = word_of_int y \<longleftrightarrow> x = y"
  by (auto simp: word_of_int_eq_iff take_bit_int_eq_self)

lemma word_of_int_u64_inj:
  "0 \<le> x \<Longrightarrow> x < 2 ^ 64 \<Longrightarrow> 0 \<le> y \<Longrightarrow> y < 2 ^ 64 \<Longrightarrow>
    (word_of_int x :: u64) = word_of_int y \<longleftrightarrow> x = y"
  by (auto simp: word_of_int_eq_iff take_bit_int_eq_self)

lemma EncodePolicyV1_ok:
  assumes "EncodePolicyV1 env p = Inr raw"
  shows "validateSecurityPolicy (effective_security p) = None"
    "raw = lp_concat (map string_bytes (policy_texts p)) @ writeU32 (word_of_int (eff_ReplayWindowSize p))
       @ lp_concat (map string_bytes (policy_rules p))
       @ put_be 8 (unat (word_of_int (eff_MaxSessionMessages p) :: u64))
       @ put_be 8 (unat (word_of_int (eff_MaxKeyLifetimeMessages p) :: u64))"
  using assms by (auto simp: EncodePolicyV1_def ValidateEffectiveSecurityPolicy_def result_simps split: if_splits)

lemma policy_bytes_inj:
  assumes "EncodePolicyV1 env p = Inr raw" "EncodePolicyV1 env' q = Inr raw"
    and "length (eff_SecurityVersion p) < 2 ^ 32" "length (eff_SecurityVersion q) < 2 ^ 32"
  shows "effective_security p = effective_security q"
proof -
  note p = policy_lengths [OF EncodePolicyV1_ok(1) [OF assms(1)] assms(3)]
  note q = policy_lengths [OF EncodePolicyV1_ok(1) [OF assms(2)] assms(4)]
  have len: "length (map string_bytes (policy_texts p)) = length (map string_bytes (policy_texts q))"
    "length (map string_bytes (policy_rules p)) = length (map string_bytes (policy_rules q))"
    by (simp_all add: policy_texts_def policy_rules_def)
  have split: "x @ y = x' @ y' \<longleftrightarrow> x = x' \<and> y = y'" if "length x = length x'" for x y x' y' :: bytes
    using that by simp
  have eq: "lp_concat (map string_bytes (policy_texts p)) @ writeU32 (word_of_int (eff_ReplayWindowSize p))
       @ lp_concat (map string_bytes (policy_rules p))
       @ put_be 8 (unat (word_of_int (eff_MaxSessionMessages p) :: u64))
       @ put_be 8 (unat (word_of_int (eff_MaxKeyLifetimeMessages p) :: u64)) =
      lp_concat (map string_bytes (policy_texts q)) @ writeU32 (word_of_int (eff_ReplayWindowSize q))
       @ lp_concat (map string_bytes (policy_rules q))
       @ put_be 8 (unat (word_of_int (eff_MaxSessionMessages q) :: u64))
       @ put_be 8 (unat (word_of_int (eff_MaxKeyLifetimeMessages q) :: u64))"
    using EncodePolicyV1_ok(2) [OF assms(1)] EncodePolicyV1_ok(2) [OF assms(2)] by simp
  from eq have texts: "policy_texts p = policy_texts q"
    and rest: "writeU32 (word_of_int (eff_ReplayWindowSize p))
       @ lp_concat (map string_bytes (policy_rules p))
       @ put_be 8 (unat (word_of_int (eff_MaxSessionMessages p) :: u64))
       @ put_be 8 (unat (word_of_int (eff_MaxKeyLifetimeMessages p) :: u64)) =
      writeU32 (word_of_int (eff_ReplayWindowSize q))
       @ lp_concat (map string_bytes (policy_rules q))
       @ put_be 8 (unat (word_of_int (eff_MaxSessionMessages q) :: u64))
       @ put_be 8 (unat (word_of_int (eff_MaxKeyLifetimeMessages q) :: u64))"
    unfolding lp_concat_append_inj [OF p(1) q(1) len(1)] by simp_all
  from rest have window: "eff_ReplayWindowSize p = eff_ReplayWindowSize q"
    and rest2: "lp_concat (map string_bytes (policy_rules p))
       @ put_be 8 (unat (word_of_int (eff_MaxSessionMessages p) :: u64))
       @ put_be 8 (unat (word_of_int (eff_MaxKeyLifetimeMessages p) :: u64)) =
      lp_concat (map string_bytes (policy_rules q))
       @ put_be 8 (unat (word_of_int (eff_MaxSessionMessages q) :: u64))
       @ put_be 8 (unat (word_of_int (eff_MaxKeyLifetimeMessages q) :: u64))"
    using p(3) q(3) by (simp_all add: split word_of_int_u32_inj)
  from rest2 have rules: "policy_rules p = policy_rules q"
    and counts: "eff_MaxSessionMessages p = eff_MaxSessionMessages q"
      "eff_MaxKeyLifetimeMessages p = eff_MaxKeyLifetimeMessages q"
    using p(4,5) q(4,5) unfolding lp_concat_append_inj [OF p(2) q(2) len(2)]
    by (auto simp: word_of_int_u64_inj dest!: put_be_unat_inj)
  show ?thesis
    using texts window rules counts
    by (simp add: effective_security_def policy_texts_def policy_rules_def)
qed

lemma policy_version_fits: "EncodePolicyV1 env p = Inr raw \<Longrightarrow> length (eff_SecurityVersion p) \<le> length raw"
  by (drule EncodePolicyV1_ok(2)) (simp add: policy_texts_def)

section \<open>A concrete policy\<close>

text \<open>A constant hash and marshallers suffice to accept a policy; used by the witnesses.\<close>

definition sample_sec_env :: sec_env where
  "sample_sec_env = \<lparr> se_ir = sample_ir_env, se_json_transcript = (\<lambda>_. Some []),
    se_json_strings = (\<lambda>_. Some []), se_json_capabilities = (\<lambda>_ _. Some []) \<rparr>"

definition sample_policy :: effective_security_policy where
  "sample_policy =
    \<lparr> eff_ProfileID = ''sample'', eff_ProfileHash = hex_encode (replicate 32 1),
      eff_SchemaVersion = SupportedVersion,
      eff_CompilerSecurityVersion = SupportedSecurityVersion,
      eff_MinimumRuntimeVersion = SupportedSecurityVersion,
      eff_SecurityVersion = SupportedSecurityVersion,
      eff_TranscriptMode = ''canonical_full_binding_v1'',
      eff_KDFSuite = ''kdf_hkdf_sha256'', eff_AEADSuite = ''aead_aes_256_gcm'',
      eff_MACSuite = ''mac_hmac_sha256'', eff_NonceMode = ''directional_counter'',
      eff_ReplayPolicy = ''ordered_only'', eff_ReplayWindowSize = 2,
      eff_DowngradePolicy = ''strict_capabilities'',
      eff_CapabilityNegotiationPolicy = ''strict_required'',
      eff_ProfileCompatibilityPolicy = ''strict_schema'',
      eff_KeyRotationPolicy = ''session_only'',
      eff_ConfigValidationPolicy = ''strict_required'',
      eff_SecureEnvelopeMode = ''full_context_bound_envelope'',
      eff_MaxSessionMessages = 2, eff_MaxKeyLifetimeMessages = 2,
      eff_ClientMandatoryCapabilities = [''replay_window''],
      eff_ServerMandatoryCapabilities = [''multi_stream''],
      eff_SelectedCapabilities = [''multi_stream'', ''replay_window''],
      eff_validationHash = replicate 32 1 \<rparr>"

lemma sample_policy_valid: "ValidateEffectiveSecurityPolicy sample_ir_env sample_policy = None"
  by code_simp

end
