(* ===== verification/Envelope_V1.thy ===== *)
theory Envelope_V1
  imports Nonce_Owner Replay_Window Transcript_Encoding
begin

text \<open>
  The strict record envelope of \<open>internal/crypto/security/envelope.go\<close>,
  \<open>envelope_buffers_v3.go\<close> and \<open>bounded_storage_v3.go\<close>: a codec of one role and epoch
  that seals records under allocated nonces and opens records under expected nonces, with one
  replay window per nonce domain. AES-GCM comes from the Go library and is the parameter
  \<open>aead\<close>; what the properties rely on is the named hypothesis \<open>aead_correct\<close>.
  A codec is a value with its shared state inside; its methods return the updated codec, and
  the mutexes are left out since each critical section runs under its lock. A nil codec is not
  modelled: the constructors return codecs with their state. An authenticated capability is a
  value with its decision flag; its identity checks against the codec that issued it hold by
  construction here, so that only the authority of that codec and the flag remain. Of a borrowed
  destination the address and the length are modelled; the record carries the bytes written to
  it, and clearing it after a failure is left out.
\<close>

section \<open>Data\<close>

record aead =
  aead_seal :: "bytes \<Rightarrow> bytes \<Rightarrow> bytes \<Rightarrow> bytes \<Rightarrow> bytes"
  aead_open :: "bytes \<Rightarrow> bytes \<Rightarrow> bytes \<Rightarrow> bytes \<Rightarrow> bytes option"
  aead_Overhead :: nat

definition RecordClassApplicationV1 :: u16 where "RecordClassApplicationV1 = 1"
definition RecordClassSyntheticV1 :: u16 where "RecordClassSyntheticV1 = 2"

record envelope_context =
  ec_EffectivePolicy :: effective_security_policy
  ec_MaxEnvelopeBytes :: u32
  ec_EffectivePolicyHash :: bytes
  ec_TranscriptHash :: bytes
  ec_CapabilityHash :: bytes
  ec_ProfileHash :: bytes
  ec_FramingHash :: bytes
  ec_CarrierContextHash :: bytes

record envelope_record =
  er_RecordType :: u16
  er_Epoch :: u64
  er_Direction :: u16
  er_Slot :: u16
  er_Sequence :: u64
  er_SealedLength :: u32
  er_Ciphertext :: bytes

record envelope_state =
  es_replay :: "(u16 \<times> replay_state) list"
  es_outboundDirection :: u16
  es_inboundDirection :: u16
  es_owner :: "nonce_owner option"
  es_replayAuthority :: bool
  es_sealFail :: bool
  es_bounded :: bool
  es_destroyed :: bool
  es_windows :: "replay_state list"

record envelope_codec =
  cd_context :: envelope_context
  cd_epoch :: u64
  cd_outbound :: "bytes option"
  cd_inbound :: "bytes option"
  cd_state :: envelope_state

record replay_capability =
  ar_slot :: u16
  ar_sequence :: u64
  ar_decided :: bool

section \<open>Validation and construction\<close>

definition zeroHashV1 :: "bytes \<Rightarrow> bool" where
  "zeroHashV1 v \<longleftrightarrow> v = replicate 32 0"

definition full_mode :: "envelope_context \<Rightarrow> bool" where
  "full_mode context \<longleftrightarrow>
    eff_SecureEnvelopeMode (ec_EffectivePolicy context) = ''full_context_bound_envelope''"

definition validateEnvelopePolicyV1 :: "effective_security_policy \<Rightarrow> sec_error option" where
  "validateEnvelopePolicyV1 p =
    (if eff_AEADSuite p \<noteq> ''aead_aes_256_gcm'' \<or> validateNonceModeV1 (eff_NonceMode p) \<noteq> None \<or>
        validateReplayPolicyV1 (eff_ReplayPolicy p) (eff_ReplayWindowSize p) \<noteq> None
     then Some ErrPolicyInvalid
     else if eff_SecureEnvelopeMode p = ''metadata_authenticated'' \<or>
        eff_SecureEnvelopeMode p = ''synthetic_aead_test'' \<or>
        eff_SecureEnvelopeMode p = ''full_context_bound_envelope''
     then None else Some ErrPolicyInvalid)"

definition validateEnvelopeContextV1 :: "envelope_context \<Rightarrow> sec_error option" where
  "validateEnvelopeContextV1 context =
    or_else (validateEnvelopePolicyV1 (ec_EffectivePolicy context)) (first_error [
      (full_mode context \<and>
       (zeroHashV1 (ec_CapabilityHash context) \<or> zeroHashV1 (ec_ProfileHash context) \<or>
        zeroHashV1 (ec_FramingHash context) \<or> zeroHashV1 (ec_CarrierContextHash context)),
       ErrEnvelopeContextInvalid),
      (ec_MaxEnvelopeBytes context < 16 \<or> zeroHashV1 (ec_EffectivePolicyHash context) \<or>
       zeroHashV1 (ec_TranscriptHash context), ErrEnvelopeContextInvalid)])"

text \<open>
  The storage bound of a bounded codec. The sizes of the Go structs are a parameter: the fixed
  part, one string header, one domain and one word of its bitmap.
\<close>

record storage_sizes =
  sz_fixed :: nat
  sz_string :: nat
  sz_domain :: nat
  sz_word :: nat

definition effective_texts :: "effective_security_policy \<Rightarrow> string list" where
  "effective_texts p =
    [eff_ProfileID p, eff_ProfileHash p, eff_SchemaVersion p, eff_CompilerSecurityVersion p,
     eff_MinimumRuntimeVersion p, eff_SecurityVersion p, eff_TranscriptMode p, eff_KDFSuite p,
     eff_AEADSuite p, eff_MACSuite p, eff_NonceMode p, eff_ReplayPolicy p, eff_DowngradePolicy p,
     eff_CapabilityNegotiationPolicy p, eff_ProfileCompatibilityPolicy p, eff_KeyRotationPolicy p,
     eff_ConfigValidationPolicy p, eff_SecureEnvelopeMode p]"

definition effective_lists :: "effective_security_policy \<Rightarrow> string list list" where
  "effective_lists p = [eff_ClientMandatoryCapabilities p, eff_ServerMandatoryCapabilities p,
    eff_SelectedCapabilities p]"

definition EnvelopeStorageOwnedBytesV3 :: "storage_sizes \<Rightarrow> effective_security_policy \<Rightarrow> sec_error + nat" where
  "EnvelopeStorageOwnedBytesV3 sz p =
    guard_result (validateEnvelopePolicyV1 p)
     (if list_ex (\<lambda>v. length v > 256) (effective_texts p) then Inl ErrInvalidConfig
      else if list_ex (\<lambda>vs. length vs > 32 \<or> list_ex (\<lambda>v. length v > 96) vs) (effective_lists p)
        then Inl ErrInvalidConfig
      else
        let descriptors = sum_list (map length (effective_texts p))
              + sum_list (map (\<lambda>vs. sum_list (map length vs) + length vs * sz_string sz) (effective_lists p));
            d = nonceDomainsV3 (eff_NonceMode p);
            j = nat ((eff_ReplayWindowSize p + 63) div 64);
            fixed = sz_fixed sz + descriptors;
            per = sz_domain sz + j * sz_word sz
        in if d > (2 ^ 64 - 1 - fixed) div per then Inl ErrInvalidConfig
           else Inr (fixed + d * per))"

definition EnvelopeOwnedBytesV3 :: "storage_sizes \<Rightarrow> envelope_context \<Rightarrow> sec_error + nat" where
  "EnvelopeOwnedBytesV3 sz context =
    guard_result (validateEnvelopeContextV1 context)
     (EnvelopeStorageOwnedBytesV3 sz (ec_EffectivePolicy context))"

definition newReplayArenaV3 :: "envelope_context \<Rightarrow> replay_state list" where
  "newReplayArenaV3 context =
    replicate (nonceDomainsV3 (eff_NonceMode (ec_EffectivePolicy context)))
      (arena_window (eff_ReplayPolicy (ec_EffectivePolicy context))
        (eff_ReplayWindowSize (ec_EffectivePolicy context)))"

definition newAEADV1 :: "bytes \<Rightarrow> sec_error + bytes" where
  "newAEADV1 key = (if length key \<noteq> 32 then Inl ErrAEADInvalid else Inr key)"

definition newEnvelopeCodecBackendV1 ::
    "key_schedule \<Rightarrow> envelope_context \<Rightarrow> nonce_owner \<Rightarrow> bytes \<Rightarrow> bytes \<Rightarrow> bool \<Rightarrow>
      sec_error + envelope_codec" where
  "newEnvelopeCodecBackendV1 schedule context owner outboundKey inboundKey bounded =
    guard_result (validateEnvelopeContextV1 context)
     (if ks_Epoch schedule \<noteq> ks_boundEpoch schedule \<or> \<not> ks_exactV1 schedule then Inl ErrNonceMismatch
      else bind_result (newAEADV1 outboundKey) (\<lambda>outbound.
           bind_result (newAEADV1 inboundKey) (\<lambda>inbound.
             Inr \<lparr> cd_context = context, cd_epoch = ks_Epoch schedule, cd_outbound = Some outbound,
               cd_inbound = Some inbound,
               cd_state = \<lparr> es_replay = [],
                 es_outboundDirection = OutboundDirectionV1 (Some owner),
                 es_inboundDirection = InboundDirectionV1 (Some owner), es_owner = Some owner,
                 es_replayAuthority = True, es_sealFail = False, es_bounded = bounded,
                 es_destroyed = False,
                 es_windows = (if bounded then newReplayArenaV3 context else []) \<rparr> \<rparr>)))"

definition newRelayEnvelopeBackendV1 ::
    "key_schedule \<Rightarrow> envelope_context \<Rightarrow> bool \<Rightarrow> sec_error + envelope_codec" where
  "newRelayEnvelopeBackendV1 schedule context bounded =
    guard_result (validateEnvelopeContextV1 context)
     (bind_result (newRelayNonceOwnerV1 schedule (eff_NonceMode (ec_EffectivePolicy context)) bounded) (\<lambda>owner.
        newEnvelopeCodecBackendV1 schedule context owner (ks_ServerWriteKey schedule)
          (ks_ClientWriteKey schedule) bounded))"

definition newRoleEnvelopeV1 ::
    "storage_sizes \<Rightarrow> key_schedule \<Rightarrow> envelope_context \<Rightarrow> bool \<Rightarrow> bool \<Rightarrow> sec_error + envelope_codec" where
  "newRoleEnvelopeV1 sz schedule context client bounded =
    guard_result (validateEnvelopeContextV1 context)
     (bind_result (if bounded then EnvelopeOwnedBytesV3 sz context else Inr 0) (\<lambda>_.
        if \<not> client then newRelayEnvelopeBackendV1 schedule context bounded
        else bind_result (newClientNonceOwnerV1 schedule (eff_NonceMode (ec_EffectivePolicy context)) bounded) (\<lambda>owner.
          newEnvelopeCodecBackendV1 schedule context owner (ks_ClientWriteKey schedule)
            (ks_ServerWriteKey schedule) bounded)))"

definition NewClientEnvelopeV1 :: "storage_sizes \<Rightarrow> key_schedule \<Rightarrow> envelope_context \<Rightarrow> sec_error + envelope_codec" where
  "NewClientEnvelopeV1 sz schedule context = newRoleEnvelopeV1 sz schedule context True False"

definition NewRelayEnvelopeV1 :: "storage_sizes \<Rightarrow> key_schedule \<Rightarrow> envelope_context \<Rightarrow> sec_error + envelope_codec" where
  "NewRelayEnvelopeV1 sz schedule context = newRoleEnvelopeV1 sz schedule context False False"

definition NewClientEnvelopeBoundedV3 :: "storage_sizes \<Rightarrow> key_schedule \<Rightarrow> envelope_context \<Rightarrow> sec_error + envelope_codec" where
  "NewClientEnvelopeBoundedV3 sz schedule context = newRoleEnvelopeV1 sz schedule context True True"

definition NewRelayEnvelopeBoundedV3 :: "storage_sizes \<Rightarrow> key_schedule \<Rightarrow> envelope_context \<Rightarrow> sec_error + envelope_codec" where
  "NewRelayEnvelopeBoundedV3 sz schedule context = newRoleEnvelopeV1 sz schedule context False True"

section \<open>Associated data\<close>

definition ExpectedClassV1 :: "envelope_codec \<Rightarrow> sec_error + u16" where
  "ExpectedClassV1 c =
    (let mode = eff_SecureEnvelopeMode (ec_EffectivePolicy (cd_context c)) in
     if es_destroyed (cd_state c) then Inl ErrEnvelopeContextInvalid
     else if mode = ''metadata_authenticated'' \<or> mode = ''full_context_bound_envelope''
       then Inr RecordClassApplicationV1
     else if mode = ''synthetic_aead_test'' then Inr RecordClassSyntheticV1
     else Inl ErrPolicyInvalid)"

text \<open>The class that the writers use: zero where \<open>ExpectedClassV1\<close> fails.\<close>

definition class_value :: "envelope_codec \<Rightarrow> u16" where
  "class_value c = (case ExpectedClassV1 c of Inr v \<Rightarrow> v | Inl _ \<Rightarrow> 0)"

definition writeApplicationAADV1 :: "envelope_codec \<Rightarrow> envelope_record \<Rightarrow> bytes" where
  "writeApplicationAADV1 c r =
    put_be 2 1 @ put_be 2 1 @ ec_EffectivePolicyHash (cd_context c) @ ec_TranscriptHash (cd_context c)
    @ put_be 2 (unat (class_value c)) @ put_be 8 (unat (er_Epoch r))
    @ put_be 2 (unat (er_Direction r)) @ put_be 2 (unat (er_Slot r))
    @ put_be 8 (unat (er_Sequence r)) @ put_be 4 (unat (er_SealedLength r))
    @ (if full_mode (cd_context c)
       then ec_CapabilityHash (cd_context c) @ ec_ProfileHash (cd_context c)
         @ ec_FramingHash (cd_context c) @ ec_CarrierContextHash (cd_context c)
       else [])"

definition aadV1 :: "envelope_codec \<Rightarrow> envelope_record \<Rightarrow> bytes \<Rightarrow> bytes" where
  "aadV1 c r recordAAD =
    (if er_RecordType r = 1 then writeApplicationAADV1 c r
     else string_bytes ''kurdistan/envelope/v1'' @ put_be 2 (unat (er_RecordType r))
       @ put_be 8 (unat (er_Epoch r)) @ put_be 2 (unat (er_Direction r))
       @ put_be 2 (unat (er_Slot r)) @ put_be 8 (unat (er_Sequence r))
       @ put_be 2 (unat (class_value c))
       @ ec_EffectivePolicyHash (cd_context c) @ ec_TranscriptHash (cd_context c)
       @ (if full_mode (cd_context c)
          then ec_CapabilityHash (cd_context c) @ ec_ProfileHash (cd_context c)
            @ ec_FramingHash (cd_context c) @ ec_CarrierContextHash (cd_context c)
          else [])
       @ recordAAD)"

section \<open>Sealing\<close>

text \<open>Two slices as start address and length.\<close>

definition envelopeSlicesOverlapV3 :: "nat \<times> nat \<Rightarrow> nat \<times> nat \<Rightarrow> bool" where
  "envelopeSlicesOverlapV3 a b =
    (if snd a = 0 \<or> snd b = 0 then False
     else if fst a \<le> fst b then fst b - fst a < snd a
     else fst a - fst b < snd b)"

definition allocate_nonce ::
    "envelope_codec \<Rightarrow> byte \<Rightarrow> u16 \<Rightarrow> (sec_error + nonce_allocation) \<times> envelope_codec" where
  "allocate_nonce c class slot =
    (case (if class = nonceControlRecordV1 then AllocateOutboundControlV1 (es_owner (cd_state c))
           else AllocateOutboundApplicationV1 (es_owner (cd_state c)) slot) of
       (r, ow) \<Rightarrow> (r, c\<lparr>cd_state := (cd_state c)\<lparr>es_owner := ow\<rparr>\<rparr>))"

definition class_mismatch :: "byte \<Rightarrow> u16 \<Rightarrow> bool" where
  "class_mismatch class recordType \<longleftrightarrow>
    class = nonceApplicationRecordV1 \<and> recordType \<noteq> 1 \<or>
    class = nonceControlRecordV1 \<and> recordType = 1"

text \<open>
  A borrowed destination is \<open>Some (dst, p)\<close> with the destination slice and the start address
  of the plaintext; the allocating call is \<open>None\<close>.
\<close>

definition sealDestinationV1 ::
    "aead \<Rightarrow> ((nat \<times> nat) \<times> nat) option \<Rightarrow> byte \<Rightarrow> u16 \<Rightarrow> u16 \<Rightarrow> bytes \<Rightarrow> bytes \<Rightarrow> envelope_codec \<Rightarrow>
      (sec_error + envelope_record) \<times> envelope_codec" where
  "sealDestinationV1 gcm dst class recordType slot plaintext recordAAD c =
    (if es_destroyed (cd_state c) \<or> cd_outbound c = None \<or> recordType = 0
       then (Inl ErrNonceMismatch, c)
     else if class_mismatch class recordType then (Inl ErrNonceMismatch, c)
     else if length plaintext + aead_Overhead gcm > unat (ec_MaxEnvelopeBytes (cd_context c))
       then (Inl ErrAEADInvalid, c)
     else case (case dst of
           None \<Rightarrow> None
         | Some (d, p) \<Rightarrow> or_else (validateNonceSlotV1 class slot)
             (if snd d < length plaintext + aead_Overhead gcm \<or>
                 envelopeSlicesOverlapV3 d (p, length plaintext)
              then Some ErrAEADInvalid else None)) of
         Some e \<Rightarrow> (Inl e, c)
       | None \<Rightarrow>
           (case allocate_nonce c class slot of (r, c') \<Rightarrow>
             (case r of
                Inl e \<Rightarrow> (Inl e, c')
              | Inr allocation \<Rightarrow>
                  (let envelope = \<lparr> er_RecordType = recordType, er_Epoch = na_Epoch allocation,
                         er_Direction = na_Direction allocation, er_Slot = na_Slot allocation,
                         er_Sequence = na_Sequence allocation,
                         er_SealedLength = word_of_nat (length plaintext + aead_Overhead gcm),
                         er_Ciphertext = [] \<rparr>;
                       aad = (if dst = None then aadV1 c' envelope recordAAD
                              else writeApplicationAADV1 c' envelope)
                   in if es_sealFail (cd_state c') then (Inl ErrAEADInvalid, c')
                      else (Inr (envelope\<lparr>er_Ciphertext := aead_seal gcm (the (cd_outbound c))
                        (na_Nonce allocation) plaintext aad\<rparr>), c')))))"

definition SealControlV1 ::
    "aead \<Rightarrow> u16 \<Rightarrow> bytes \<Rightarrow> bytes \<Rightarrow> envelope_codec \<Rightarrow> (sec_error + envelope_record) \<times> envelope_codec" where
  "SealControlV1 gcm recordType plaintext recordAAD c =
    sealDestinationV1 gcm None nonceControlRecordV1 recordType 0 plaintext recordAAD c"

definition SealApplicationV1 ::
    "aead \<Rightarrow> u16 \<Rightarrow> bytes \<Rightarrow> envelope_codec \<Rightarrow> (sec_error + envelope_record) \<times> envelope_codec" where
  "SealApplicationV1 gcm slot plaintext c =
    sealDestinationV1 gcm None nonceApplicationRecordV1 1 slot plaintext [] c"

definition SealApplicationIntoV1 ::
    "aead \<Rightarrow> (nat \<times> nat) \<times> nat \<Rightarrow> u16 \<Rightarrow> bytes \<Rightarrow> envelope_codec \<Rightarrow>
      (sec_error + envelope_record) \<times> envelope_codec" where
  "SealApplicationIntoV1 gcm dst slot plaintext c =
    sealDestinationV1 gcm (Some dst) nonceApplicationRecordV1 1 slot plaintext [] c"

section \<open>Opening\<close>

definition replayKeyV1 :: "envelope_codec \<Rightarrow> u16 \<Rightarrow> u16" where
  "replayKeyV1 c slot =
    (if eff_NonceMode (ec_EffectivePolicy (cd_context c)) = NonceModeStreamPartitionedCounterV1
     then slot else 0)"

definition new_window :: "envelope_codec \<Rightarrow> sec_error + replay_state" where
  "new_window c = NewReplayWindowV1 (eff_ReplayPolicy (ec_EffectivePolicy (cd_context c)))
    (eff_ReplayWindowSize (ec_EffectivePolicy (cd_context c)))"

definition replayPrecheckV1 :: "envelope_codec \<Rightarrow> u16 \<Rightarrow> sec_error + replay_state" where
  "replayPrecheckV1 c slot =
    (let key = replayKeyV1 c slot in
     if es_bounded (cd_state c) then
       (if es_destroyed (cd_state c) then Inl ErrNonceMismatch
        else Inr (es_windows (cd_state c) ! unat key))
     else (case map_of (es_replay (cd_state c)) key of
         Some window \<Rightarrow> Inr window
       | None \<Rightarrow> new_window c))"

definition commitReplayV1 :: "envelope_codec \<Rightarrow> u16 \<Rightarrow> u64 \<Rightarrow> sec_error + envelope_codec" where
  "commitReplayV1 c slot sequence =
    (let key = replayKeyV1 c slot in
     if es_bounded (cd_state c) then
       (if es_destroyed (cd_state c) then Inl ErrNonceMismatch
        else bind_result (CommitAuthenticated (es_windows (cd_state c) ! unat key) sequence) (\<lambda>window.
          Inr (c\<lparr>cd_state := (cd_state c)
            \<lparr>es_windows := (es_windows (cd_state c))[unat key := window]\<rparr>\<rparr>)))
     else
       bind_result (case map_of (es_replay (cd_state c)) key of Some window \<Rightarrow> Inr window
           | None \<Rightarrow> new_window c) (\<lambda>window.
         bind_result (CommitAuthenticated window sequence) (\<lambda>window'.
           Inr (c\<lparr>cd_state := (cd_state c)
             \<lparr>es_replay := AList.update key window' (es_replay (cd_state c))\<rparr>\<rparr>))))"

definition expected_nonce :: "envelope_codec \<Rightarrow> byte \<Rightarrow> envelope_record \<Rightarrow> sec_error + bytes" where
  "expected_nonce c class r =
    (if class = nonceControlRecordV1
     then ExpectedInboundControlV1 (es_owner (cd_state c)) (er_Sequence r)
     else ExpectedInboundApplicationV1 (es_owner (cd_state c)) (er_Slot r) (er_Sequence r))"

text \<open>A borrowed destination is the destination slice and the start address of the ciphertext.\<close>

definition authenticateDestinationV1 ::
    "aead \<Rightarrow> ((nat \<times> nat) \<times> nat) option \<Rightarrow> byte \<Rightarrow> envelope_record \<Rightarrow> bytes \<Rightarrow> envelope_codec \<Rightarrow>
      sec_error + bytes \<times> replay_capability" where
  "authenticateDestinationV1 gcm dst class r recordAAD c =
    (let ciphertext = er_Ciphertext r in
     if es_destroyed (cd_state c) \<or> cd_inbound c = None \<or> er_RecordType r = 0 \<or>
        er_Direction r \<noteq> es_inboundDirection (cd_state c) \<or> er_Epoch r \<noteq> cd_epoch c
       then Inl ErrNonceMismatch
     else if class_mismatch class (er_RecordType r) then Inl ErrNonceMismatch
     else guard_result (validateNonceSlotV1 class (er_Slot r))
      (if length ciphertext < aead_Overhead gcm \<or>
          length ciphertext > unat (ec_MaxEnvelopeBytes (cd_context c)) \<or>
          unat (er_SealedLength r) \<noteq> length ciphertext
         then Inl ErrAEADInvalid
       else if (case dst of None \<Rightarrow> False
          | Some (d, p) \<Rightarrow> snd d < length ciphertext - aead_Overhead gcm \<or>
              envelopeSlicesOverlapV3 d (p, length ciphertext))
         then Inl ErrAEADInvalid
       else bind_result (expected_nonce c class r) (\<lambda>expected.
         bind_result (replayPrecheckV1 c (er_Slot r)) (\<lambda>replay.
         guard_result (Plausible replay (er_Sequence r))
          (let aad = (if dst = None then aadV1 c r recordAAD else writeApplicationAADV1 c r) in
           case aead_open gcm (the (cd_inbound c)) expected ciphertext aad of
             None \<Rightarrow> Inl ErrAuthenticationFailed
           | Some temporary \<Rightarrow> Inr (temporary,
               \<lparr> ar_slot = er_Slot r, ar_sequence = er_Sequence r, ar_decided = False \<rparr>))))))"

definition AuthenticateControlV1 where
  "AuthenticateControlV1 gcm r recordAAD c =
    authenticateDestinationV1 gcm None nonceControlRecordV1 r recordAAD c"

definition AuthenticateApplicationV1 where
  "AuthenticateApplicationV1 gcm r c =
    authenticateDestinationV1 gcm None nonceApplicationRecordV1 r [] c"

definition AuthenticateApplicationIntoV1 where
  "AuthenticateApplicationIntoV1 gcm dst r c =
    authenticateDestinationV1 gcm (Some dst) nonceApplicationRecordV1 r [] c"

text \<open>The result of a decision, the decided capability and the codec.\<close>

definition Commit ::
    "replay_capability \<Rightarrow> envelope_codec \<Rightarrow> sec_error option \<times> replay_capability \<times> envelope_codec" where
  "Commit cap c =
    (if \<not> es_replayAuthority (cd_state c) \<or> ar_decided cap then (Some ErrReplayDuplicate, cap, c)
     else (case commitReplayV1 c (ar_slot cap) (ar_sequence cap) of
         Inl e \<Rightarrow> (Some e, cap\<lparr>ar_decided := True\<rparr>, c)
       | Inr c' \<Rightarrow> (None, cap\<lparr>ar_decided := True\<rparr>, c')))"

definition Discard :: "replay_capability \<Rightarrow> envelope_codec \<Rightarrow> sec_error option \<times> replay_capability" where
  "Discard cap c =
    (if \<not> es_replayAuthority (cd_state c) \<or> ar_decided cap then (Some ErrReplayDuplicate, cap)
     else (None, cap\<lparr>ar_decided := True\<rparr>))"

definition open_with ::
    "sec_error + bytes \<times> replay_capability \<Rightarrow> envelope_codec \<Rightarrow> (sec_error + bytes) \<times> envelope_codec" where
  "open_with authenticated c =
    (case authenticated of
       Inl e \<Rightarrow> (Inl e, c)
     | Inr (plaintext, cap) \<Rightarrow>
         (case Commit cap c of
            (Some e, _, c') \<Rightarrow> (Inl e, c')
          | (None, _, c') \<Rightarrow> (Inr plaintext, c')))"

definition OpenControlV1 ::
    "aead \<Rightarrow> envelope_record \<Rightarrow> bytes \<Rightarrow> envelope_codec \<Rightarrow> (sec_error + bytes) \<times> envelope_codec" where
  "OpenControlV1 gcm r recordAAD c = open_with (AuthenticateControlV1 gcm r recordAAD c) c"

definition OpenApplicationV1 ::
    "aead \<Rightarrow> envelope_record \<Rightarrow> envelope_codec \<Rightarrow> (sec_error + bytes) \<times> envelope_codec" where
  "OpenApplicationV1 gcm r c = open_with (AuthenticateApplicationV1 gcm r c) c"

section \<open>Destruction\<close>

definition zero_policy :: effective_security_policy where
  "zero_policy =
    \<lparr> eff_ProfileID = [], eff_ProfileHash = [], eff_SchemaVersion = [],
      eff_CompilerSecurityVersion = [], eff_MinimumRuntimeVersion = [], eff_SecurityVersion = [],
      eff_TranscriptMode = [], eff_KDFSuite = [], eff_AEADSuite = [], eff_MACSuite = [],
      eff_NonceMode = [], eff_ReplayPolicy = [], eff_ReplayWindowSize = 0,
      eff_DowngradePolicy = [], eff_CapabilityNegotiationPolicy = [],
      eff_ProfileCompatibilityPolicy = [], eff_KeyRotationPolicy = [],
      eff_ConfigValidationPolicy = [], eff_SecureEnvelopeMode = [], eff_MaxSessionMessages = 0,
      eff_MaxKeyLifetimeMessages = 0, eff_ClientMandatoryCapabilities = [],
      eff_ServerMandatoryCapabilities = [], eff_SelectedCapabilities = [],
      eff_validationHash = replicate 32 0 \<rparr>"

definition zero_context :: envelope_context where
  "zero_context =
    \<lparr> ec_EffectivePolicy = zero_policy, ec_MaxEnvelopeBytes = 0,
      ec_EffectivePolicyHash = replicate 32 0, ec_TranscriptHash = replicate 32 0,
      ec_CapabilityHash = replicate 32 0, ec_ProfileHash = replicate 32 0,
      ec_FramingHash = replicate 32 0, ec_CarrierContextHash = replicate 32 0 \<rparr>"

definition DestroyBoundedV3 :: "envelope_codec \<Rightarrow> sec_error option \<times> envelope_codec" where
  "DestroyBoundedV3 c =
    (if \<not> es_bounded (cd_state c) then (Some ErrInvalidConfig, c)
     else
       let s = cd_state c;
           s' = (if es_destroyed s then s
             else s\<lparr>es_destroyed := True, es_replayAuthority := False, es_windows := [],
               es_outboundDirection := 0, es_inboundDirection := 0, es_owner := None,
               es_sealFail := False\<rparr>)
       in (None, c\<lparr>cd_context := zero_context, cd_epoch := 0, cd_outbound := None,
            cd_inbound := None, cd_state := s'\<rparr>))"

section \<open>Windows of a codec\<close>

text \<open>A window of either storage that stands for a history.\<close>

definition window_rep :: "string \<Rightarrow> nat \<Rightarrow> replay_state \<Rightarrow> nat set \<Rightarrow> bool" where
  "window_rep policy w r A \<longleftrightarrow> map_rep policy w r A \<or> bits_rep policy w r A"

interpretation any_window: replay_backend policy w "window_rep policy w" checkV1Locked CommitAuthenticated
  for policy w
proof
  show "checkV1Locked r s = None \<longleftrightarrow> reorder_accepts policy w A (unat s)" if "window_rep policy w r A" for r A s
    using that map_window.check_iff bits_window.check_iff by (auto simp: window_rep_def)
  show "\<exists>r'. CommitAuthenticated r s = Inr r' \<and> window_rep policy w r' (insert (unat s) A)"
    if "window_rep policy w r A" "checkV1Locked r s = None" for r A s
    using that map_commit bits_commit unfolding window_rep_def by blast
qed (auto intro: commit_rejected)

definition context_mode :: "envelope_context \<Rightarrow> string" where
  "context_mode x = eff_NonceMode (ec_EffectivePolicy x)"

definition context_domains :: "envelope_context \<Rightarrow> nat" where
  "context_domains x = nonceDomainsV3 (context_mode x)"

definition context_rep :: "envelope_context \<Rightarrow> replay_state \<Rightarrow> nat set \<Rightarrow> bool" where
  "context_rep x = window_rep (eff_ReplayPolicy (ec_EffectivePolicy x))
    (nat (eff_ReplayWindowSize (ec_EffectivePolicy x)))"

definition window_at :: "envelope_codec \<Rightarrow> u16 \<Rightarrow> sec_error + replay_state" where
  "window_at c key =
    (if es_bounded (cd_state c) then Inr (es_windows (cd_state c) ! unat key)
     else (case map_of (es_replay (cd_state c)) key of Some window \<Rightarrow> Inr window | None \<Rightarrow> new_window c))"

text \<open>The windows of a live codec stand for the sequences accepted per key.\<close>

definition codec_rep :: "envelope_codec \<Rightarrow> (u16 \<Rightarrow> nat set) \<Rightarrow> bool" where
  "codec_rep c H \<longleftrightarrow> \<not> es_destroyed (cd_state c) \<and> es_replayAuthority (cd_state c) \<and>
    validateReplayPolicyV1 (eff_ReplayPolicy (ec_EffectivePolicy (cd_context c)))
      (eff_ReplayWindowSize (ec_EffectivePolicy (cd_context c))) = None \<and>
    (es_bounded (cd_state c) \<longrightarrow> length (es_windows (cd_state c)) = context_domains (cd_context c)) \<and>
    (\<forall>k. unat k < context_domains (cd_context c) \<longrightarrow>
      (\<exists>W. window_at c k = Inr W \<and> context_rep (cd_context c) W (H k)))"

lemma replayKey_less: "unat (replayKeyV1 c slot) < context_domains (cd_context c)"
  using state_slot_less [of "\<lparr> nc_base = [], nc_mode = context_mode (cd_context c), nc_epoch = 0, nc_direction = 0 \<rparr>" slot]
  by (simp add: replayKeyV1_def context_domains_def context_mode_def state_slot_def)

lemma precheck_window:
  "\<not> es_destroyed (cd_state c) \<Longrightarrow> replayPrecheckV1 c slot = window_at c (replayKeyV1 c slot)"
  by (simp add: replayPrecheckV1_def window_at_def Let_def)

definition put_window :: "envelope_codec \<Rightarrow> u16 \<Rightarrow> replay_state \<Rightarrow> envelope_codec" where
  "put_window c key w =
    (if es_bounded (cd_state c)
     then c\<lparr>cd_state := (cd_state c)\<lparr>es_windows := (es_windows (cd_state c))[unat key := w]\<rparr>\<rparr>
     else c\<lparr>cd_state := (cd_state c)\<lparr>es_replay := AList.update key w (es_replay (cd_state c))\<rparr>\<rparr>)"

lemma commit_window:
  "\<not> es_destroyed (cd_state c) \<Longrightarrow> commitReplayV1 c slot sequence =
    bind_result (window_at c (replayKeyV1 c slot)) (\<lambda>w.
    bind_result (CommitAuthenticated w sequence) (\<lambda>w'. Inr (put_window c (replayKeyV1 c slot) w')))"
  by (simp add: commitReplayV1_def window_at_def put_window_def Let_def)

lemma put_window_fields [simp]:
  "cd_context (put_window c k w) = cd_context c" "cd_epoch (put_window c k w) = cd_epoch c"
  "cd_outbound (put_window c k w) = cd_outbound c" "cd_inbound (put_window c k w) = cd_inbound c"
  "es_owner (cd_state (put_window c k w)) = es_owner (cd_state c)"
  "es_destroyed (cd_state (put_window c k w)) = es_destroyed (cd_state c)"
  "es_replayAuthority (cd_state (put_window c k w)) = es_replayAuthority (cd_state c)"
  "es_bounded (cd_state (put_window c k w)) = es_bounded (cd_state c)"
  "es_inboundDirection (cd_state (put_window c k w)) = es_inboundDirection (cd_state c)"
  "es_sealFail (cd_state (put_window c k w)) = es_sealFail (cd_state c)"
  by (simp_all add: put_window_def)

lemma window_at_put:
  assumes "es_bounded (cd_state c) \<Longrightarrow> unat k < length (es_windows (cd_state c))"
  shows "window_at (put_window c k w) k' = (if k' = k then Inr w else window_at c k')"
  using assms
  by (auto simp: window_at_def put_window_def new_window_def nth_list_update dest: unsigned_word_eqI
    split: option.splits)

lemma codec_rep_put:
  assumes "codec_rep c H" "unat k < context_domains (cd_context c)"
    and "context_rep (cd_context c) w A"
  shows "codec_rep (put_window c k w) (H(k := A))"
proof -
  have "length (es_windows (cd_state (put_window c k w))) = length (es_windows (cd_state c))"
    by (simp add: put_window_def)
  then show ?thesis
    using assms window_at_put [of c k w] by (auto simp: codec_rep_def)
qed

text \<open>A commit succeeds exactly when the history of the key allows it, and extends it.\<close>

lemma commit_step:
  assumes "codec_rep c H" "k = replayKeyV1 c slot"
  shows "is_ok (commitReplayV1 c slot s) \<longleftrightarrow>
      reorder_accepts (eff_ReplayPolicy (ec_EffectivePolicy (cd_context c)))
        (nat (eff_ReplayWindowSize (ec_EffectivePolicy (cd_context c)))) (H k) (unat s)"
    and "commitReplayV1 c slot s = Inr c' \<Longrightarrow>
      unat s \<notin> H k \<and> (\<exists>w. c' = put_window c k w) \<and> codec_rep c' (H(k := insert (unat s) (H k)))"
proof -
  have live: "\<not> es_destroyed (cd_state c)"
    using assms(1) by (simp add: codec_rep_def)
  have less: "unat k < context_domains (cd_context c)"
    using assms(2) replayKey_less by simp
  obtain W where W: "window_at c k = Inr W" "context_rep (cd_context c) W (H k)"
    using assms(1) less by (auto simp: codec_rep_def)
  note rep = W(2) [unfolded context_rep_def]
  show "is_ok (commitReplayV1 c slot s) \<longleftrightarrow>
      reorder_accepts (eff_ReplayPolicy (ec_EffectivePolicy (cd_context c)))
        (nat (eff_ReplayWindowSize (ec_EffectivePolicy (cd_context c)))) (H k) (unat s)"
    using any_window.step_verdict [OF rep, of s] W(1) assms(2)
    by (cases "CommitAuthenticated W s") (auto simp: commit_window [OF live])
  assume "commitReplayV1 c slot s = Inr c'"
  then obtain w where w: "CommitAuthenticated W s = Inr w" "c' = put_window c k w"
    using W(1) assms(2) by (auto simp: commit_window [OF live] result_simps)
  then have check: "checkV1Locked W s = None"
    using commit_rejected [of W s] by (cases "checkV1Locked W s") auto
  have fresh: "unat s \<notin> H k"
    using any_window.check_iff [OF rep, of s] check by (simp add: reorder_accepts_def)
  have "context_rep (cd_context c) w (insert (unat s) (H k))"
    using any_window.commit_accepted [OF rep check] w(1) by (auto simp: context_rep_def)
  from codec_rep_put [OF assms(1) less this]
  show "unat s \<notin> H k \<and> (\<exists>w. c' = put_window c k w) \<and> codec_rep c' (H(k := insert (unat s) (H k)))"
    using fresh w(2) by blast
qed

lemma new_codec_rep:
  assumes "newEnvelopeCodecBackendV1 schedule context owner ok ik bounded = Inr c"
  shows "codec_rep c (\<lambda>_. {})"
proof -
  have v: "validateReplayPolicyV1 (eff_ReplayPolicy (ec_EffectivePolicy context))
      (eff_ReplayWindowSize (ec_EffectivePolicy context)) = None"
    using assms
    by (auto simp: newEnvelopeCodecBackendV1_def validateEnvelopeContextV1_def
      validateEnvelopePolicyV1_def result_simps split: if_splits)
  then obtain m where m: "NewReplayWindowV1 (eff_ReplayPolicy (ec_EffectivePolicy context))
      (eff_ReplayWindowSize (ec_EffectivePolicy context)) = Inr m"
    by (simp add: NewReplayWindowV1_def)
  show ?thesis
    using assms v m new_map_rep [OF m] new_bits_rep [OF v]
    by (auto simp: newEnvelopeCodecBackendV1_def result_simps codec_rep_def window_at_def
      newReplayArenaV3_def context_domains_def context_mode_def context_rep_def window_rep_def new_window_def
      split: if_splits)
qed

section \<open>Messages\<close>

datatype message = ControlMsg u16 bytes bytes | AppMsg u16 bytes

fun seal_msg :: "aead \<Rightarrow> envelope_codec \<Rightarrow> message \<Rightarrow> (sec_error + envelope_record) \<times> envelope_codec" where
  "seal_msg gcm c (ControlMsg t p a) = SealControlV1 gcm t p a c"
| "seal_msg gcm c (AppMsg slot p) = SealApplicationV1 gcm slot p c"

text \<open>The receiver knows the class of a record and its associated data, not its plaintext.\<close>

fun open_msg :: "aead \<Rightarrow> envelope_codec \<Rightarrow> message \<times> envelope_record \<Rightarrow> (sec_error + bytes) \<times> envelope_codec" where
  "open_msg gcm c (ControlMsg t p a, r) = OpenControlV1 gcm r a c"
| "open_msg gcm c (AppMsg slot p, r) = OpenApplicationV1 gcm r c"

fun plaintext_of :: "message \<Rightarrow> bytes" where
  "plaintext_of (ControlMsg t p a) = p"
| "plaintext_of (AppMsg slot p) = p"

definition msg_class :: "message \<Rightarrow> byte" where
  "msg_class m = (case m of ControlMsg _ _ _ \<Rightarrow> nonceControlRecordV1 | AppMsg _ _ \<Rightarrow> nonceApplicationRecordV1)"

definition msg_slot :: "message \<Rightarrow> u16" where
  "msg_slot m = (case m of ControlMsg _ _ _ \<Rightarrow> 0 | AppMsg slot _ \<Rightarrow> slot)"

definition msg_type :: "message \<Rightarrow> u16" where
  "msg_type m = (case m of ControlMsg t _ _ \<Rightarrow> t | AppMsg _ _ \<Rightarrow> 1)"

definition msg_aad :: "message \<Rightarrow> bytes" where
  "msg_aad m = (case m of ControlMsg _ _ a \<Rightarrow> a | AppMsg _ _ \<Rightarrow> [])"

lemmas msg_defs = msg_class_def msg_slot_def msg_type_def msg_aad_def

lemma seal_msg_eq:
  "seal_msg gcm c m = sealDestinationV1 gcm None (msg_class m) (msg_type m) (msg_slot m) (plaintext_of m) (msg_aad m) c"
  by (cases m) (simp_all add: SealControlV1_def SealApplicationV1_def msg_defs)

lemma open_msg_eq:
  "open_msg gcm c (m, r) = open_with (authenticateDestinationV1 gcm None (msg_class m) r (msg_aad m) c) c"
  by (cases m) (simp_all add: OpenControlV1_def OpenApplicationV1_def AuthenticateControlV1_def
    AuthenticateApplicationV1_def msg_defs)

text \<open>The documented behaviour of AES-GCM: a fixed overhead, and opening inverts sealing.\<close>

definition aead_correct :: "aead \<Rightarrow> bool" where
  "aead_correct gcm \<longleftrightarrow> (\<forall>k n p a. length k = 32 \<longrightarrow> length n = 12 \<longrightarrow>
    length (aead_seal gcm k n p a) = length p + aead_Overhead gcm \<and>
    aead_open gcm k n (aead_seal gcm k n p a) a = Some p)"

section \<open>Sender and receiver in step\<close>

text \<open>The sequences below a counter, all of them once it is exhausted.\<close>

definition used :: "nonce_sequence \<Rightarrow> nat set" where
  "used q = (if nseq_exhausted q then {..< 2 ^ 64} else {..< unat (nseq_next q)})"

lemma used_advance: "\<not> nseq_exhausted q \<Longrightarrow> used (advance_sequence q) = insert (unat (nseq_next q)) (used q)"
  by (auto simp: used_def advance_sequence_def unat_Suc_u64 unat_max_u64 lessThan_Suc)

lemma next_accepted:
  assumes "validateReplayPolicyV1 policy n = None" "\<not> nseq_exhausted q"
  shows "reorder_accepts policy (nat n) (used q) (unat (nseq_next q))"
proof (cases "unat (nseq_next q)")
  case 0
  then show ?thesis
    using assms by (auto simp: used_def reorder_accepts_def validateReplayPolicyV1_def replay_policies split: if_splits)
next
  case (Suc m)
  have "Max {..< Suc m} = m"
    by (rule Max_eqI) auto
  then show ?thesis
    using assms Suc
    by (auto simp: used_def reorder_accepts_def highest_of_def validateReplayPolicyV1_def replay_policies
      lessThan_empty_iff split: if_splits)
qed

definition in_step :: "envelope_codec \<Rightarrow> envelope_codec \<Rightarrow> bool" where
  "in_step c r \<longleftrightarrow> (\<exists>x s y key.
    es_owner (cd_state c) = Some x \<and> no_outbound x = Some s \<and> store_ok s \<and>
    nonce_config_validateV1 (nd_config s) = None \<and>
    es_owner (cd_state r) = Some y \<and> no_inbound y = nd_config s \<and>
    nc_mode (nd_config s) = context_mode (cd_context c) \<and>
    nc_epoch (nd_config s) = cd_epoch r \<and> nc_direction (nd_config s) = es_inboundDirection (cd_state r) \<and>
    cd_context r = cd_context c \<and> cd_outbound c = Some key \<and> cd_inbound r = Some key \<and> length key = 32 \<and>
    \<not> es_destroyed (cd_state c) \<and> \<not> es_sealFail (cd_state c) \<and>
    codec_rep r (\<lambda>k. used (get_sequence s k)))"

lemma allocate_nonce_msg:
  assumes "es_owner (cd_state c) = Some x" "no_outbound x = Some s"
  shows "allocate_nonce c (msg_class m) (msg_slot m) =
    (case allocateV1 s (msg_class m) (msg_slot m) of (r, s') \<Rightarrow>
      (r, c\<lparr>cd_state := (cd_state c)\<lparr>es_owner := Some (x\<lparr>no_outbound := Some s'\<rparr>)\<rparr>\<rparr>))"
  using assms
  by (cases m) (simp_all add: allocate_nonce_def msg_defs nonce_classes AllocateOutboundControlV1_def
    AllocateOutboundApplicationV1_def owner_allocate_def split: prod.splits)

lemma class_value_cong:
  "cd_context c = cd_context d \<Longrightarrow> es_destroyed (cd_state c) = es_destroyed (cd_state d) \<Longrightarrow> class_value c = class_value d"
  by (simp add: class_value_def ExpectedClassV1_def)

lemma aad_cong:
  assumes "cd_context c = cd_context d" "es_destroyed (cd_state c) = es_destroyed (cd_state d)"
    and "er_RecordType r = er_RecordType s" "er_Epoch r = er_Epoch s" "er_Direction r = er_Direction s"
    and "er_Slot r = er_Slot s" "er_Sequence r = er_Sequence s" "er_SealedLength r = er_SealedLength s"
  shows "aadV1 c r a = aadV1 d s a"
  using assms class_value_cong [OF assms(1,2)] by (simp add: aadV1_def writeApplicationAADV1_def)

text \<open>A seal allocates the next sequence of its slot and leaves the rest of the codec alone.\<close>

lemma seal_msg_ok:
  assumes "seal_msg gcm c m = (Inr r, c')" "es_owner (cd_state c) = Some x" "no_outbound x = Some s"
    and "cd_outbound c = Some key"
  obtains a s' where "allocateV1 s (msg_class m) (msg_slot m) = (Inr a, s')"
    "c' = c\<lparr>cd_state := (cd_state c)\<lparr>es_owner := Some (x\<lparr>no_outbound := Some s'\<rparr>)\<rparr>\<rparr>"
    "msg_type m \<noteq> 0" "\<not> class_mismatch (msg_class m) (msg_type m)"
    "length (plaintext_of m) + aead_Overhead gcm \<le> unat (ec_MaxEnvelopeBytes (cd_context c))"
    "er_RecordType r = msg_type m" "er_Epoch r = na_Epoch a" "er_Direction r = na_Direction a"
    "er_Slot r = na_Slot a" "er_Sequence r = na_Sequence a"
    "er_SealedLength r = word_of_nat (length (plaintext_of m) + aead_Overhead gcm)"
    "er_Ciphertext r = aead_seal gcm key (na_Nonce a) (plaintext_of m) (aadV1 c r (msg_aad m))"
proof -
  obtain q s' where al: "allocateV1 s (msg_class m) (msg_slot m) = (q, s')" by fastforce
  let ?c = "c\<lparr>cd_state := (cd_state c)\<lparr>es_owner := Some (x\<lparr>no_outbound := Some s'\<rparr>)\<rparr>\<rparr>"
  let ?r = "\<lambda>a. \<lparr> er_RecordType = msg_type m, er_Epoch = na_Epoch a, er_Direction = na_Direction a,
      er_Slot = na_Slot a, er_Sequence = na_Sequence a,
      er_SealedLength = word_of_nat (length (plaintext_of m) + aead_Overhead gcm), er_Ciphertext = [] \<rparr>"
  have alloc: "allocate_nonce c (msg_class m) (msg_slot m) = (q, ?c)"
    using allocate_nonce_msg [OF assms(2,3), of m] al by simp
  obtain a where q: "q = Inr a"
    using assms(1) alloc
    by (cases q) (auto simp: seal_msg_eq sealDestinationV1_def split: if_splits)
  have r: "r = (?r a)\<lparr>er_Ciphertext := aead_seal gcm key (na_Nonce a) (plaintext_of m) (aadV1 ?c (?r a) (msg_aad m))\<rparr>"
    and guards: "c' = ?c" "msg_type m \<noteq> 0" "\<not> class_mismatch (msg_class m) (msg_type m)"
      "length (plaintext_of m) + aead_Overhead gcm \<le> unat (ec_MaxEnvelopeBytes (cd_context c))"
    using assms(1,4) alloc q by (auto simp: seal_msg_eq sealDestinationV1_def Let_def split: if_splits)
  have "aadV1 ?c (?r a) (msg_aad m) = aadV1 c r (msg_aad m)"
    unfolding r by (rule aad_cong) simp_all
  then show thesis
    using that [OF al [unfolded q] guards] r by simp
qed

text \<open>A refused seal leaves the counters alone.\<close>

lemma seal_msg_refused:
  assumes "seal_msg gcm c m = (Inl e, c')" "es_owner (cd_state c) = Some x" "no_outbound x = Some s"
    and "\<not> es_sealFail (cd_state c)"
  shows "c' = c"
proof -
  obtain q s' where al: "allocateV1 s (msg_class m) (msg_slot m) = (q, s')" by fastforce
  let ?c = "c\<lparr>cd_state := (cd_state c)\<lparr>es_owner := Some (x\<lparr>no_outbound := Some s'\<rparr>)\<rparr>\<rparr>"
  have alloc: "allocate_nonce c (msg_class m) (msg_slot m) = (q, ?c)"
    using allocate_nonce_msg [OF assms(2,3), of m] al by simp
  have "?c = c" if "q = Inl e'" for e'
  proof -
    have "s' = s" using allocateV1_Inl al that by blast
    then show ?thesis
      using assms(2,3) by (cases c; cases "cd_state c"; cases x) auto
  qed
  then show ?thesis
    using assms(1,4) alloc
    by (cases q) (auto simp: seal_msg_eq sealDestinationV1_def Let_def split: if_splits)
qed

text \<open>What was sealed in step opens to the plaintext, and both sides stay in step.\<close>

lemma in_step_delivers:
  assumes "in_step c r" "aead_correct gcm" "seal_msg gcm c m = (Inr e, c')"
  shows "\<exists>r'. open_msg gcm r (m, e) = (Inr (plaintext_of m), r') \<and> in_step c' r'"
proof -
  obtain x s y key where st: "es_owner (cd_state c) = Some x" "no_outbound x = Some s" "store_ok s"
    "nonce_config_validateV1 (nd_config s) = None"
    "es_owner (cd_state r) = Some y" "no_inbound y = nd_config s"
    "nc_mode (nd_config s) = context_mode (cd_context c)"
    "nc_epoch (nd_config s) = cd_epoch r" "nc_direction (nd_config s) = es_inboundDirection (cd_state r)"
    "cd_context r = cd_context c" "cd_outbound c = Some key" "cd_inbound r = Some key" "length key = 32"
    "\<not> es_destroyed (cd_state c)" "\<not> es_sealFail (cd_state c)"
    "codec_rep r (\<lambda>k. used (get_sequence s k))"
    using assms(1) unfolding in_step_def by blast
  obtain a s' where e: "allocateV1 s (msg_class m) (msg_slot m) = (Inr a, s')"
    "c' = c\<lparr>cd_state := (cd_state c)\<lparr>es_owner := Some (x\<lparr>no_outbound := Some s'\<rparr>)\<rparr>\<rparr>"
    "msg_type m \<noteq> 0" "\<not> class_mismatch (msg_class m) (msg_type m)"
    "length (plaintext_of m) + aead_Overhead gcm \<le> unat (ec_MaxEnvelopeBytes (cd_context c))"
    "er_RecordType e = msg_type m" "er_Epoch e = na_Epoch a" "er_Direction e = na_Direction a"
    "er_Slot e = na_Slot a" "er_Sequence e = na_Sequence a"
    "er_SealedLength e = word_of_nat (length (plaintext_of m) + aead_Overhead gcm)"
    "er_Ciphertext e = aead_seal gcm key (na_Nonce a) (plaintext_of m) (aadV1 c e (msg_aad m))"
    using seal_msg_ok [OF assms(3) st(1,2,11)] .
  let ?k = "state_slot (nd_config s) (msg_slot m)"
  let ?q = "get_sequence s ?k"
  note al = allocateV1_Inr [OF e(1), unfolded Let_def]
  have live: "\<not> es_destroyed (cd_state r)" "es_replayAuthority (cd_state r)"
    and policy: "validateReplayPolicyV1 (eff_ReplayPolicy (ec_EffectivePolicy (cd_context r)))
      (eff_ReplayWindowSize (ec_EffectivePolicy (cd_context r))) = None"
    using st(16) by (simp_all add: codec_rep_def)
  have key: "replayKeyV1 r (er_Slot e) = ?k"
    using al e(9) st(7,10) by (simp add: replayKeyV1_def state_slot_def context_mode_def)
  have nonce: "length (na_Nonce a) = 12"
    using al st(3) deriveNonceV1_length by (auto simp: store_ok_def)
  have gcm: "length (er_Ciphertext e) = length (plaintext_of m) + aead_Overhead gcm"
    "aead_open gcm key (na_Nonce a) (er_Ciphertext e) (aadV1 c e (msg_aad m)) = Some (plaintext_of m)"
    using assms(2) st(13) nonce e(12) by (simp_all add: aead_correct_def)
  have sealed: "unat (er_SealedLength e) = length (er_Ciphertext e)"
  proof -
    have "unat (ec_MaxEnvelopeBytes (cd_context c)) < 2 ^ 32"
      using unsigned_less [of "ec_MaxEnvelopeBytes (cd_context c)", where ?'a = nat] by simp
    then show ?thesis
      using e(5,11) gcm(1) by (simp add: unsigned_of_nat take_bit_nat_eq_self del: of_nat_add)
  qed
  have expected: "expected_nonce r (msg_class m) e = Inr (na_Nonce a)"
    using al st(4,5,6) e(9,10)
    by (cases m) (auto simp: expected_nonce_def ExpectedInboundControlV1_def ExpectedInboundApplicationV1_def
      expectedV1_def msg_defs nonce_classes)
  have accepts: "reorder_accepts (eff_ReplayPolicy (ec_EffectivePolicy (cd_context r)))
      (nat (eff_ReplayWindowSize (ec_EffectivePolicy (cd_context r)))) (used ?q) (unat (er_Sequence e))"
    using next_accepted [OF policy, of ?q] al e(10) by simp
  obtain W where W: "replayPrecheckV1 r (er_Slot e) = Inr W" "context_rep (cd_context r) W (used ?q)"
    using st(16) precheck_window [OF live(1), of "er_Slot e"] replayKey_less [of r "er_Slot e"] key
    by (auto simp: codec_rep_def)
  have plausible: "Plausible W (er_Sequence e) = None"
    using any_window.check_iff [OF W(2) [unfolded context_rep_def]] accepts by (simp add: Plausible_def)
  have aad: "aadV1 r e (msg_aad m) = aadV1 c e (msg_aad m)"
    using st(10,14) live by (intro aad_cong) simp_all
  have auth: "authenticateDestinationV1 gcm None (msg_class m) e (msg_aad m) r =
      Inr (plaintext_of m, \<lparr> ar_slot = er_Slot e, ar_sequence = er_Sequence e, ar_decided = False \<rparr>)"
    using live st(8,9,10,12) e(3-10) al gcm sealed expected W(1) plausible aad
    by (simp add: authenticateDestinationV1_def Let_def)
  have "is_ok (commitReplayV1 r (er_Slot e) (er_Sequence e))"
    using commit_step(1) [OF st(16) refl, of "er_Slot e" "er_Sequence e"] accepts key by simp
  then obtain r' where r': "commitReplayV1 r (er_Slot e) (er_Sequence e) = Inr r'"
    by (auto simp: is_ok_iff)
  note step = commit_step(2) [OF st(16) key [symmetric] r']
  then obtain w where w: "r' = put_window r ?k w" by blast
  have "used (get_sequence s' k) = (if k = ?k then insert (unat (er_Sequence e)) (used ?q) else used (get_sequence s k))" for k
    using al e(10) by (auto simp: get_put_sequence [OF st(3)] used_advance)
  then have "(\<lambda>k. used (get_sequence s k))(?k := insert (unat (er_Sequence e)) (used ?q)) =
      (\<lambda>k. used (get_sequence s' k))"
    by auto
  then have rep: "codec_rep r' (\<lambda>k. used (get_sequence s' k))"
    using step by simp
  have "open_msg gcm r (m, e) = (Inr (plaintext_of m), r')"
    using auth live r' by (simp add: open_msg_eq open_with_def Commit_def)
  moreover have "in_step c' r'"
    unfolding in_step_def
    using st al e(2) rep w
    by - (rule exI [of _ "x\<lparr>no_outbound := Some s'\<rparr>"], rule exI [of _ s'], rule exI [of _ y],
      rule exI [of _ key], auto)
  ultimately show ?thesis by blast
qed

section \<open>Roles\<close>

lemma role_codecs_ok:
  assumes "newRoleEnvelopeV1 sz schedule context role b = Inr c"
  obtains owner where
    "(if role then newClientNonceOwnerV1 else newRelayNonceOwnerV1) schedule (context_mode context) b = Inr owner"
    "newEnvelopeCodecBackendV1 schedule context owner
      (if role then ks_ClientWriteKey schedule else ks_ServerWriteKey schedule)
      (if role then ks_ServerWriteKey schedule else ks_ClientWriteKey schedule) b = Inr c"
  using assms
  by (auto simp: newRoleEnvelopeV1_def newRelayEnvelopeBackendV1_def context_mode_def result_simps
    split: if_splits)

text \<open>The codecs of the two roles of one schedule start in step, in both directions.\<close>

lemma roles_in_step:
  assumes "newRoleEnvelopeV1 sz schedule context role b = Inr c"
    and "newRoleEnvelopeV1 sz' schedule context (\<not> role) b' = Inr r"
  shows "in_step c r"
proof -
  obtain ow where ow: "(if role then newClientNonceOwnerV1 else newRelayNonceOwnerV1) schedule (context_mode context) b = Inr ow"
    "newEnvelopeCodecBackendV1 schedule context ow
      (if role then ks_ClientWriteKey schedule else ks_ServerWriteKey schedule)
      (if role then ks_ServerWriteKey schedule else ks_ClientWriteKey schedule) b = Inr c"
    using role_codecs_ok [OF assms(1)] .
  obtain ow' where ow': "(if \<not> role then newClientNonceOwnerV1 else newRelayNonceOwnerV1) schedule (context_mode context) b' = Inr ow'"
    "newEnvelopeCodecBackendV1 schedule context ow'
      (if \<not> role then ks_ClientWriteKey schedule else ks_ServerWriteKey schedule)
      (if \<not> role then ks_ServerWriteKey schedule else ks_ClientWriteKey schedule) b' = Inr r"
    using role_codecs_ok [OF assms(2)] .
  let ?dir = "if role then DirectionClientToRelayV1 else DirectionRelayToClientV1"
  let ?base = "if role then ks_ClientNonceBase schedule else ks_ServerNonceBase schedule"
  obtain s where s: "no_outbound ow = Some s"
    "newNonceDirectionBackendV1 (ks_Epoch schedule) ?dir ?base (context_mode context) b = Inr s"
    using ow(1) by (cases role) (auto simp: new_owner_defs result_simps owner_parts_ok split: if_splits)
  have inbound: "newNonceDirectionConfigV1 (ks_Epoch schedule) ?dir ?base (context_mode context) = Inr (no_inbound ow')"
    using ow'(1) by (cases role) (auto simp: new_owner_defs result_simps owner_parts_ok split: if_splits)
  note ds = direction_backend_ok [OF s(2)]
  have config: "no_inbound ow' = nd_config s"
    using inbound ds by (auto simp: newNonceDirectionConfigV1_def result_simps split: if_splits)
  have c: "cd_context c = context" "es_owner (cd_state c) = Some ow"
      "cd_outbound c = Some (if role then ks_ClientWriteKey schedule else ks_ServerWriteKey schedule)"
      "\<not> es_destroyed (cd_state c)" "\<not> es_sealFail (cd_state c)"
    using ow(2) by (auto simp: newEnvelopeCodecBackendV1_def newAEADV1_def result_simps split: if_splits)
  have r: "cd_context r = context" "es_owner (cd_state r) = Some ow'" "cd_epoch r = ks_Epoch schedule"
      "es_inboundDirection (cd_state r) = nc_direction (no_inbound ow')"
      "cd_inbound r = Some (if role then ks_ClientWriteKey schedule else ks_ServerWriteKey schedule)"
      "length (if role then ks_ClientWriteKey schedule else ks_ServerWriteKey schedule) = 32"
    using ow'(2)
    by (auto simp: newEnvelopeCodecBackendV1_def newAEADV1_def result_simps InboundDirectionV1_def split: if_splits)
  have "codec_rep r (\<lambda>k. used (get_sequence s k))"
  proof -
    have "codec_rep r (\<lambda>_. {})"
      by (rule new_codec_rep [OF ow'(2)])
    moreover have "used (get_sequence s k) = {}" if "unat k < context_domains context" for k
      using ds that by (simp add: used_def zero_sequence_def context_domains_def)
    ultimately show ?thesis
      using r(1) by (auto simp: codec_rep_def)
  qed
  then show ?thesis
    unfolding in_step_def using s(1) ds c r config
    by - (rule exI [of _ ow], rule exI [of _ s], rule exI [of _ ow'], rule exI [of _
      "if role then ks_ClientWriteKey schedule else ks_ServerWriteKey schedule"],
      auto simp: direction_inv_def)
qed

text \<open>The sealed messages of a run with their records, in order.\<close>

definition sealed_pairs :: "'m list \<Rightarrow> ('e + 'r) list \<Rightarrow> ('m \<times> 'r) list" where
  "sealed_pairs ms rs = concat (map (\<lambda>(m, r). case r of Inl _ \<Rightarrow> [] | Inr e \<Rightarrow> [(m, e)]) (zip ms rs))"

lemma in_step_run:
  assumes "in_step c r" "aead_correct gcm"
  shows "fst (alloc_run (open_msg gcm) r (sealed_pairs ms (fst (alloc_run (seal_msg gcm) c ms)))) =
    map (\<lambda>(m, e). Inr (plaintext_of m)) (sealed_pairs ms (fst (alloc_run (seal_msg gcm) c ms)))
    \<and> in_step (snd (alloc_run (seal_msg gcm) c ms))
        (snd (alloc_run (open_msg gcm) r (sealed_pairs ms (fst (alloc_run (seal_msg gcm) c ms)))))"
  using assms(1)
proof (induction ms arbitrary: c r)
  case Nil
  then show ?case by (simp add: sealed_pairs_def)
next
  case (Cons m ms)
  obtain q c' where seal: "seal_msg gcm c m = (q, c')" by fastforce
  show ?case
  proof (cases q)
    case (Inl e)
    have "c' = c"
      using Cons.prems seal_msg_refused seal Inl by (auto simp: in_step_def)
    then show ?thesis
      using Cons.IH [OF Cons.prems] seal Inl
      by (simp add: alloc_run_Cons_eq sealed_pairs_def del: alloc_run.simps(2))
  next
    case (Inr e)
    obtain r' where r': "open_msg gcm r (m, e) = (Inr (plaintext_of m), r')" "in_step c' r'"
      using in_step_delivers [OF Cons.prems assms(2)] seal Inr by blast
    then show ?thesis
      using Cons.IH [OF r'(2)] seal Inr
      by (simp add: alloc_run_Cons_eq sealed_pairs_def del: alloc_run.simps(2))
  qed
qed

section \<open>No record is opened twice\<close>

lemma open_msg_cases:
  assumes "codec_rep c H" "open_msg gcm c (m, e) = (q, c')" "k = replayKeyV1 c (er_Slot e)"
  shows "case q of Inl _ \<Rightarrow> c' = c
    | Inr _ \<Rightarrow> unat (er_Sequence e) \<notin> H k \<and> (\<exists>w. c' = put_window c k w) \<and>
        codec_rep c' (H(k := insert (unat (er_Sequence e)) (H k)))"
proof (cases "authenticateDestinationV1 gcm None (msg_class m) e (msg_aad m) c")
  case (Inl err)
  then show ?thesis
    using assms(2) by (auto simp: open_msg_eq open_with_def)
next
  case (Inr pc)
  then obtain p where p: "pc = (p, \<lparr> ar_slot = er_Slot e, ar_sequence = er_Sequence e, ar_decided = False \<rparr>)"
    by (auto simp: authenticateDestinationV1_def Let_def result_simps split: if_splits option.splits)
  have auth: "es_replayAuthority (cd_state c)"
    using assms(1) by (simp add: codec_rep_def)
  show ?thesis
  proof (cases "commitReplayV1 c (er_Slot e) (er_Sequence e)")
    case (Inl err)
    then show ?thesis
      using assms(2) Inr p auth by (auto simp: open_msg_eq open_with_def Commit_def)
  next
    case ok: (Inr c1)
    then have "q = Inr p" "c' = c1"
      using assms(2) Inr p auth by (auto simp: open_msg_eq open_with_def Commit_def)
    then show ?thesis
      using commit_step(2) [OF assms(1,3) ok] by simp
  qed
qed

text \<open>The replay identity of a record: the key of its window and its sequence.\<close>

definition replay_identity :: "envelope_codec \<Rightarrow> envelope_record \<Rightarrow> u16 \<times> u64" where
  "replay_identity c e = (replayKeyV1 c (er_Slot e), er_Sequence e)"

definition opened :: "(message \<times> envelope_record) list \<Rightarrow> (sec_error + bytes) list \<Rightarrow> envelope_record list" where
  "opened ms rs = map (snd \<circ> fst) (filter (\<lambda>(m, r). is_ok r) (zip ms rs))"

lemma replay_identity_put [simp]: "replay_identity (put_window c k w) = replay_identity c"
  by (rule ext) (simp add: replay_identity_def replayKeyV1_def)

lemma open_run_fresh:
  assumes "codec_rep c H"
  shows "distinct (map (replay_identity c) (opened ms (fst (alloc_run (open_msg gcm) c ms))))
    \<and> (\<forall>e \<in> set (opened ms (fst (alloc_run (open_msg gcm) c ms))).
        unat (er_Sequence e) \<notin> H (replayKeyV1 c (er_Slot e)))"
  using assms
proof (induction ms arbitrary: c H)
  case Nil
  then show ?case by (simp add: opened_def)
next
  case (Cons me ms)
  obtain m e where me: "me = (m, e)" by fastforce
  obtain q c' where op: "open_msg gcm c (m, e) = (q, c')" by fastforce
  let ?k = "replayKeyV1 c (er_Slot e)"
  show ?case
  proof (cases q)
    case (Inl err)
    then have "c' = c"
      using open_msg_cases [OF Cons.prems op refl] by simp
    then show ?thesis
      using Cons.IH [OF Cons.prems] op Inl me
      by (simp add: alloc_run_Cons_eq opened_def del: alloc_run.simps(2))
  next
    case (Inr p)
    then obtain w where w: "unat (er_Sequence e) \<notin> H ?k" "c' = put_window c ?k w"
      "codec_rep c' (H(?k := insert (unat (er_Sequence e)) (H ?k)))"
      using open_msg_cases [OF Cons.prems op refl] by auto
    have key: "replayKeyV1 c' = replayKeyV1 c"
      by (rule ext) (simp add: w(2) replayKeyV1_def)
    have ident: "replay_identity c' = replay_identity c"
      by (simp add: w(2))
    note ih = Cons.IH [OF w(3), unfolded ident key]
    let ?later = "opened ms (fst (alloc_run (open_msg gcm) c' ms))"
    have later: "opened (me # ms) (fst (alloc_run (open_msg gcm) c (me # ms))) = e # ?later"
      using op Inr me by (simp add: alloc_run_Cons_eq opened_def del: alloc_run.simps(2))
    have fresh: "unat (er_Sequence e') \<notin> (H(?k := insert (unat (er_Sequence e)) (H ?k)))
        (replayKeyV1 c (er_Slot e'))" if "e' \<in> set ?later" for e'
      using conjunct2 [OF ih] that by blast
    have "replay_identity c e \<noteq> replay_identity c e'" if "e' \<in> set ?later" for e'
      using fresh [OF that] by (auto simp: replay_identity_def)
    then have "replay_identity c e \<notin> replay_identity c ` set ?later"
      by blast
    moreover have "unat (er_Sequence e') \<notin> H (replayKeyV1 c (er_Slot e'))" if "e' \<in> set ?later" for e'
      using fresh [OF that] by (cases "replayKeyV1 c (er_Slot e') = ?k") simp_all
    ultimately show ?thesis
      using conjunct1 [OF ih] w(1) unfolding later by simp
  qed
qed

section \<open>Progress\<close>

text \<open>No counter is ahead of the number of messages offered so far.\<close>

definition counted :: "nonce_sequence \<Rightarrow> nat \<Rightarrow> bool" where
  "counted q n \<longleftrightarrow> (if nseq_exhausted q then 2 ^ 64 \<le> n else unat (nseq_next q) \<le> n)"

lemma counted_advance: "counted q n \<Longrightarrow> counted (advance_sequence q) (Suc n)"
  by (cases "nseq_exhausted q"; cases "nseq_next q = - 1")
    (simp_all add: counted_def advance_sequence_def unat_max_u64 unat_Suc_u64)

lemma counted_mono: "counted q n \<Longrightarrow> counted q (Suc n)"
  by (auto simp: counted_def split: if_splits)

text \<open>A message the codec can seal: class and slot agree, and the record fits.\<close>

definition msg_fits :: "aead \<Rightarrow> envelope_codec \<Rightarrow> message \<Rightarrow> bool" where
  "msg_fits gcm c m \<longleftrightarrow>
    (case m of ControlMsg t p a \<Rightarrow> t \<noteq> 0 \<and> t \<noteq> 1 | AppMsg slot p \<Rightarrow> slot \<noteq> 0) \<and>
    length (plaintext_of m) + aead_Overhead gcm \<le> unat (ec_MaxEnvelopeBytes (cd_context c))"

definition live_sender :: "envelope_codec \<Rightarrow> nat \<Rightarrow> bool" where
  "live_sender c n \<longleftrightarrow> (\<exists>x s. es_owner (cd_state c) = Some x \<and> no_outbound x = Some s \<and> store_ok s \<and>
    nonce_config_validateV1 (nd_config s) = None \<and> cd_outbound c \<noteq> None \<and>
    \<not> es_destroyed (cd_state c) \<and> \<not> es_sealFail (cd_state c) \<and>
    (\<forall>k. unat k < nonceDomainsV3 (nc_mode (nd_config s)) \<longrightarrow> counted (get_sequence s k) n))"

lemma live_sender_step:
  assumes "live_sender c n"
  shows "live_sender (snd (seal_msg gcm c m)) (Suc n) \<and> cd_context (snd (seal_msg gcm c m)) = cd_context c"
proof -
  obtain x s key where st: "es_owner (cd_state c) = Some x" "no_outbound x = Some s" "store_ok s"
    "nonce_config_validateV1 (nd_config s) = None" "cd_outbound c = Some key"
    "\<not> es_destroyed (cd_state c)" "\<not> es_sealFail (cd_state c)"
    "\<And>k. unat k < nonceDomainsV3 (nc_mode (nd_config s)) \<Longrightarrow> counted (get_sequence s k) n"
    using assms unfolding live_sender_def by auto
  obtain q c' where seal: "seal_msg gcm c m = (q, c')" by fastforce
  show ?thesis
  proof (cases q)
    case (Inl e)
    then have "c' = c"
      using seal_msg_refused [OF _ st(1,2,7)] seal by blast
    then show ?thesis
      using assms seal by (auto simp: live_sender_def counted_mono)
  next
    case (Inr r)
    obtain a s' where e: "allocateV1 s (msg_class m) (msg_slot m) = (Inr a, s')"
      "c' = c\<lparr>cd_state := (cd_state c)\<lparr>es_owner := Some (x\<lparr>no_outbound := Some s'\<rparr>)\<rparr>\<rparr>"
      using seal_msg_ok [OF seal [unfolded Inr] st(1,2,5)] by metis
    note al = allocateV1_Inr [OF e(1), unfolded Let_def]
    have "counted (get_sequence s' k) (Suc n)" if "unat k < nonceDomainsV3 (nc_mode (nd_config s))" for k
      using al st(8) [OF that] by (auto simp: get_put_sequence [OF st(3)] counted_advance counted_mono)
    then show ?thesis
      using seal e(2) st al by (auto simp: live_sender_def)
  qed
qed

lemma live_sender_run:
  assumes "live_sender c n"
  shows "live_sender (snd (alloc_run (seal_msg gcm) c ms)) (n + length ms)
    \<and> cd_context (snd (alloc_run (seal_msg gcm) c ms)) = cd_context c"
  using assms
proof (induction ms arbitrary: c n)
  case (Cons m ms)
  have "live_sender (snd (seal_msg gcm c m)) (Suc n)" "cd_context (snd (seal_msg gcm c m)) = cd_context c"
    using live_sender_step [OF Cons.prems] by simp_all
  then show ?case
    using Cons.IH [of "snd (seal_msg gcm c m)" "Suc n"]
    by (simp add: alloc_run_Cons_eq del: alloc_run.simps(2))
qed simp

lemma live_sender_seals:
  assumes "live_sender c n" "n < 2 ^ 64" "msg_fits gcm c m"
  shows "is_ok (fst (seal_msg gcm c m))"
proof -
  obtain x s key where st: "es_owner (cd_state c) = Some x" "no_outbound x = Some s"
    "nonce_config_validateV1 (nd_config s) = None" "cd_outbound c = Some key"
    "\<not> es_destroyed (cd_state c)" "\<not> es_sealFail (cd_state c)"
    "counted (get_sequence s (state_slot (nd_config s) (msg_slot m))) n"
    using assms(1) state_slot_less unfolding live_sender_def by blast
  have "\<not> nseq_exhausted (get_sequence s (state_slot (nd_config s) (msg_slot m)))"
    using st(7) assms(2) by (auto simp: counted_def)
  moreover have "validateNonceSlotV1 (msg_class m) (msg_slot m) = None"
    using assms(3) by (auto simp: msg_fits_def validateNonceSlotV1_def msg_defs nonce_classes split: message.splits)
  moreover obtain nonce where
    "deriveNonceV1 (nd_config s) (msg_slot m)
      (nseq_next (get_sequence s (state_slot (nd_config s) (msg_slot m)))) = Inr nonce"
    using deriveNonceV1_total [OF st(3)] by (auto simp: is_ok_iff)
  ultimately have "\<exists>a s'. allocateV1 s (msg_class m) (msg_slot m) = (Inr a, s')"
    using st(3) by (simp add: allocateV1_def Let_def)
  then obtain a s' where "allocate_nonce c (msg_class m) (msg_slot m) =
      (Inr a, c\<lparr>cd_state := (cd_state c)\<lparr>es_owner := Some (x\<lparr>no_outbound := Some s'\<rparr>)\<rparr>\<rparr>)"
    using allocate_nonce_msg [OF st(1,2), of m] by auto
  moreover have "msg_type m \<noteq> 0" "\<not> class_mismatch (msg_class m) (msg_type m)"
    using assms(3) by (auto simp: msg_fits_def class_mismatch_def msg_defs nonce_classes split: message.splits)
  ultimately show ?thesis
    using assms(3) st by (simp add: seal_msg_eq sealDestinationV1_def msg_fits_def Let_def)
qed

lemma new_live_sender:
  assumes "newRoleEnvelopeV1 sz schedule context role b = Inr c"
  shows "live_sender c 0"
proof -
  obtain ow where ow: "(if role then newClientNonceOwnerV1 else newRelayNonceOwnerV1) schedule (context_mode context) b = Inr ow"
    "newEnvelopeCodecBackendV1 schedule context ow
      (if role then ks_ClientWriteKey schedule else ks_ServerWriteKey schedule)
      (if role then ks_ServerWriteKey schedule else ks_ClientWriteKey schedule) b = Inr c"
    using role_codecs_ok [OF assms] .
  obtain s where s: "no_outbound ow = Some s"
    "newNonceDirectionBackendV1 (ks_Epoch schedule)
      (if role then DirectionClientToRelayV1 else DirectionRelayToClientV1)
      (if role then ks_ClientNonceBase schedule else ks_ServerNonceBase schedule) (context_mode context) b = Inr s"
    using ow(1) by (cases role) (auto simp: new_owner_defs result_simps owner_parts_ok split: if_splits)
  have "es_owner (cd_state c) = Some ow" "cd_outbound c \<noteq> None" "\<not> es_destroyed (cd_state c)"
    "\<not> es_sealFail (cd_state c)"
    using ow(2) by (auto simp: newEnvelopeCodecBackendV1_def newAEADV1_def result_simps split: if_splits)
  then show ?thesis
    using s(1) direction_backend_ok [OF s(2)]
    by (auto simp: live_sender_def direction_inv_def counted_def zero_sequence_def)
qed

section \<open>Associated data binds the record\<close>

definition context_typed :: "envelope_context \<Rightarrow> bool" where
  "context_typed x \<longleftrightarrow> list_all (\<lambda>h. length h = 32) [ec_EffectivePolicyHash x, ec_TranscriptHash x,
    ec_CapabilityHash x, ec_ProfileHash x, ec_FramingHash x, ec_CarrierContextHash x]"

definition full_equal :: "envelope_context \<Rightarrow> envelope_context \<Rightarrow> bool" where
  "full_equal x y \<longleftrightarrow> ec_CapabilityHash x = ec_CapabilityHash y \<and> ec_ProfileHash x = ec_ProfileHash y \<and>
    ec_FramingHash x = ec_FramingHash y \<and> ec_CarrierContextHash x = ec_CarrierContextHash y"

lemma put_be_u32_inj [simp]: "put_be 4 (unat a) = put_be 4 (unat b) \<longleftrightarrow> a = (b :: u32)"
  by (auto dest: put_be_unat_inj)

lemma aad_kinds_differ:
  assumes "er_RecordType e = 1" "er_RecordType f \<noteq> 1"
  shows "aadV1 c e a \<noteq> aadV1 d f b"
proof -
  have "hd (aadV1 c e a) = 0" "hd (aadV1 d f b) = 107"
    using assms by (simp_all add: aadV1_def writeApplicationAADV1_def put_be_numeral string_bytes_def numeral_2_eq_2)
  then show ?thesis by auto
qed

lemma application_aad_inj:
  assumes "writeApplicationAADV1 c e = writeApplicationAADV1 d f"
    and "context_typed (cd_context c)" "context_typed (cd_context d)"
    and "full_mode (cd_context c) = full_mode (cd_context d)"
  shows "er_Epoch e = er_Epoch f \<and> er_Direction e = er_Direction f \<and> er_Slot e = er_Slot f
    \<and> er_Sequence e = er_Sequence f \<and> er_SealedLength e = er_SealedLength f \<and> class_value c = class_value d
    \<and> ec_EffectivePolicyHash (cd_context c) = ec_EffectivePolicyHash (cd_context d)
    \<and> ec_TranscriptHash (cd_context c) = ec_TranscriptHash (cd_context d)
    \<and> (full_mode (cd_context c) \<longrightarrow> full_equal (cd_context c) (cd_context d))"
  using assms
  by (cases "full_mode (cd_context d)")
    (simp_all add: writeApplicationAADV1_def context_typed_def full_equal_def)

lemma control_aad_inj:
  assumes "aadV1 c e a = aadV1 d f b" "er_RecordType e \<noteq> 1" "er_RecordType f \<noteq> 1"
    and "context_typed (cd_context c)" "context_typed (cd_context d)"
    and "full_mode (cd_context c) = full_mode (cd_context d)"
  shows "er_RecordType e = er_RecordType f \<and> er_Epoch e = er_Epoch f \<and> er_Direction e = er_Direction f
    \<and> er_Slot e = er_Slot f \<and> er_Sequence e = er_Sequence f \<and> class_value c = class_value d
    \<and> ec_EffectivePolicyHash (cd_context c) = ec_EffectivePolicyHash (cd_context d)
    \<and> ec_TranscriptHash (cd_context c) = ec_TranscriptHash (cd_context d)
    \<and> (full_mode (cd_context c) \<longrightarrow> full_equal (cd_context c) (cd_context d)) \<and> a = b"
  using assms
  by (cases "full_mode (cd_context d)")
    (simp_all add: aadV1_def context_typed_def full_equal_def)

section \<open>Properties\<close>

text \<open>A sealing scheme and a context that meet the hypotheses below.\<close>

definition sample_aead :: aead where
  "sample_aead = \<lparr> aead_seal = (\<lambda>k n p a. p @ replicate 16 0),
    aead_open = (\<lambda>k n q a. Some (take (length q - 16) q)), aead_Overhead = 16 \<rparr>"

lemma sample_aead_correct: "aead_correct sample_aead"
  by (simp add: aead_correct_def sample_aead_def)

definition sample_context :: envelope_context where
  "sample_context =
    \<lparr> ec_EffectivePolicy = sample_policy, ec_MaxEnvelopeBytes = 64,
      ec_EffectivePolicyHash = replicate 32 1, ec_TranscriptHash = replicate 32 2,
      ec_CapabilityHash = replicate 32 3, ec_ProfileHash = replicate 32 4,
      ec_FramingHash = replicate 32 5, ec_CarrierContextHash = replicate 32 6 \<rparr>"

definition sample_sizes :: storage_sizes where
  "sample_sizes = \<lparr> sz_fixed = 1, sz_string = 1, sz_domain = 1, sz_word = 1 \<rparr>"

lemma sample_codec: "is_ok (newRoleEnvelopeV1 sample_sizes sample_schedule sample_context role False)"
  by (cases role; simp only:; code_simp)

lemma sample_codecs:
  obtains c r where "newRoleEnvelopeV1 sample_sizes sample_schedule sample_context True False = Inr c"
    "newRoleEnvelopeV1 sample_sizes sample_schedule sample_context (\<not> True) False = Inr r"
  using sample_codec [of True] sample_codec [of "\<not> True"] unfolding is_ok_iff by blast

text \<open>
  C4: What one role seals the other role opens: for the two codecs of one key schedule and
  context, with either storage on each side and in both directions, opening the sealed records of
  any sequence of control and application messages in the order they were sealed returns every
  plaintext, also when messages in between were refused.
\<close>

theorem envelope_round_trip:
  assumes "aead_correct gcm"
    and "newRoleEnvelopeV1 sz schedule context role b = Inr c"
    and "newRoleEnvelopeV1 sz' schedule context (\<not> role) b' = Inr r"
    and "pairs = sealed_pairs ms (fst (alloc_run (seal_msg gcm) c ms))"
  shows "fst (alloc_run (open_msg gcm) r pairs) = map (\<lambda>(m, e). Inr (plaintext_of m)) pairs"
  using in_step_run [OF roles_in_step [OF assms(2,3)] assms(1)] assms(4) by simp

theorem envelope_round_trip_witness:
  "\<exists>c r pairs. newRoleEnvelopeV1 sample_sizes sample_schedule sample_context True False = Inr c
    \<and> newRoleEnvelopeV1 sample_sizes sample_schedule sample_context (\<not> True) False = Inr r
    \<and> pairs = sealed_pairs [AppMsg 7 [1, 2], ControlMsg 3 [4] [5]]
        (fst (alloc_run (seal_msg sample_aead) c [AppMsg 7 [1, 2], ControlMsg 3 [4] [5]]))
    \<and> fst (alloc_run (open_msg sample_aead) r pairs) = map (\<lambda>(m, e). Inr (plaintext_of m)) pairs"
proof -
  obtain c r where cr: "newRoleEnvelopeV1 sample_sizes sample_schedule sample_context True False = Inr c"
    "newRoleEnvelopeV1 sample_sizes sample_schedule sample_context (\<not> True) False = Inr r"
    by (rule sample_codecs)
  show ?thesis
    using cr envelope_round_trip [OF sample_aead_correct cr refl, of "[AppMsg 7 [1, 2], ControlMsg 3 [4] [5]]"]
    by blast
qed

text \<open>
  C5: The channel does not stall: after any sequence of fewer than 2^64 offered messages, the next
  message that is well formed and fits the record limit is sealed, and the peer that opened the
  records before it opens this one to its plaintext.
\<close>

theorem envelope_progress:
  assumes "aead_correct gcm"
    and "newRoleEnvelopeV1 sz schedule context role b = Inr c"
    and "newRoleEnvelopeV1 sz' schedule context (\<not> role) b' = Inr r"
    and "length ms < 2 ^ 64" "msg_fits gcm c m"
    and "pairs = sealed_pairs ms (fst (alloc_run (seal_msg gcm) c ms))"
  shows "\<exists>e c' r'. seal_msg gcm (snd (alloc_run (seal_msg gcm) c ms)) m = (Inr e, c')
    \<and> open_msg gcm (snd (alloc_run (open_msg gcm) r pairs)) (m, e) = (Inr (plaintext_of m), r')"
proof -
  let ?c = "snd (alloc_run (seal_msg gcm) c ms)"
  have live: "live_sender ?c (length ms)" "cd_context ?c = cd_context c"
    using live_sender_run [OF new_live_sender [OF assms(2)], of gcm ms] by simp_all
  then have "msg_fits gcm ?c m"
    using assms(5) by (simp add: msg_fits_def)
  from live_sender_seals [OF live(1) assms(4) this]
  obtain e c' where e: "seal_msg gcm ?c m = (Inr e, c')"
    by (auto simp: is_ok_iff prod_eq_iff)
  moreover have "in_step ?c (snd (alloc_run (open_msg gcm) r pairs))"
    using in_step_run [OF roles_in_step [OF assms(2,3)] assms(1)] assms(6) by simp
  ultimately show ?thesis
    using in_step_delivers [OF _ assms(1)] by blast
qed

lemma role_codec_context:
  "newRoleEnvelopeV1 sz schedule context role b = Inr c \<Longrightarrow> cd_context c = context"
  by (auto elim!: role_codecs_ok simp: newEnvelopeCodecBackendV1_def newAEADV1_def result_simps split: if_splits)

theorem envelope_progress_witness:
  "\<exists>c e c'. newRoleEnvelopeV1 sample_sizes sample_schedule sample_context True False = Inr c
    \<and> seal_msg sample_aead (snd (alloc_run (seal_msg sample_aead) c [ControlMsg 3 [4] [5]])) (AppMsg 7 [1, 2])
      = (Inr e, c')"
proof -
  obtain c r where cr: "newRoleEnvelopeV1 sample_sizes sample_schedule sample_context True False = Inr c"
    "newRoleEnvelopeV1 sample_sizes sample_schedule sample_context (\<not> True) False = Inr r"
    by (rule sample_codecs)
  have "length [ControlMsg 3 [4] [5]] < 2 ^ 64" by simp
  moreover have "msg_fits sample_aead c (AppMsg 7 [1, 2])"
    using role_codec_context [OF cr(1)] by (simp add: msg_fits_def sample_aead_def sample_context_def)
  ultimately show ?thesis
    using cr(1) envelope_progress [OF sample_aead_correct cr _ _ refl] by blast
qed

text \<open>
  C6: No record is opened twice: over any sequence of open attempts on a codec, with records from
  anywhere and an arbitrary sealing scheme, the records it accepts have pairwise different replay
  identities (the window key of the slot and the sequence number).
\<close>

theorem envelope_opened_once:
  assumes "newRoleEnvelopeV1 sz schedule context role b = Inr c"
  shows "distinct (map (replay_identity c) (opened ms (fst (alloc_run (open_msg gcm) c ms))))"
  using role_codecs_ok [OF assms] new_codec_rep open_run_fresh by metis

theorem envelope_opened_once_witness:
  "\<exists>c. newRoleEnvelopeV1 sample_sizes sample_schedule sample_context True False = Inr c
    \<and> (\<forall>e. distinct (map (replay_identity c) (opened [(AppMsg 7 [], e), (AppMsg 7 [], e)]
        (fst (alloc_run (open_msg sample_aead) c [(AppMsg 7 [], e), (AppMsg 7 [], e)])))))"
proof -
  obtain c where "newRoleEnvelopeV1 sample_sizes sample_schedule sample_context True False = Inr c"
    using sample_codec unfolding is_ok_iff by blast
  then show ?thesis
    using envelope_opened_once by blast
qed

text \<open>
  C7: The associated data binds a record to its place: equal associated data of two records under
  contexts of the same envelope mode means the same record kind and type, epoch, direction, slot,
  sequence and class, the same policy and transcript hashes, in full mode the same capability,
  profile, framing and carrier hashes, and the same sealed length of application records or caller
  data of control records.
\<close>

theorem envelope_aad_binds:
  assumes "aadV1 c e a = aadV1 d f b"
    and "context_typed (cd_context c)" "context_typed (cd_context d)"
    and "full_mode (cd_context c) = full_mode (cd_context d)"
  shows "er_RecordType e = er_RecordType f \<and> er_Epoch e = er_Epoch f \<and> er_Direction e = er_Direction f
    \<and> er_Slot e = er_Slot f \<and> er_Sequence e = er_Sequence f \<and> class_value c = class_value d
    \<and> ec_EffectivePolicyHash (cd_context c) = ec_EffectivePolicyHash (cd_context d)
    \<and> ec_TranscriptHash (cd_context c) = ec_TranscriptHash (cd_context d)
    \<and> (full_mode (cd_context c) \<longrightarrow> full_equal (cd_context c) (cd_context d))
    \<and> (if er_RecordType e = 1 then er_SealedLength e = er_SealedLength f else a = b)"
proof (cases "er_RecordType e = 1")
  case True
  then have f: "er_RecordType f = 1"
    using assms(1) aad_kinds_differ by metis
  then have "writeApplicationAADV1 c e = writeApplicationAADV1 d f"
    using True assms(1) by (simp add: aadV1_def)
  then show ?thesis
    using application_aad_inj [OF _ assms(2-4)] True f by simp
next
  case False
  then have "er_RecordType f \<noteq> 1"
    using assms(1) aad_kinds_differ by metis
  then show ?thesis
    using control_aad_inj [OF assms(1) False _ assms(2-4)] False by simp
qed

definition sample_record :: envelope_record where
  "sample_record = \<lparr> er_RecordType = 1, er_Epoch = 0, er_Direction = 1, er_Slot = 7, er_Sequence = 2,
    er_SealedLength = 18, er_Ciphertext = [] \<rparr>"

theorem envelope_aad_binds_witness:
  "\<exists>c. newRoleEnvelopeV1 sample_sizes sample_schedule sample_context True False = Inr c
    \<and> aadV1 c sample_record [] \<noteq> aadV1 c (sample_record\<lparr>er_Sequence := 3\<rparr>) []
    \<and> aadV1 c sample_record [] \<noteq> aadV1 c (sample_record\<lparr>er_SealedLength := 19\<rparr>) []"
proof -
  obtain c where c: "newRoleEnvelopeV1 sample_sizes sample_schedule sample_context True False = Inr c"
    using sample_codec unfolding is_ok_iff by blast
  have "context_typed (cd_context c)"
    unfolding role_codec_context [OF c] by (simp add: context_typed_def sample_context_def)
  note bind = envelope_aad_binds [OF _ this this refl]
  show ?thesis
    using c bind [of sample_record "[]" "sample_record\<lparr>er_Sequence := 3\<rparr>" "[]"]
      bind [of sample_record "[]" "sample_record\<lparr>er_SealedLength := 19\<rparr>" "[]"]
    by (auto simp: sample_record_def)
qed

end
