(* ===== verification/Authenticated_Context.thy ===== *)
theory Authenticated_Context
  imports Transcript_Encoding
begin

text \<open>
  The authenticated context of \<open>internal/crypto/security/authenticated_context.go\<close>: the
  compatibility, limit and configuration blocks retained from the profile, their canonical bytes
  and hashes, the authenticated mode binding and the context hash that both peers compare. The
  lemmas show that each canonical encoding determines what it encodes, up to the property that
  the bytes under the context hash bind the policy, the transcript, the suite and both mode
  bindings completely. SHA-256 and the JSON marshallers come from \<^typ>\<open>sec_env\<close>.
\<close>

section \<open>Blocks\<close>

definition contextHash :: "sec_env \<Rightarrow> string \<Rightarrow> bytes list \<Rightarrow> bytes" where
  "contextHash env label parts = se_sha256 env (lp_concat (string_bytes label # parts))"

definition writeU64Context :: "u64 \<Rightarrow> bytes" where
  "writeU64Context v = put_be 8 (unat v)"

definition strict_bytes :: "string list \<Rightarrow> bytes" where
  "strict_bytes values = (case encodeStrictStringListV1 values of Inr raw \<Rightarrow> raw | Inl _ \<Rightarrow> [])"

fun compatibility_list_error :: "nat \<Rightarrow> string list list \<Rightarrow> sec_error option" where
  "compatibility_list_error i [] = None"
| "compatibility_list_error i (values # rest) =
    (if i < 3 \<and> values = [] then Some ErrInvalidTranscript
     else (case encodeStrictStringListV1 values of
         Inl e \<Rightarrow> Some e
       | Inr _ \<Rightarrow> compatibility_list_error (Suc i) rest))"

definition compatibility_versions :: "compatibility_block \<Rightarrow> string list" where
  "compatibility_versions v =
    [cb_SchemaVersion v, cb_CompilerSecurityVersion v, cb_MinimumRuntimeVersion v]"

definition compatibility_lists :: "compatibility_block \<Rightarrow> string list list" where
  "compatibility_lists v =
    [cb_SupportedSecuritySuites v, cb_RequiredCapabilities v, cb_SupportedCarrierFamilies v,
     cb_SupportedProxyFeatures v, cb_SupportedStreamFeatures v]"

fun ascii_error :: "string list \<Rightarrow> sec_error option" where
  "ascii_error [] = None"
| "ascii_error (v # rest) = or_else (validateASCII v) (ascii_error rest)"

definition ValidateCompatibilityBlockV1 :: "compatibility_block \<Rightarrow> sec_error option" where
  "ValidateCompatibilityBlockV1 v =
    or_else (ascii_error (compatibility_versions v))
    (or_else (compatibility_list_error 0 (compatibility_lists v))
    (if cb_MaxEnvelopeBytes v = 0 \<or> cb_MaxStreamCount v = 0 \<or> cb_MaxReplayWindow v = 0
     then Some ErrInvalidTranscript else None))"

definition CanonicalCompatibilityBlockV1 :: "compatibility_block \<Rightarrow> sec_error + bytes" where
  "CanonicalCompatibilityBlockV1 v =
    guard_result (ValidateCompatibilityBlockV1 v)
     (Inr (lp_concat (map string_bytes (compatibility_versions v))
       @ lp_concat (map strict_bytes (compatibility_lists v))
       @ writeU32 (cb_MaxEnvelopeBytes v) @ writeU32 (cb_MaxStreamCount v)
       @ writeU32 (cb_MaxReplayWindow v)))"

definition CompatibilityBlockHashV1 :: "sec_env \<Rightarrow> compatibility_block \<Rightarrow> sec_error + bytes" where
  "CompatibilityBlockHashV1 env v =
    bind_result (CanonicalCompatibilityBlockV1 v) (\<lambda>raw.
      Inr (contextHash env ''kurdistan/context/v1/compatibility-block'' [raw]))"

definition ValidateLimitBlockV1 :: "limit_block \<Rightarrow> sec_error option" where
  "ValidateLimitBlockV1 v =
    (if lb_MaxFrameBytes v = 0 \<or> lb_MaxPayloadBytes v = 0 \<or> lb_MaxStates v = 0 \<or>
        lb_MaxTransitions v = 0 \<or> lb_MaxSessionMillis v = 0 \<or>
        lb_CarrierMaxEnvelopeBytes v = 0 \<or> lb_CarrierMaxQueueDepth v = 0 \<or>
        lb_SessionMaxConcurrentStreams v = 0 \<or> lb_CarrierMaxEnvelopeBytes v > lb_MaxFrameBytes v
     then Some ErrInvalidTranscript else None)"

definition CanonicalLimitBlockV1 :: "limit_block \<Rightarrow> sec_error + bytes" where
  "CanonicalLimitBlockV1 v =
    guard_result (ValidateLimitBlockV1 v)
     (Inr (writeU32 (lb_MaxFrameBytes v) @ writeU32 (lb_MaxPayloadBytes v)
       @ writeU32 (lb_MaxStates v) @ writeU32 (lb_MaxTransitions v)
       @ writeU64Context (lb_MaxSessionMillis v) @ writeU32 (lb_CarrierMaxEnvelopeBytes v)
       @ writeU32 (lb_CarrierMaxQueueDepth v) @ writeU32 (lb_SessionMaxConcurrentStreams v)))"

definition LimitBlockHashV1 :: "sec_env \<Rightarrow> limit_block \<Rightarrow> sec_error + bytes" where
  "LimitBlockHashV1 env v =
    bind_result (CanonicalLimitBlockV1 v) (\<lambda>raw.
      Inr (contextHash env ''kurdistan/context/v1/limit-block'' [raw]))"

definition ValidateSelectedSuiteV1 :: "selected_suite \<Rightarrow> sec_error option" where
  "ValidateSelectedSuiteV1 v = ascii_error [ss_KDFSuite v, ss_AEADSuite v, ss_MACSuite v]"

definition CanonicalSelectedSuiteV1 :: "selected_suite \<Rightarrow> sec_error + bytes" where
  "CanonicalSelectedSuiteV1 v =
    guard_result (ValidateSelectedSuiteV1 v)
     (Inr (lp_concat (map string_bytes [ss_KDFSuite v, ss_AEADSuite v, ss_MACSuite v])))"

definition ValidateConfigSourceBlockV1 :: "config_source_block \<Rightarrow> sec_error option" where
  "ValidateConfigSourceBlockV1 v =
    or_else (validateASCII (csb_ProfileID v))
    (or_else (validateASCII (csb_SecurityVersion v))
    (or_else (ValidateSelectedSuiteV1 (csb_SelectedSuite v))
    (or_else (validateASCII (csb_AdapterClass v))
    (if list_ex allZero32 [csb_ProfileHash v, csb_EffectivePolicyHash v,
         csb_SelectedCapabilityHash v, csb_CompatibilityBlockHash v, csb_LimitBlockHash v]
     then Some ErrInvalidTranscript else None))))"

definition ok_bytes :: "sec_error + bytes \<Rightarrow> bytes" where
  "ok_bytes r = (case r of Inr raw \<Rightarrow> raw | Inl _ \<Rightarrow> [])"

definition CanonicalConfigSourceBlockV1 :: "config_source_block \<Rightarrow> sec_error + bytes" where
  "CanonicalConfigSourceBlockV1 v =
    guard_result (ValidateConfigSourceBlockV1 v)
     (Inr (writeLP (string_bytes (csb_ProfileID v)) @ csb_ProfileHash v
       @ writeLP (string_bytes (csb_SecurityVersion v))
       @ writeLP (ok_bytes (CanonicalSelectedSuiteV1 (csb_SelectedSuite v)))
       @ csb_EffectivePolicyHash v @ csb_SelectedCapabilityHash v
       @ writeLP (string_bytes (csb_AdapterClass v))
       @ csb_CompatibilityBlockHash v @ csb_LimitBlockHash v))"

definition ConfigSourceBlockHashV1 :: "sec_env \<Rightarrow> config_source_block \<Rightarrow> sec_error + bytes" where
  "ConfigSourceBlockHashV1 env v =
    bind_result (CanonicalConfigSourceBlockV1 v) (\<lambda>raw.
      Inr (contextHash env ''kurdistan/context/v1/config-source-block'' [raw]))"

definition EffectivePolicyHashV1 :: "sec_env \<Rightarrow> effective_security_policy \<Rightarrow> sec_error + bytes" where
  "EffectivePolicyHashV1 env policy =
    bind_result (EncodePolicyV1 (se_ir env) policy) (\<lambda>raw.
      Inr (contextHash env ''kurdistan/policy/v1/effective'' [raw]))"

definition SelectedCapabilityHashV1 :: "sec_env \<Rightarrow> string list \<Rightarrow> sec_error + bytes" where
  "SelectedCapabilityHashV1 env values =
    (if values = [] then Inl ErrInvalidTranscript
     else bind_result (encodeStrictStringListV1 values) (\<lambda>_.
       case CapabilitySet_Hash env values of
         Inl _ \<Rightarrow> Inl ErrInvalidTranscript
       | Inr encoded \<Rightarrow>
           if length encoded \<noteq> 64 then Inl ErrInvalidTranscript
           else (case hex_decode encoded of
               None \<Rightarrow> Inl ErrInvalidTranscript
             | Some raw \<Rightarrow>
                 if length raw \<noteq> 32 \<or> allZero32 raw then Inl ErrInvalidTranscript else Inr raw)))"

section \<open>The authenticated mode binding\<close>

definition knownTranscriptModeV1 :: "string \<Rightarrow> bool" where
  "knownTranscriptModeV1 mode \<longleftrightarrow> mode = TranscriptCanonicalV1 \<or> mode = TranscriptCapabilitiesV1 \<or>
    mode = TranscriptCarrierBindingV1 \<or> mode = TranscriptFullBindingV1"

definition binding_lists :: "mode_binding \<Rightarrow> string list list" where
  "binding_lists b = [mb_ClientOptional b, mb_ServerOptional b, mb_FeatureVectors b]"

fun strict_list_error :: "string list list \<Rightarrow> sec_error option" where
  "strict_list_error [] = None"
| "strict_list_error (values # rest) =
    (case encodeStrictStringListV1 values of Inl e \<Rightarrow> Some e | Inr _ \<Rightarrow> strict_list_error rest)"

definition binding_shape_error :: "string \<Rightarrow> mode_binding \<Rightarrow> sec_error option" where
  "binding_shape_error mode b =
    or_else (if \<not> knownTranscriptModeV1 mode then Some ErrInvalidTranscript else None)
    (or_else (ascii_error [mb_CarrierFamily b, mb_LocalAdapterClass b])
    (or_else (first_error [
      (mb_FeatureVectors b = [] \<or> mb_EnvelopeLimit b = 0 \<or> mb_MaxFrameBytes b = 0 \<or>
       mb_EnvelopeLimit b > mb_MaxFrameBytes b \<or> mb_MaxFrameBytes b > 0x100000 \<or>
       \<not> knownCarrierFamilyV1 (mb_CarrierFamily b) \<or>
       \<not> List.member adapterClasses (mb_LocalAdapterClass b), ErrInvalidTranscript),
      (mb_EnvelopeLimit b \<noteq> lb_CarrierMaxEnvelopeBytes (mb_LimitBlock b) \<or>
       mb_MaxFrameBytes b \<noteq> lb_MaxFrameBytes (mb_LimitBlock b), ErrInvalidTranscript)])
    (or_else (strict_list_error (binding_lists b))
    (first_error [
      (list_ex allZero32 (mb_CarrierPolicyHash b # full_hashes b
        @ [mb_CompatibilityBlockHash b, mb_LimitBlockHash b, mb_ConfigSourceBlockHash b]),
       ErrInvalidTranscript)]))))"

definition config_mismatch :: "sec_env \<Rightarrow> mode_binding \<Rightarrow> bool" where
  "config_mismatch env b \<longleftrightarrow>
    ok_bytes (ConfigSourceBlockHashV1 env (mb_ConfigSourceBlock b)) \<noteq> mb_ConfigSourceBlockHash b \<or>
    csb_CompatibilityBlockHash (mb_ConfigSourceBlock b) \<noteq> mb_CompatibilityBlockHash b \<or>
    csb_LimitBlockHash (mb_ConfigSourceBlock b) \<noteq> mb_LimitBlockHash b \<or>
    csb_AdapterClass (mb_ConfigSourceBlock b) \<noteq> mb_LocalAdapterClass b"

definition binding_bytes :: "string \<Rightarrow> mode_binding \<Rightarrow> bytes \<Rightarrow> bytes \<Rightarrow> bytes \<Rightarrow> bytes" where
  "binding_bytes mode b compatibilityRaw limitRaw configRaw =
    writeLP (string_bytes mode) @ lp_concat (map strict_bytes (binding_lists b))
    @ writeLP (string_bytes (mb_CarrierFamily b)) @ mb_CarrierPolicyHash b
    @ writeU32 (mb_EnvelopeLimit b) @ writeU32 (mb_MaxFrameBytes b)
    @ writeLP (string_bytes (mb_LocalAdapterClass b)) @ concat (full_hashes b)
    @ writeLP compatibilityRaw @ mb_CompatibilityBlockHash b
    @ writeLP limitRaw @ mb_LimitBlockHash b
    @ writeLP configRaw @ mb_ConfigSourceBlockHash b"

definition CanonicalAuthenticatedModeBindingV1 :: "sec_env \<Rightarrow> string \<Rightarrow> mode_binding \<Rightarrow> sec_error + bytes" where
  "CanonicalAuthenticatedModeBindingV1 env mode b =
    guard_result (binding_shape_error mode b)
     (bind_result (CanonicalCompatibilityBlockV1 (mb_CompatibilityBlock b)) (\<lambda>compatibilityRaw.
      if ok_bytes (CompatibilityBlockHashV1 env (mb_CompatibilityBlock b)) \<noteq> mb_CompatibilityBlockHash b
      then Inl ErrInvalidTranscript
      else bind_result (CanonicalLimitBlockV1 (mb_LimitBlock b)) (\<lambda>limitRaw.
        if ok_bytes (LimitBlockHashV1 env (mb_LimitBlock b)) \<noteq> mb_LimitBlockHash b
        then Inl ErrInvalidTranscript
        else bind_result (CanonicalConfigSourceBlockV1 (mb_ConfigSourceBlock b)) (\<lambda>configRaw.
          if config_mismatch env b then Inl ErrInvalidTranscript
          else Inr (binding_bytes mode b compatibilityRaw limitRaw configRaw)))))"

section \<open>The context hash\<close>

record context_input =
  ci_EffectivePolicy :: effective_security_policy
  ci_EffectivePolicyHash :: bytes
  ci_TranscriptHash :: bytes
  ci_SelectedSuite :: selected_suite
  ci_SelectedCapabilityHash :: bytes
  ci_ClientProfileHash :: bytes
  ci_ServerProfileHash :: bytes
  ci_ClientModeBinding :: mode_binding
  ci_ServerModeBinding :: mode_binding

definition validateContextBindingV1 ::
    "sec_env \<Rightarrow> context_input \<Rightarrow> mode_binding \<Rightarrow> bytes \<Rightarrow> sec_error + bytes" where
  "validateContextBindingV1 env input b profileHash =
    (let policy = ci_EffectivePolicy input; config = mb_ConfigSourceBlock b;
         compatibility = mb_CompatibilityBlock b in
     guard_result (first_error [
       (cb_MaxReplayWindow compatibility < word_of_int (eff_ReplayWindowSize policy) \<or>
        cb_MaxStreamCount compatibility < lb_SessionMaxConcurrentStreams (mb_LimitBlock b) \<or>
        cb_MaxEnvelopeBytes compatibility < lb_CarrierMaxEnvelopeBytes (mb_LimitBlock b),
        ErrInvalidTranscript),
       (csb_ProfileID config \<noteq> eff_ProfileID policy \<or> csb_ProfileHash config \<noteq> profileHash \<or>
        csb_SecurityVersion config \<noteq> eff_SecurityVersion policy \<or>
        csb_SelectedSuite config \<noteq> ci_SelectedSuite input \<or>
        csb_EffectivePolicyHash config \<noteq> ci_EffectivePolicyHash input \<or>
        csb_SelectedCapabilityHash config \<noteq> ci_SelectedCapabilityHash input \<or>
        cb_SchemaVersion compatibility \<noteq> eff_SchemaVersion policy \<or>
        cb_CompilerSecurityVersion compatibility \<noteq> eff_CompilerSecurityVersion policy \<or>
        cb_MinimumRuntimeVersion compatibility \<noteq> eff_MinimumRuntimeVersion policy,
        ErrInvalidTranscript)])
     (CanonicalAuthenticatedModeBindingV1 env (eff_TranscriptMode policy) b))"

definition context_identity_error :: "sec_env \<Rightarrow> context_input \<Rightarrow> sec_error option" where
  "context_identity_error env input = first_error [
    (ok_bytes (EffectivePolicyHashV1 env (ci_EffectivePolicy input)) \<noteq> ci_EffectivePolicyHash input \<or>
     allZero32 (ci_TranscriptHash input) \<or> allZero32 (ci_SelectedCapabilityHash input) \<or>
     allZero32 (ci_ClientProfileHash input) \<or> allZero32 (ci_ServerProfileHash input),
     ErrInvalidTranscript),
    (case hex_decode (eff_ProfileHash (ci_EffectivePolicy input)) of
       None \<Rightarrow> True
     | Some raw \<Rightarrow> length raw \<noteq> 32 \<or> allZero32 raw \<or> ci_ClientProfileHash input \<noteq> raw \<or>
         ci_ServerProfileHash input \<noteq> raw,
     ErrInvalidTranscript)]"

definition policy_suite :: "effective_security_policy \<Rightarrow> selected_suite" where
  "policy_suite policy = \<lparr> ss_KDFSuite = eff_KDFSuite policy, ss_AEADSuite = eff_AEADSuite policy,
    ss_MACSuite = eff_MACSuite policy \<rparr>"

text \<open>The parts under the hash, in the order in which they are written.\<close>

definition binding_parts :: "mode_binding \<Rightarrow> mode_binding \<Rightarrow> bytes list" where
  "binding_parts c s =
    [ok_bytes (CanonicalCompatibilityBlockV1 (mb_CompatibilityBlock c)), mb_CompatibilityBlockHash c,
     ok_bytes (CanonicalCompatibilityBlockV1 (mb_CompatibilityBlock s)), mb_CompatibilityBlockHash s,
     ok_bytes (CanonicalLimitBlockV1 (mb_LimitBlock c)), mb_LimitBlockHash c,
     ok_bytes (CanonicalLimitBlockV1 (mb_LimitBlock s)), mb_LimitBlockHash s,
     ok_bytes (CanonicalConfigSourceBlockV1 (mb_ConfigSourceBlock c)), mb_ConfigSourceBlockHash c,
     ok_bytes (CanonicalConfigSourceBlockV1 (mb_ConfigSourceBlock s)), mb_ConfigSourceBlockHash s]"

definition context_parts :: "sec_env \<Rightarrow> context_input \<Rightarrow> sec_error + bytes list" where
  "context_parts env input =
    bind_result (EncodePolicyV1 (se_ir env) (ci_EffectivePolicy input)) (\<lambda>policyRaw.
    guard_result (context_identity_error env input)
    (bind_result (CanonicalSelectedSuiteV1 (ci_SelectedSuite input)) (\<lambda>suiteRaw.
     guard_result (first_error [
       (SelectedCapabilityHashV1 env (eff_SelectedCapabilities (ci_EffectivePolicy input))
          \<noteq> Inr (ci_SelectedCapabilityHash input), ErrInvalidTranscript),
       (ci_SelectedSuite input \<noteq> policy_suite (ci_EffectivePolicy input), ErrInvalidTranscript)])
     (bind_result (validateContextBindingV1 env input (ci_ClientModeBinding input)
        (ci_ClientProfileHash input)) (\<lambda>clientMode.
      bind_result (validateContextBindingV1 env input (ci_ServerModeBinding input)
        (ci_ServerProfileHash input)) (\<lambda>serverMode.
        Inr ([put_be 2 1, policyRaw, ci_EffectivePolicyHash input, ci_TranscriptHash input, suiteRaw,
            ci_SelectedCapabilityHash input, ci_ClientProfileHash input, ci_ServerProfileHash input]
          @ binding_parts (ci_ClientModeBinding input) (ci_ServerModeBinding input)
          @ [clientMode, serverMode])))))))"

definition ContextHashV1 :: "sec_env \<Rightarrow> context_input \<Rightarrow> sec_error + bytes" where
  "ContextHashV1 env input =
    bind_result (context_parts env input) (\<lambda>parts.
      Inr (contextHash env ''kurdistan/context/v1/authenticated'' parts))"

section \<open>Canonical bytes determine the blocks\<close>

text \<open>Cancelling a common shape from the front of two byte strings.\<close>

lemma peel_lp:
  assumes "writeLP v @ a = writeLP w @ b" "fits32 v" "fits32 w"
  shows "v = w" "a = b"
  using assms by (simp_all add: writeLP_append_inj fits32_def)

lemma peel_fixed:
  assumes "x @ a = y @ b" "length x = length y"
  shows "x = y" "a = b"
  using assms by simp_all

lemma strict_bytes_eq:
  "encodeStrictStringListV1 values = Inr raw \<Longrightarrow> strict_bytes values = encode_list values"
  using encodeStrict_ok [of "values" raw] by (simp add: strict_bytes_def)

lemma strict_list_error_None:
  "strict_list_error vs = None \<longleftrightarrow> list_all (\<lambda>v. is_ok (encodeStrictStringListV1 v)) vs"
  by (induction vs) (auto split: sum.splits simp: is_ok_iff)

lemma compatibility_list_error_None:
  "compatibility_list_error i vs = None \<Longrightarrow> list_all (\<lambda>v. is_ok (encodeStrictStringListV1 v)) vs"
  by (induction i vs rule: compatibility_list_error.induct) (auto split: sum.splits if_splits simp: is_ok_iff)

lemma strict_lists_inj:
  assumes "list_all (\<lambda>v. is_ok (encodeStrictStringListV1 v)) vs"
    and "list_all (\<lambda>v. is_ok (encodeStrictStringListV1 v)) ws"
    and "length vs = length ws" "fits32 (lp_concat (map strict_bytes vs))"
    and "fits32 (lp_concat (map strict_bytes ws))"
    and "lp_concat (map strict_bytes vs) @ a = lp_concat (map strict_bytes ws) @ b"
  shows "vs = ws \<and> a = b"
  using assms(3,1,2,4-6)
proof (induction vs ws rule: list_induct2)
  case (Cons v vs w ws)
  have eq: "strict_bytes v = encode_list v" "strict_bytes w = encode_list w"
    using Cons.prems by (auto simp: is_ok_iff strict_bytes_eq)
  have fit: "fits32 (encode_list v)" "fits32 (encode_list w)"
    using Cons.prems by (auto simp: fits32_def eq)
  have "writeLP (encode_list v) @ (lp_concat (map strict_bytes vs) @ a)
      = writeLP (encode_list w) @ (lp_concat (map strict_bytes ws) @ b)"
    using Cons.prems by (simp add: eq)
  note peeled = peel_lp [OF this fit]
  have "v = w"
    using peeled(1) encode_list_inj [OF fit] by simp
  moreover have "vs = ws \<and> a = b"
    using Cons.IH Cons.prems peeled(2) by (simp add: fits32_def)
  ultimately show ?case by simp
qed simp

lemma texts_inj:
  assumes "lp_concat (map string_bytes vs) @ a = lp_concat (map string_bytes ws) @ b"
    and "length vs = length ws" "fits32 (lp_concat (map string_bytes vs))"
    and "fits32 (lp_concat (map string_bytes ws))"
  shows "vs = ws" "a = b"
proof -
  have len: "\<forall>v \<in> set (map string_bytes us). length v < 2 ^ 32" if "fits32 (lp_concat (map string_bytes us))" for us
    using length_lp_concat_item [of _ "map string_bytes us"] that by (fastforce simp: fits32_def)
  have "map string_bytes vs = map string_bytes ws \<and> a = b"
    using lp_concat_append_inj [OF len [OF assms(3)] len [OF assms(4)]] assms(1,2) by simp
  then show "vs = ws" "a = b" by simp_all
qed

lemma compatibility_inj:
  assumes "CanonicalCompatibilityBlockV1 v = Inr raw" "CanonicalCompatibilityBlockV1 w = Inr raw" "fits32 raw"
  shows "v = w"
proof -
  have raw: "raw = lp_concat (map string_bytes (compatibility_versions u))
       @ lp_concat (map strict_bytes (compatibility_lists u))
       @ writeU32 (cb_MaxEnvelopeBytes u) @ writeU32 (cb_MaxStreamCount u) @ writeU32 (cb_MaxReplayWindow u)"
    and ok: "list_all (\<lambda>v. is_ok (encodeStrictStringListV1 v)) (compatibility_lists u)"
    if "CanonicalCompatibilityBlockV1 u = Inr raw" for u
    using that
    by (auto simp: CanonicalCompatibilityBlockV1_def ValidateCompatibilityBlockV1_def result_simps
      dest: compatibility_list_error_None)
  have fit: "fits32 (lp_concat (map string_bytes (compatibility_versions u)))"
    "fits32 (lp_concat (map strict_bytes (compatibility_lists u)))"
    if "CanonicalCompatibilityBlockV1 u = Inr raw" for u
    using raw [OF that] assms(3) by (auto simp: fits32_def)
  have len: "length (compatibility_versions v) = length (compatibility_versions w)"
    by (simp add: compatibility_versions_def)
  note eq = trans [OF raw [OF assms(1), symmetric] raw [OF assms(2)]]
  note vs = texts_inj(1) [OF eq len fit(1) [OF assms(1)] fit(1) [OF assms(2)]]
  note r1 = texts_inj(2) [OF eq len fit(1) [OF assms(1)] fit(1) [OF assms(2)]]
  have "compatibility_lists v = compatibility_lists w \<and>
      writeU32 (cb_MaxEnvelopeBytes v) @ writeU32 (cb_MaxStreamCount v) @ writeU32 (cb_MaxReplayWindow v)
      = writeU32 (cb_MaxEnvelopeBytes w) @ writeU32 (cb_MaxStreamCount w) @ writeU32 (cb_MaxReplayWindow w)"
    by (rule strict_lists_inj [OF ok [OF assms(1)] ok [OF assms(2)] _ fit(2) [OF assms(1)] fit(2) [OF assms(2)] r1])
      (simp add: compatibility_lists_def)
  then show ?thesis
    using vs by (simp add: compatibility_versions_def compatibility_lists_def)
qed

lemma writeU64Context_inj [simp]: "writeU64Context v = writeU64Context w \<longleftrightarrow> v = w"
  by (auto simp: writeU64Context_def dest: put_be_unat_inj)

lemma length_writeU64Context [simp]: "length (writeU64Context v) = 8"
  by (simp add: writeU64Context_def)

lemma limit_inj:
  assumes "CanonicalLimitBlockV1 v = Inr raw" "CanonicalLimitBlockV1 w = Inr raw"
  shows "v = w"
proof -
  have "writeU32 (lb_MaxFrameBytes v) @ writeU32 (lb_MaxPayloadBytes v)
       @ writeU32 (lb_MaxStates v) @ writeU32 (lb_MaxTransitions v)
       @ writeU64Context (lb_MaxSessionMillis v) @ writeU32 (lb_CarrierMaxEnvelopeBytes v)
       @ writeU32 (lb_CarrierMaxQueueDepth v) @ writeU32 (lb_SessionMaxConcurrentStreams v) =
     writeU32 (lb_MaxFrameBytes w) @ writeU32 (lb_MaxPayloadBytes w)
       @ writeU32 (lb_MaxStates w) @ writeU32 (lb_MaxTransitions w)
       @ writeU64Context (lb_MaxSessionMillis w) @ writeU32 (lb_CarrierMaxEnvelopeBytes w)
       @ writeU32 (lb_CarrierMaxQueueDepth w) @ writeU32 (lb_SessionMaxConcurrentStreams w)"
    using assms by (auto simp: CanonicalLimitBlockV1_def result_simps)
  then show ?thesis by simp
qed

lemma suite_inj:
  assumes "CanonicalSelectedSuiteV1 v = Inr raw" "CanonicalSelectedSuiteV1 w = Inr raw" "fits32 raw"
  shows "v = w"
proof -
  have raw: "raw = lp_concat (map string_bytes [ss_KDFSuite u, ss_AEADSuite u, ss_MACSuite u])"
    if "CanonicalSelectedSuiteV1 u = Inr raw" for u
    using that by (simp add: CanonicalSelectedSuiteV1_def result_simps)
  have "[ss_KDFSuite v, ss_AEADSuite v, ss_MACSuite v] = [ss_KDFSuite w, ss_AEADSuite w, ss_MACSuite w]"
    by (rule texts_inj(1) [where a = "[]" and b = "[]"])
      (use raw [OF assms(1)] raw [OF assms(2)] assms(3) in simp_all)
  then show ?thesis by simp
qed

text \<open>The fixed-size fields have their size.\<close>

definition config_typed :: "config_source_block \<Rightarrow> bool" where
  "config_typed v \<longleftrightarrow> list_all (\<lambda>h. length h = 32) [csb_ProfileHash v, csb_EffectivePolicyHash v,
    csb_SelectedCapabilityHash v, csb_CompatibilityBlockHash v, csb_LimitBlockHash v]"

definition binding_typed :: "mode_binding \<Rightarrow> bool" where
  "binding_typed b \<longleftrightarrow> config_typed (mb_ConfigSourceBlock b) \<and>
    list_all (\<lambda>h. length h = 32) (mb_CarrierPolicyHash b # full_hashes b
      @ [mb_CompatibilityBlockHash b, mb_LimitBlockHash b, mb_ConfigSourceBlockHash b])"

lemma config_inj:
  assumes "CanonicalConfigSourceBlockV1 v = Inr raw" "CanonicalConfigSourceBlockV1 w = Inr raw"
    and "fits32 raw" "config_typed v" "config_typed w"
  shows "v = w"
proof -
  have raw: "raw = writeLP (string_bytes (csb_ProfileID u)) @ csb_ProfileHash u
       @ writeLP (string_bytes (csb_SecurityVersion u))
       @ writeLP (ok_bytes (CanonicalSelectedSuiteV1 (csb_SelectedSuite u)))
       @ csb_EffectivePolicyHash u @ csb_SelectedCapabilityHash u
       @ writeLP (string_bytes (csb_AdapterClass u))
       @ csb_CompatibilityBlockHash u @ csb_LimitBlockHash u"
    and suite: "\<exists>s. CanonicalSelectedSuiteV1 (csb_SelectedSuite u) = Inr s"
    if "CanonicalConfigSourceBlockV1 u = Inr raw" for u
    using that
    by (auto simp: CanonicalConfigSourceBlockV1_def ValidateConfigSourceBlockV1_def
      CanonicalSelectedSuiteV1_def result_simps)
  obtain s t where st: "CanonicalSelectedSuiteV1 (csb_SelectedSuite v) = Inr s"
    "CanonicalSelectedSuiteV1 (csb_SelectedSuite w) = Inr t"
    using suite [OF assms(1)] suite [OF assms(2)] by blast
  have bounds: "length (csb_ProfileID v) < 2 ^ 32" "length (csb_ProfileID w) < 2 ^ 32"
    "length (csb_SecurityVersion v) < 2 ^ 32" "length (csb_SecurityVersion w) < 2 ^ 32"
    "length s < 2 ^ 32" "length t < 2 ^ 32"
    "length (csb_AdapterClass v) < 2 ^ 32" "length (csb_AdapterClass w) < 2 ^ 32"
    using arg_cong [OF raw [OF assms(1)], of length] arg_cong [OF raw [OF assms(2)], of length]
      assms(3) st by (simp_all add: fits32_def ok_bytes_def)
  have "csb_ProfileID v = csb_ProfileID w \<and> csb_ProfileHash v = csb_ProfileHash w
      \<and> csb_SecurityVersion v = csb_SecurityVersion w \<and> s = t
      \<and> csb_EffectivePolicyHash v = csb_EffectivePolicyHash w
      \<and> csb_SelectedCapabilityHash v = csb_SelectedCapabilityHash w
      \<and> csb_AdapterClass v = csb_AdapterClass w
      \<and> csb_CompatibilityBlockHash v = csb_CompatibilityBlockHash w
      \<and> csb_LimitBlockHash v = csb_LimitBlockHash w"
    using raw [OF assms(1)] raw [OF assms(2)] assms(4,5) bounds st
    by (simp add: config_typed_def ok_bytes_def writeLP_append_inj writeLP_inj)
  moreover have "csb_SelectedSuite v = csb_SelectedSuite w"
    using suite_inj [of "csb_SelectedSuite v" s "csb_SelectedSuite w"] st bounds calculation
    by (simp add: fits32_def)
  ultimately show ?thesis by simp
qed

definition binding_tail :: "mode_binding \<Rightarrow> bytes \<Rightarrow> bytes \<Rightarrow> bytes \<Rightarrow> bytes" where
  "binding_tail b compatibilityRaw limitRaw configRaw =
    writeLP (string_bytes (mb_CarrierFamily b)) @ mb_CarrierPolicyHash b
    @ writeU32 (mb_EnvelopeLimit b) @ writeU32 (mb_MaxFrameBytes b)
    @ writeLP (string_bytes (mb_LocalAdapterClass b)) @ concat (full_hashes b)
    @ writeLP compatibilityRaw @ mb_CompatibilityBlockHash b
    @ writeLP limitRaw @ mb_LimitBlockHash b
    @ writeLP configRaw @ mb_ConfigSourceBlockHash b"

lemma binding_bytes_tail:
  "binding_bytes mode b cr lr kr = writeLP (string_bytes mode)
    @ lp_concat (map strict_bytes (binding_lists b)) @ binding_tail b cr lr kr"
  by (simp add: binding_bytes_def binding_tail_def)

lemma binding_tail_inj:
  assumes "binding_tail v cr lr kr = binding_tail w cr' lr' kr'"
    and "binding_typed v" "binding_typed w"
    and "fits32 (binding_tail v cr lr kr)" "fits32 (binding_tail w cr' lr' kr')"
  shows "mb_CarrierFamily v = mb_CarrierFamily w \<and> mb_CarrierPolicyHash v = mb_CarrierPolicyHash w
    \<and> mb_EnvelopeLimit v = mb_EnvelopeLimit w \<and> mb_MaxFrameBytes v = mb_MaxFrameBytes w
    \<and> mb_LocalAdapterClass v = mb_LocalAdapterClass w \<and> full_hashes v = full_hashes w
    \<and> cr = cr' \<and> mb_CompatibilityBlockHash v = mb_CompatibilityBlockHash w
    \<and> lr = lr' \<and> mb_LimitBlockHash v = mb_LimitBlockHash w
    \<and> kr = kr' \<and> mb_ConfigSourceBlockHash v = mb_ConfigSourceBlockHash w"
proof -
  have bounds: "length (mb_CarrierFamily v) < 2 ^ 32" "length (mb_CarrierFamily w) < 2 ^ 32"
    "length (mb_LocalAdapterClass v) < 2 ^ 32" "length (mb_LocalAdapterClass w) < 2 ^ 32"
    "length cr < 2 ^ 32" "length cr' < 2 ^ 32" "length lr < 2 ^ 32" "length lr' < 2 ^ 32"
    "length kr < 2 ^ 32" "length kr' < 2 ^ 32"
    using assms(4,5) by (simp_all add: binding_tail_def fits32_def)
  show ?thesis
    using assms(1-3) bounds
    by (simp add: binding_tail_def binding_typed_def full_hashes_def writeLP_append_inj writeLP_inj)
qed

lemma mode_binding_ok:
  assumes "CanonicalAuthenticatedModeBindingV1 env mode b = Inr raw"
  obtains cr lr kr where "raw = binding_bytes mode b cr lr kr"
    "CanonicalCompatibilityBlockV1 (mb_CompatibilityBlock b) = Inr cr"
    "CanonicalLimitBlockV1 (mb_LimitBlock b) = Inr lr"
    "CanonicalConfigSourceBlockV1 (mb_ConfigSourceBlock b) = Inr kr"
    "list_all (\<lambda>v. is_ok (encodeStrictStringListV1 v)) (binding_lists b)"
  using assms
  by (auto simp: CanonicalAuthenticatedModeBindingV1_def binding_shape_error_def result_simps
    strict_list_error_None split: if_splits)

lemma mode_binding_inj:
  assumes "CanonicalAuthenticatedModeBindingV1 env mode v = Inr raw"
    and "CanonicalAuthenticatedModeBindingV1 env' mode' w = Inr raw"
    and "fits32 raw" "binding_typed v" "binding_typed w"
  shows "mode = mode' \<and> v = w"
proof -
  obtain cr lr kr where v: "raw = binding_bytes mode v cr lr kr"
    "CanonicalCompatibilityBlockV1 (mb_CompatibilityBlock v) = Inr cr"
    "CanonicalLimitBlockV1 (mb_LimitBlock v) = Inr lr"
    "CanonicalConfigSourceBlockV1 (mb_ConfigSourceBlock v) = Inr kr"
    "list_all (\<lambda>v. is_ok (encodeStrictStringListV1 v)) (binding_lists v)"
    using mode_binding_ok [OF assms(1)] .
  obtain cr' lr' kr' where w: "raw = binding_bytes mode' w cr' lr' kr'"
    "CanonicalCompatibilityBlockV1 (mb_CompatibilityBlock w) = Inr cr'"
    "CanonicalLimitBlockV1 (mb_LimitBlock w) = Inr lr'"
    "CanonicalConfigSourceBlockV1 (mb_ConfigSourceBlock w) = Inr kr'"
    "list_all (\<lambda>v. is_ok (encodeStrictStringListV1 v)) (binding_lists w)"
    using mode_binding_ok [OF assms(2)] .
  note sizes = assms(3) [unfolded v(1) binding_bytes_tail fits32_def]
    assms(3) [unfolded w(1) binding_bytes_tail fits32_def]
  have fit: "fits32 (string_bytes mode)" "fits32 (string_bytes mode')"
    "fits32 (lp_concat (map strict_bytes (binding_lists v)))"
    "fits32 (lp_concat (map strict_bytes (binding_lists w)))"
    "fits32 (binding_tail v cr lr kr)" "fits32 (binding_tail w cr' lr' kr')"
    using sizes by (simp_all add: fits32_def)
  note eq = trans [OF v(1) [symmetric] w(1), unfolded binding_bytes_tail]
  note modes = peel_lp [OF eq fit(1,2)]
  have lists: "binding_lists v = binding_lists w \<and> binding_tail v cr lr kr = binding_tail w cr' lr' kr'"
    by (rule strict_lists_inj [OF v(5) w(5) _ fit(3,4) modes(2)]) (simp add: binding_lists_def)
  note rest = binding_tail_inj [OF conjunct2 [OF lists] assms(4,5) fit(5,6)]
  have crs: "cr = cr'" "lr = lr'" "kr = kr'" using rest by simp_all
  have "fits32 cr" "fits32 kr"
    using fit(5) by (simp_all add: binding_tail_def fits32_def)
  then have "mb_CompatibilityBlock v = mb_CompatibilityBlock w" "mb_LimitBlock v = mb_LimitBlock w"
    "mb_ConfigSourceBlock v = mb_ConfigSourceBlock w"
    using v(2-4) w(2-4) assms(4,5) crs
    by (auto simp: binding_typed_def intro: compatibility_inj limit_inj config_inj)
  then show ?thesis
    using modes(1) lists rest by (simp add: binding_lists_def full_hashes_def)
qed

section \<open>Properties\<close>

text \<open>The bytes under the context hash.\<close>

definition context_preimage :: "bytes list \<Rightarrow> bytes" where
  "context_preimage parts = lp_concat (string_bytes ''kurdistan/context/v1/authenticated'' # parts)"

lemma ContextHashV1_preimage:
  "ContextHashV1 env input = bind_result (context_parts env input) (\<lambda>parts.
    Inr (se_sha256 env (context_preimage parts)))"
  by (simp add: ContextHashV1_def contextHash_def context_preimage_def)

lemma context_parts_ok:
  assumes "context_parts env input = Inr parts"
  obtains policyRaw suiteRaw clientMode serverMode where
    "EncodePolicyV1 (se_ir env) (ci_EffectivePolicy input) = Inr policyRaw"
    "CanonicalSelectedSuiteV1 (ci_SelectedSuite input) = Inr suiteRaw"
    "CanonicalAuthenticatedModeBindingV1 env (eff_TranscriptMode (ci_EffectivePolicy input))
      (ci_ClientModeBinding input) = Inr clientMode"
    "CanonicalAuthenticatedModeBindingV1 env (eff_TranscriptMode (ci_EffectivePolicy input))
      (ci_ServerModeBinding input) = Inr serverMode"
    "csb_ProfileID (mb_ConfigSourceBlock (ci_ClientModeBinding input)) = eff_ProfileID (ci_EffectivePolicy input)"
    "parts = [put_be 2 1, policyRaw, ci_EffectivePolicyHash input, ci_TranscriptHash input, suiteRaw,
        ci_SelectedCapabilityHash input, ci_ClientProfileHash input, ci_ServerProfileHash input]
      @ binding_parts (ci_ClientModeBinding input) (ci_ServerModeBinding input)
      @ [clientMode, serverMode]"
  using assms
  by (auto simp: context_parts_def validateContextBindingV1_def Let_def result_simps)

lemma preimage_parts:
  assumes "fits32 (context_preimage parts)"
  shows "\<forall>v \<in> set (string_bytes ''kurdistan/context/v1/authenticated'' # parts). length v < 2 ^ 32"
  using assms length_lp_concat_item unfolding context_preimage_def fits32_def
  by (meson le_less_trans)

text \<open>
  C36: The context hash binds the session: when two accepted contexts feed the same bytes to the
  hash, they agree on the security policy, the profile identity, the transcript, the suite, the
  capability and profile hashes and on every field of the client's and of the server's mode
  binding, so a difference in any of them can only go unnoticed through a hash collision.
\<close>

theorem context_hash_binds:
  assumes "context_parts env i = Inr p" "context_parts env' j = Inr q"
    and "context_preimage p = context_preimage q" "fits32 (context_preimage p)"
    and "binding_typed (ci_ClientModeBinding i)" "binding_typed (ci_ServerModeBinding i)"
    and "binding_typed (ci_ClientModeBinding j)" "binding_typed (ci_ServerModeBinding j)"
  shows "effective_security (ci_EffectivePolicy i) = effective_security (ci_EffectivePolicy j)
    \<and> eff_ProfileID (ci_EffectivePolicy i) = eff_ProfileID (ci_EffectivePolicy j)
    \<and> ci_EffectivePolicyHash i = ci_EffectivePolicyHash j
    \<and> ci_TranscriptHash i = ci_TranscriptHash j \<and> ci_SelectedSuite i = ci_SelectedSuite j
    \<and> ci_SelectedCapabilityHash i = ci_SelectedCapabilityHash j
    \<and> ci_ClientProfileHash i = ci_ClientProfileHash j
    \<and> ci_ServerProfileHash i = ci_ServerProfileHash j
    \<and> ci_ClientModeBinding i = ci_ClientModeBinding j
    \<and> ci_ServerModeBinding i = ci_ServerModeBinding j"
proof -
  have fit: "\<forall>v \<in> set p. fits32 v" "\<forall>v \<in> set q. fits32 v" and pq: "p = q"
    using preimage_parts [OF assms(4)] preimage_parts [of q] assms(3,4)
      lp_concat_inj [of "string_bytes ''kurdistan/context/v1/authenticated'' # p"
        "string_bytes ''kurdistan/context/v1/authenticated'' # q"]
    by (auto simp: fits32_def context_preimage_def)
  obtain pi si ci ri where i: "EncodePolicyV1 (se_ir env) (ci_EffectivePolicy i) = Inr pi"
    "CanonicalSelectedSuiteV1 (ci_SelectedSuite i) = Inr si"
    "CanonicalAuthenticatedModeBindingV1 env (eff_TranscriptMode (ci_EffectivePolicy i))
      (ci_ClientModeBinding i) = Inr ci"
    "CanonicalAuthenticatedModeBindingV1 env (eff_TranscriptMode (ci_EffectivePolicy i))
      (ci_ServerModeBinding i) = Inr ri"
    "csb_ProfileID (mb_ConfigSourceBlock (ci_ClientModeBinding i)) = eff_ProfileID (ci_EffectivePolicy i)"
    "p = [put_be 2 1, pi, ci_EffectivePolicyHash i, ci_TranscriptHash i, si,
        ci_SelectedCapabilityHash i, ci_ClientProfileHash i, ci_ServerProfileHash i]
      @ binding_parts (ci_ClientModeBinding i) (ci_ServerModeBinding i) @ [ci, ri]"
    using context_parts_ok [OF assms(1)] .
  obtain pj sj cj rj where j: "EncodePolicyV1 (se_ir env') (ci_EffectivePolicy j) = Inr pj"
    "CanonicalSelectedSuiteV1 (ci_SelectedSuite j) = Inr sj"
    "CanonicalAuthenticatedModeBindingV1 env' (eff_TranscriptMode (ci_EffectivePolicy j))
      (ci_ClientModeBinding j) = Inr cj"
    "CanonicalAuthenticatedModeBindingV1 env' (eff_TranscriptMode (ci_EffectivePolicy j))
      (ci_ServerModeBinding j) = Inr rj"
    "csb_ProfileID (mb_ConfigSourceBlock (ci_ClientModeBinding j)) = eff_ProfileID (ci_EffectivePolicy j)"
    "q = [put_be 2 1, pj, ci_EffectivePolicyHash j, ci_TranscriptHash j, sj,
        ci_SelectedCapabilityHash j, ci_ClientProfileHash j, ci_ServerProfileHash j]
      @ binding_parts (ci_ClientModeBinding j) (ci_ServerModeBinding j) @ [cj, rj]"
    using context_parts_ok [OF assms(2)] .
  have "pi = pj" "si = sj" "ci = cj" "ri = rj"
    and hashes: "ci_EffectivePolicyHash i = ci_EffectivePolicyHash j"
      "ci_TranscriptHash i = ci_TranscriptHash j"
      "ci_SelectedCapabilityHash i = ci_SelectedCapabilityHash j"
      "ci_ClientProfileHash i = ci_ClientProfileHash j" "ci_ServerProfileHash i = ci_ServerProfileHash j"
    using trans [OF trans [OF i(6) [symmetric] pq] j(6)] by (simp_all add: binding_parts_def)
  note raws = i(1-4) [unfolded this(1-4)]
  have fits: "fits32 pj" "fits32 sj" "fits32 cj" "fits32 rj"
    using fit(2) unfolding j(6) by simp_all
  have client: "ci_ClientModeBinding i = ci_ClientModeBinding j"
    using mode_binding_inj [OF raws(3) j(3) fits(3) assms(5,7)] by simp
  moreover have "ci_ServerModeBinding i = ci_ServerModeBinding j"
    using mode_binding_inj [OF raws(4) j(4) fits(4) assms(6,8)] by simp
  moreover have "ci_SelectedSuite i = ci_SelectedSuite j"
    by (rule suite_inj [OF raws(2) j(2) fits(2)])
  moreover have "length (eff_SecurityVersion (ci_EffectivePolicy i)) < 2 ^ 32"
    "length (eff_SecurityVersion (ci_EffectivePolicy j)) < 2 ^ 32"
    using fits(1) policy_version_fits [OF raws(1)] policy_version_fits [OF j(1)]
    by (simp_all add: fits32_def)
  then have "effective_security (ci_EffectivePolicy i) = effective_security (ci_EffectivePolicy j)"
    by (rule policy_bytes_inj [OF raws(1) j(1)])
  ultimately show ?thesis
    using hashes i(5) j(5) client by simp
qed

definition sample_binding :: mode_binding where
  "sample_binding =
    \<lparr> mb_ClientOptional = [], mb_ServerOptional = [''a''], mb_FeatureVectors = [''v1''],
      mb_CarrierFamily = ''tls13-tcp'', mb_CarrierPolicyHash = replicate 32 1,
      mb_EnvelopeLimit = 2, mb_MaxFrameBytes = 4,
      mb_LocalAdapterClass = ''one_flow_one_stream'',
      mb_FramingPolicyHash = replicate 32 1, mb_StateMachinePolicyHash = replicate 32 1,
      mb_SchedulerPolicyHash = replicate 32 1, mb_PaddingPolicyHash = replicate 32 1,
      mb_StreamPolicyHash = replicate 32 1, mb_ProxyPolicyHash = replicate 32 1,
      mb_CarrierContextHash = replicate 32 1,
      mb_CompatibilityBlock =
        \<lparr> cb_SchemaVersion = SupportedVersion, cb_CompilerSecurityVersion = SupportedSecurityVersion,
          cb_MinimumRuntimeVersion = SupportedSecurityVersion,
          cb_SupportedSecuritySuites = [''s''], cb_RequiredCapabilities = [''c''],
          cb_SupportedCarrierFamilies = [''f''], cb_SupportedProxyFeatures = [],
          cb_SupportedStreamFeatures = [], cb_MaxEnvelopeBytes = 2, cb_MaxStreamCount = 4,
          cb_MaxReplayWindow = 2 \<rparr>,
      mb_CompatibilityBlockHash = replicate 32 1,
      mb_LimitBlock =
        \<lparr> lb_MaxFrameBytes = 4, lb_MaxPayloadBytes = 4, lb_MaxStates = 8,
          lb_MaxTransitions = 8, lb_MaxSessionMillis = 9, lb_CarrierMaxEnvelopeBytes = 2,
          lb_CarrierMaxQueueDepth = 8, lb_SessionMaxConcurrentStreams = 4 \<rparr>,
      mb_LimitBlockHash = replicate 32 1,
      mb_ConfigSourceBlock =
        \<lparr> csb_ProfileID = ''sample'', csb_ProfileHash = replicate 32 1,
          csb_SecurityVersion = SupportedSecurityVersion,
          csb_SelectedSuite = policy_suite sample_policy,
          csb_EffectivePolicyHash = replicate 32 1, csb_SelectedCapabilityHash = replicate 32 1,
          csb_AdapterClass = ''one_flow_one_stream'',
          csb_CompatibilityBlockHash = replicate 32 1, csb_LimitBlockHash = replicate 32 1 \<rparr>,
      mb_ConfigSourceBlockHash = replicate 32 1 \<rparr>"

definition sample_context :: "byte \<Rightarrow> context_input" where
  "sample_context t =
    \<lparr> ci_EffectivePolicy = sample_policy, ci_EffectivePolicyHash = replicate 32 1,
      ci_TranscriptHash = replicate 32 t, ci_SelectedSuite = policy_suite sample_policy,
      ci_SelectedCapabilityHash = replicate 32 1, ci_ClientProfileHash = replicate 32 1,
      ci_ServerProfileHash = replicate 32 1, ci_ClientModeBinding = sample_binding,
      ci_ServerModeBinding = sample_binding \<rparr>"

lemma sample_binding_typed: "binding_typed sample_binding"
  by code_simp

lemma sample_validators:
  "ValidateCompatibilityBlockV1 (mb_CompatibilityBlock sample_binding) = None"
  "ValidateLimitBlockV1 (mb_LimitBlock sample_binding) = None"
  "ValidateConfigSourceBlockV1 (mb_ConfigSourceBlock sample_binding) = None"
  "ValidateSelectedSuiteV1 (policy_suite sample_policy) = None"
  "binding_shape_error (eff_TranscriptMode sample_policy) sample_binding = None"
  by code_simp+

lemma sample_capability_hash:
  "SelectedCapabilityHashV1 sample_sec_env (eff_SelectedCapabilities sample_policy) = Inr (replicate 32 1)"
  by code_simp

lemma contextHash_sample: "contextHash sample_sec_env label parts = replicate 32 1"
  by (simp add: contextHash_def se_sha256_def sample_sec_env_def sample_ir_env_def)

definition sample_compatibility_bytes :: bytes where
  "sample_compatibility_bytes = ok_bytes (CanonicalCompatibilityBlockV1 (mb_CompatibilityBlock sample_binding))"

definition sample_limit_bytes :: bytes where
  "sample_limit_bytes = ok_bytes (CanonicalLimitBlockV1 (mb_LimitBlock sample_binding))"

definition sample_config_bytes :: bytes where
  "sample_config_bytes = ok_bytes (CanonicalConfigSourceBlockV1 (mb_ConfigSourceBlock sample_binding))"

lemma sample_blocks:
  "CanonicalCompatibilityBlockV1 (mb_CompatibilityBlock sample_binding) = Inr sample_compatibility_bytes"
  "CanonicalLimitBlockV1 (mb_LimitBlock sample_binding) = Inr sample_limit_bytes"
  "CanonicalConfigSourceBlockV1 (mb_ConfigSourceBlock sample_binding) = Inr sample_config_bytes"
  by (simp_all add: sample_compatibility_bytes_def sample_limit_bytes_def sample_config_bytes_def
    CanonicalCompatibilityBlockV1_def CanonicalLimitBlockV1_def CanonicalConfigSourceBlockV1_def
    sample_validators ok_bytes_def)

lemma sample_mode_bytes:
  "CanonicalAuthenticatedModeBindingV1 sample_sec_env (eff_TranscriptMode sample_policy) sample_binding =
    Inr (binding_bytes (eff_TranscriptMode sample_policy) sample_binding
      sample_compatibility_bytes sample_limit_bytes sample_config_bytes)"
proof -
  have "\<not> config_mismatch sample_sec_env sample_binding"
    by (simp add: config_mismatch_def ConfigSourceBlockHashV1_def sample_blocks contextHash_sample ok_bytes_def)
      (simp add: sample_binding_def)
  moreover have "mb_CompatibilityBlockHash sample_binding = replicate 32 1"
    "mb_LimitBlockHash sample_binding = replicate 32 1"
    by (simp_all add: sample_binding_def)
  ultimately show ?thesis
    by (simp add: CanonicalAuthenticatedModeBindingV1_def sample_validators sample_blocks
      CompatibilityBlockHashV1_def LimitBlockHashV1_def contextHash_sample ok_bytes_def)
qed

lemma length_strict_bytes: "length (strict_bytes vs) \<le> 4 + length (lp_concat (map string_bytes vs))"
  by (auto simp: strict_bytes_def encodeStrictStringListV1_def encode_list_def guard_result_def
    split: sum.splits option.splits)

lemma sample_lengths:
  "length sample_compatibility_bytes \<le> 200" "length sample_limit_bytes \<le> 36"
  "length sample_config_bytes \<le> 400"
proof -
  show "length sample_limit_bytes \<le> 36"
    by (simp add: sample_limit_bytes_def CanonicalLimitBlockV1_def sample_validators ok_bytes_def)
  have lists: "compatibility_lists (mb_CompatibilityBlock sample_binding) = [[''s''], [''c''], [''f''], [], []]"
    by (simp add: compatibility_lists_def sample_binding_def)
  show "length sample_compatibility_bytes \<le> 200"
    using length_strict_bytes [of "[''s'']"] length_strict_bytes [of "[''c'']"]
      length_strict_bytes [of "[''f'']"] length_strict_bytes [of "[]"]
    by (simp add: sample_compatibility_bytes_def CanonicalCompatibilityBlockV1_def sample_validators
      ok_bytes_def lists)
      (simp add: compatibility_versions_def sample_binding_def SupportedVersion_def
        SupportedSecurityVersion_def NextSchemaVersionV1_def NextSecurityVersionV1_def)
  have suite: "csb_SelectedSuite (mb_ConfigSourceBlock sample_binding) = policy_suite sample_policy"
    by (simp add: sample_binding_def)
  show "length sample_config_bytes \<le> 400"
    by (simp add: sample_config_bytes_def CanonicalConfigSourceBlockV1_def sample_validators
      ok_bytes_def suite CanonicalSelectedSuiteV1_def)
      (simp add: policy_suite_def sample_policy_def sample_binding_def
        SupportedSecurityVersion_def NextSecurityVersionV1_def)
qed

lemma sample_mode_length:
  "length (binding_bytes (eff_TranscriptMode sample_policy) sample_binding
    sample_compatibility_bytes sample_limit_bytes sample_config_bytes) \<le> 2000"
proof -
  have lists: "binding_lists sample_binding = [[], [''a''], [''v1'']]"
    by (simp add: binding_lists_def sample_binding_def)
  show ?thesis
    using sample_lengths length_strict_bytes [of "[]"] length_strict_bytes [of "[''a'']"]
      length_strict_bytes [of "[''v1'']"]
    by (simp add: binding_bytes_def lists)
      (simp add: sample_binding_def sample_policy_def full_hashes_def)
qed

lemma sample_parts:
  assumes "t \<noteq> 0"
  shows "\<exists>p. context_parts sample_sec_env (sample_context t) = Inr p \<and> fits32 (context_preimage p)"
proof -
  have policy: "EncodePolicyV1 (se_ir sample_sec_env) sample_policy = Inr (ok_bytes (EncodePolicyV1 sample_ir_env sample_policy))"
    using sample_policy_valid by (simp add: EncodePolicyV1_def ok_bytes_def sample_sec_env_def)
  have plen: "length (ok_bytes (EncodePolicyV1 sample_ir_env sample_policy)) \<le> 1000"
    using sample_policy_valid
    by (simp add: EncodePolicyV1_def ok_bytes_def)
      (simp add: policy_texts_def policy_rules_def sample_policy_def SupportedSecurityVersion_def
        NextSecurityVersionV1_def)
  have suite: "CanonicalSelectedSuiteV1 (policy_suite sample_policy) =
      Inr (lp_concat (map string_bytes [''kdf_hkdf_sha256'', ''aead_aes_256_gcm'', ''mac_hmac_sha256'']))"
    by (simp add: CanonicalSelectedSuiteV1_def sample_validators)
      (simp add: policy_suite_def sample_policy_def)
  have nz: "\<not> allZero32 (replicate 32 b)" if "b \<noteq> 0" for b
    using that by (simp add: allZero32_def foldl_or_eq_0)
  have identity: "context_identity_error sample_sec_env (sample_context t) = None"
    using assms
    by (simp add: context_identity_error_def sample_context_def EffectivePolicyHashV1_def policy
      contextHash_sample nz)
      (simp add: ok_bytes_def sample_policy_def nz)
  have binding: "validateContextBindingV1 sample_sec_env (sample_context t) sample_binding (replicate 32 1) =
      Inr (binding_bytes (eff_TranscriptMode sample_policy) sample_binding
        sample_compatibility_bytes sample_limit_bytes sample_config_bytes)"
    by (simp add: validateContextBindingV1_def sample_context_def sample_mode_bytes Let_def)
      (simp add: sample_binding_def sample_policy_def first_error.simps)
  let ?m = "binding_bytes (eff_TranscriptMode sample_policy) sample_binding
    sample_compatibility_bytes sample_limit_bytes sample_config_bytes"
  have "context_parts sample_sec_env (sample_context t) =
      Inr ([put_be 2 1, ok_bytes (EncodePolicyV1 sample_ir_env sample_policy), replicate 32 1, replicate 32 t,
          lp_concat (map string_bytes [''kdf_hkdf_sha256'', ''aead_aes_256_gcm'', ''mac_hmac_sha256'']),
          replicate 32 1, replicate 32 1, replicate 32 1]
        @ binding_parts sample_binding sample_binding @ [?m, ?m])"
    unfolding context_parts_def
    by (simp add: identity binding)
      (simp add: sample_context_def policy suite sample_capability_hash first_error.simps
        binding [unfolded sample_context_def])
  moreover have "length (lp_concat (binding_parts sample_binding sample_binding)) \<le> 2000"
    using sample_lengths
    by (simp add: binding_parts_def sample_blocks ok_bytes_def)
      (simp add: sample_binding_def)
  then have "fits32 (context_preimage ([put_be 2 1, ok_bytes (EncodePolicyV1 sample_ir_env sample_policy),
          replicate 32 1, replicate 32 t,
          lp_concat (map string_bytes [''kdf_hkdf_sha256'', ''aead_aes_256_gcm'', ''mac_hmac_sha256'']),
          replicate 32 1, replicate 32 1, replicate 32 1]
        @ binding_parts sample_binding sample_binding @ [?m, ?m]))"
    using plen sample_mode_length
    by (simp add: context_preimage_def fits32_def lp_concat_append)
  ultimately show ?thesis
    by blast
qed

theorem context_hash_binds_witness:
  "\<exists>p q. context_parts sample_sec_env (sample_context 1) = Inr p
    \<and> context_parts sample_sec_env (sample_context 2) = Inr q
    \<and> context_preimage p \<noteq> context_preimage q"
proof -
  obtain p q where p: "context_parts sample_sec_env (sample_context 1) = Inr p"
      "fits32 (context_preimage p)"
    and q: "context_parts sample_sec_env (sample_context 2) = Inr q"
    using sample_parts [of 1] sample_parts [of 2] by auto
  have "ci_TranscriptHash (sample_context 1) \<noteq> ci_TranscriptHash (sample_context 2)"
    by (simp add: sample_context_def)
  moreover have "binding_typed (ci_ClientModeBinding (sample_context t))"
    "binding_typed (ci_ServerModeBinding (sample_context t))" for t
    by (simp_all add: sample_context_def sample_binding_typed)
  ultimately have "context_preimage p \<noteq> context_preimage q"
    using context_hash_binds [OF p(1) q _ p(2)] by blast
  then show ?thesis
    using p(1) q by blast
qed

end
