(* ===== verification/FSM_Interpreter.thy ===== *)
theory FSM_Interpreter
  imports IR_Validate
begin

text \<open>
  The first-contact state machine of \<open>internal/protocol/fsm/interpreter.go\<close>: an interpreter of
  one role over the transitions of a validated profile, and the dry run of the first-contact
  steps. The methods return the updated interpreter; errors keep their kind and drop the texts.
  A profile enters through \<open>New\<close>, which refuses a nil one, so that an interpreter always has one.
\<close>

section \<open>The interpreter\<close>

datatype fsm_error =
  InvalidProfile ir_error | InvalidRole | WrongRole | ProofRequired | InvalidTransition
| UnknownPeerState | NotRelayReady

record interpreter =
  it_profile :: profile
  it_role :: string
  it_state :: string

definition New_interpreter :: "ir_env \<Rightarrow> profile option \<Rightarrow> string \<Rightarrow> fsm_error + interpreter" where
  "New_interpreter env profile role =
    (case Validate env profile of
       Some e \<Rightarrow> Inl (InvalidProfile e)
     | None \<Rightarrow>
         if role \<noteq> RoleClient \<and> role \<noteq> RoleServer then Inl InvalidRole
         else Inr \<lparr> it_profile = the profile, it_role = role,
           it_state = fc_StartState (pr_FirstContact (the profile)) \<rparr>)"

fun apply_transitions :: "ir_transition list \<Rightarrow> string \<Rightarrow> bool \<Rightarrow> interpreter \<Rightarrow> fsm_error + interpreter" where
  "apply_transitions [] message authenticated i = Inl InvalidTransition"
| "apply_transitions (tr # trs) message authenticated i =
    (if tr_From tr = it_state i \<and> tr_OnMessage tr = message then
       (if tr_Role tr \<noteq> it_role i then Inl WrongRole
        else if tr_RequiresAuth tr \<and> \<not> authenticated then Inl ProofRequired
        else Inr (i\<lparr>it_state := tr_To tr\<rparr>))
     else apply_transitions trs message authenticated i)"

definition ApplyAuthenticated :: "interpreter \<Rightarrow> string \<Rightarrow> bool \<Rightarrow> fsm_error + interpreter" where
  "ApplyAuthenticated i message authenticated =
    apply_transitions (pr_Transitions (it_profile i)) message authenticated i"

definition Apply :: "interpreter \<Rightarrow> string \<Rightarrow> fsm_error + interpreter" where
  "Apply i message = ApplyAuthenticated i message False"

definition RelayReady :: "interpreter \<Rightarrow> bool" where
  "RelayReady i \<longleftrightarrow> it_state i = fc_RelayReadyState (pr_FirstContact (it_profile i))"

definition SetStateForPeer :: "interpreter \<Rightarrow> string \<Rightarrow> fsm_error + interpreter" where
  "SetStateForPeer i state =
    (if list_ex (\<lambda>st. state_ID st = state) (pr_States (it_profile i))
     then Inr (i\<lparr>it_state := state\<rparr>) else Inl UnknownPeerState)"

definition Terminal :: "interpreter \<Rightarrow> bool" where
  "Terminal i =
    (case find (\<lambda>st. state_ID st = it_state i) (pr_States (it_profile i)) of
       Some st \<Rightarrow> state_Terminal st | None \<Rightarrow> False)"

section \<open>The dry run\<close>

fun run_steps ::
    "first_contact_step list \<Rightarrow> interpreter \<Rightarrow> interpreter \<Rightarrow> string list \<Rightarrow>
      fsm_error + interpreter \<times> interpreter \<times> string list" where
  "run_steps [] client server path = Inr (client, server, path)"
| "run_steps (step # steps) client server path =
    bind_result (ApplyAuthenticated ((if step_Role step = RoleClient then client else server)
        \<lparr>it_state := step_FromState step\<rparr>) (step_Message step) (step_Proof step)) (\<lambda>_.
      run_steps steps (client\<lparr>it_state := step_ToState step\<rparr>) (server\<lparr>it_state := step_ToState step\<rparr>)
        (path @ [step_ToState step]))"

definition RunFirstContactPath :: "ir_env \<Rightarrow> profile option \<Rightarrow> fsm_error + string list" where
  "RunFirstContactPath env profile =
    bind_result (New_interpreter env profile RoleClient) (\<lambda>client.
    bind_result (New_interpreter env profile RoleServer) (\<lambda>server.
    bind_result (run_steps (fc_Steps (pr_FirstContact (the profile))) client server
      [fc_StartState (pr_FirstContact (the profile))]) (\<lambda>(client', server', path).
      if \<not> RelayReady client' \<or> \<not> RelayReady server' then Inl NotRelayReady else Inr path)))"

section \<open>Steps of an interpreter\<close>

text \<open>Any call that moves an interpreter.\<close>

inductive fsm_step :: "interpreter \<Rightarrow> interpreter \<Rightarrow> bool" where
  message: "ApplyAuthenticated i message authenticated = Inr i' \<Longrightarrow> fsm_step i i'"
| peer: "SetStateForPeer i state = Inr i' \<Longrightarrow> fsm_step i i'"

lemma apply_transitions_Inr:
  assumes "apply_transitions trs message authenticated i = Inr i'"
  shows "\<exists>tr \<in> set trs. tr_From tr = it_state i \<and> tr_OnMessage tr = message \<and> tr_Role tr = it_role i
    \<and> (tr_RequiresAuth tr \<longrightarrow> authenticated) \<and> i' = i\<lparr>it_state := tr_To tr\<rparr>"
  using assms by (induction trs message authenticated i rule: apply_transitions.induct) (auto split: if_splits)

lemma apply_transitions_enabled:
  assumes "tr \<in> set trs" "distinct (map (\<lambda>tr. (tr_From tr, tr_OnMessage tr)) trs)"
    and "tr_From tr = it_state i" "tr_Role tr = it_role i"
  shows "apply_transitions trs (tr_OnMessage tr) True i = Inr (i\<lparr>it_state := tr_To tr\<rparr>)"
  using assms
proof (induction trs)
  case (Cons t trs)
  show ?case
  proof (cases "t = tr")
    case False
    then have "tr \<in> set trs"
      using Cons.prems by simp
    then have "(tr_From t, tr_OnMessage t) \<noteq> (tr_From tr, tr_OnMessage tr)"
      using Cons.prems by force
    then show ?thesis
      using Cons \<open>tr \<in> set trs\<close> by auto
  qed (use Cons.prems in simp)
qed simp

definition declared :: "profile \<Rightarrow> string set" where
  "declared p = state_ID ` set (pr_States p)"

text \<open>The transition that a successful application takes.\<close>

definition takes :: "interpreter \<Rightarrow> string \<Rightarrow> bool \<Rightarrow> interpreter \<Rightarrow> bool" where
  "takes i message authenticated i' \<longleftrightarrow> (\<exists>tr \<in> set (pr_Transitions (it_profile i)).
    tr_From tr = it_state i \<and> tr_OnMessage tr = message \<and> tr_Role tr = it_role i \<and>
    (\<not> tr_RequiresAuth tr \<or> authenticated) \<and> i' = i\<lparr>it_state := tr_To tr\<rparr>)"

lemma ApplyAuthenticated_takes:
  "ApplyAuthenticated i message authenticated = Inr i' \<Longrightarrow> takes i message authenticated i'"
  unfolding ApplyAuthenticated_def takes_def by (drule apply_transitions_Inr) blast

lemma Validate_states: "Validate env (Some p) = None \<Longrightarrow> validateStates p = None"
  by (simp add: Validate_def result_simps)

lemma validateStates_ends:
  assumes "validateStates p = None"
  shows "fc_StartState (pr_FirstContact p) \<in> declared p"
proof -
  obtain roles where roles: "validate_state_list [] (pr_States p) = Inr roles"
    using assms by (auto simp: validateStates_def split: sum.splits)
  have "map_of roles (fc_StartState (pr_FirstContact p)) \<noteq> None"
    using assms roles by (auto simp: validateStates_def result_simps simp del: not_None_eq)
  then show ?thesis
    using validate_state_list_Inr [OF roles] by (simp add: map_of_keys declared_def del: not_None_eq)
qed

lemma New_interpreter_Inr:
  "New_interpreter env (Some p) role = Inr i \<longleftrightarrow> Validate env (Some p) = None \<and>
    role \<in> {RoleClient, RoleServer} \<and>
    i = \<lparr> it_profile = p, it_role = role, it_state = fc_StartState (pr_FirstContact p) \<rparr>"
  by (auto simp: New_interpreter_def split: option.splits)

text \<open>Every reachable interpreter keeps its profile and role and is in a declared state.\<close>

interpretation fsm_system: invariant_system
  "\<lambda>i. New_interpreter env (Some p) role = Inr i" fsm_step
  "\<lambda>i. it_profile i = p \<and> it_role i = role \<and> it_state i \<in> declared p \<and> validateStates p = None"
  for env p role
proof
  fix i
  assume "New_interpreter env (Some p) role = Inr i"
  then show "it_profile i = p \<and> it_role i = role \<and> it_state i \<in> declared p \<and> validateStates p = None"
    using validateStates_ends Validate_states by (auto simp: New_interpreter_Inr)
next
  fix i i'
  assume inv: "it_profile i = p \<and> it_role i = role \<and> it_state i \<in> declared p \<and> validateStates p = None"
    and "fsm_step i i'"
  from this(2)
  show "it_profile i' = p \<and> it_role i' = role \<and> it_state i' \<in> declared p \<and> validateStates p = None"
  proof (cases rule: fsm_step.cases)
    case (message m authenticated)
    then obtain tr where "tr \<in> set (pr_Transitions p)" "i' = i\<lparr>it_state := tr_To tr\<rparr>"
      using ApplyAuthenticated_takes inv unfolding takes_def by blast
    then show ?thesis
      using validateStates_sound [of p] inv by (auto simp: declared_def)
  next
    case (peer state)
    then show ?thesis
      using inv by (auto simp: SetStateForPeer_def list_ex_iff declared_def split: if_splits)
  qed
qed

section \<open>Both roles\<close>

text \<open>
  A first contact through the methods of the interpreters: the interpreter of the acting role
  applies a message, and the interpreter of the peer is set to the state it reached. The
  handshakes of \<open>relay.go\<close> call the same methods but set the peer to the state the step
  declares, as the dry run does; the two agree as long as the transition taken leads to the
  declared state.
\<close>

datatype contact_move = Contact string string bool

fun contact_step :: "interpreter \<times> interpreter \<Rightarrow> contact_move \<Rightarrow> fsm_error + interpreter \<times> interpreter" where
  "contact_step (client, server) (Contact role message authenticated) =
    (if role = RoleClient
     then bind_result (ApplyAuthenticated client message authenticated) (\<lambda>client'.
       bind_result (SetStateForPeer server (it_state client')) (\<lambda>server'. Inr (client', server')))
     else bind_result (ApplyAuthenticated server message authenticated) (\<lambda>server'.
       bind_result (SetStateForPeer client (it_state server')) (\<lambda>client'. Inr (client', server'))))"

fun contact_run :: "interpreter \<times> interpreter \<Rightarrow> contact_move list \<Rightarrow> fsm_error + interpreter \<times> interpreter" where
  "contact_run is [] = Inr is"
| "contact_run is (m # ms) = bind_result (contact_step is m) (\<lambda>is'. contact_run is' ms)"

definition both :: "profile \<Rightarrow> string \<Rightarrow> interpreter \<times> interpreter" where
  "both p s = (\<lparr> it_profile = p, it_role = RoleClient, it_state = s \<rparr>,
    \<lparr> it_profile = p, it_role = RoleServer, it_state = s \<rparr>)"

definition deterministic :: "profile \<Rightarrow> bool" where
  "deterministic p \<longleftrightarrow> distinct (map (\<lambda>tr. (tr_From tr, tr_OnMessage tr)) (pr_Transitions p))"

lemma contact_step_transition:
  assumes "validateStates p = None" "deterministic p" "(s, t) \<in> transition_rel (pr_Transitions p)"
  shows "\<exists>m. contact_step (both p s) m = Inr (both p t)"
proof -
  obtain tr where tr: "tr \<in> set (pr_Transitions p)" "s = tr_From tr" "t = tr_To tr"
    using assms(3) by (auto simp: transition_rel_def)
  have ok: "tr_Role tr \<in> {RoleClient, RoleServer}" "t \<in> declared p"
    using validateStates_sound [OF assms(1)] tr by (auto simp: declared_def)
  have "ApplyAuthenticated i (tr_OnMessage tr) True = Inr (i\<lparr>it_state := t\<rparr>)"
    if "it_profile i = p" "it_state i = s" "it_role i = tr_Role tr" for i
    using apply_transitions_enabled [OF tr(1), of i] assms(2) that tr
    by (simp add: ApplyAuthenticated_def deterministic_def)
  then have "contact_step (both p s) (Contact (tr_Role tr) (tr_OnMessage tr) True) = Inr (both p t)"
    using ok by (auto simp: both_def SetStateForPeer_def list_ex_iff declared_def RoleClient_def RoleServer_def)
  then show ?thesis by blast
qed

lemma contact_run_append:
  "contact_run is (ms @ ms') = bind_result (contact_run is ms) (\<lambda>is'. contact_run is' ms')"
  by (induction "is" ms rule: contact_run.induct) (auto simp: bind_result_def split: sum.splits)

lemma contact_run_reachable:
  assumes "validateStates p = None" "deterministic p" "(s, t) \<in> (transition_rel (pr_Transitions p))\<^sup>*"
  shows "\<exists>ms. contact_run (both p s) ms = Inr (both p t)"
  using assms(3)
proof induction
  case base
  have "contact_run (both p s) [] = Inr (both p s)" by simp
  then show ?case by blast
next
  case (step t u)
  then obtain ms m where "contact_run (both p s) ms = Inr (both p t)" "contact_step (both p t) m = Inr (both p u)"
    using contact_step_transition [OF assms(1,2)] by blast
  then have "contact_run (both p s) (ms @ [m]) = Inr (both p u)"
    by (simp add: contact_run_append)
  then show ?case by blast
qed

section \<open>Sample profiles\<close>

text \<open>Profiles that pass validation, with the given transitions between a start and a ready state.\<close>

definition sample_message :: "string \<times> string \<Rightarrow> message_symbol" where
  "sample_message = (\<lambda>(semantic, wire). \<lparr> msg_Semantic = semantic, msg_WireSymbol = wire,
    msg_Direction = ''both'', msg_MinPayloadSize = 0, msg_MaxPayloadSize = 16 \<rparr>)"

definition sample_messages :: "message_symbol list" where
  "sample_messages = map sample_message (zip RelaySemantics
    [''qa'', ''qb'', ''qc'', ''qd'', ''qe'', ''qf'', ''qg'', ''qh'', ''qi'', ''qj'', ''qk'', ''ql'', ''qm'',
     ''qn'', ''qo'', ''qp'', ''qq''])"

definition sample_wire_shape :: wire_shape_policy where
  "sample_wire_shape =
    \<lparr> ws_Version = ''wiregen-policy-v1'', ws_CorpusVersion = ''protocorpus-v1'', ws_PolicyID = ''id'',
      ws_ProfileSeed = 1, ws_SelectedFamily = ''control_rich'', ws_SelectedCorpusEntry = ''entry'',
      ws_PhasePlan = \<lparr> wpp_PhaseSequence = [''data''], wpp_HandshakeRTTBucket = ''1rtt'',
        wpp_DirectionPattern = ''client_first'', wpp_ControlPhaseEnabled = False \<rparr>,
      ws_FieldLayoutPlan = \<lparr> wfl_LayoutClass = ''flat'', wfl_FieldOrder = [''payload''],
        wfl_VisibilityByField = [(''payload'', ''encrypted'')],
        wfl_SizeBucketByField = [(''payload'', ''size_0'')], wfl_PayloadPosition = ''last'' \<rparr>,
      ws_FirstFlightPlan = \<lparr> wff_PacketCountBucket = ''one'', wff_DirectionPattern = ''client_first'',
        wff_SizeBuckets = [''size_0''], wff_ControlIncluded = False \<rparr>,
      ws_FirstNPlan = \<lparr> wfn_N = 1, wfn_ShapeClass = ''a'', wfn_DirectionClass = ''a'', wfn_SizeClass = ''a'' \<rparr>,
      ws_FrameSizePlan = \<lparr> wfs_Strategy = ''a'', wfs_SizeBuckets = [''size_0''],
        wfs_PaddingBudget = ''a'', wfs_PayloadSplit = ''a'' \<rparr>,
      ws_FragmentRhythmPlan = \<lparr> wfr_Strategy = ''a'', wfr_FragmentBuckets = [''size_0''],
        wfr_ReorderPermitted = False, wfr_ReassemblyPattern = ''a'' \<rparr>,
      ws_ControlPlan = \<lparr> wcp_Richness = ''a'', wcp_PreDataControls = 0, wcp_InterleaveClass = ''a'',
        wcp_CloseClass = ''a'', wcp_ResetClass = ''a'' \<rparr>,
      ws_MetadataExposurePlan = \<lparr> wme_ExposureClass = ''none_visible'', wme_CleartextFields = [],
        wme_EncryptedFields = [], wme_DerivedOnlyFields = [] \<rparr>,
      ws_LengthAlonePlan = \<lparr> wla_Enabled = False, wla_TriggerClass = ''a'' \<rparr>,
      ws_PolicyHash = hex_encode (replicate 32 1) \<rparr>"

definition sample_profile :: "ir_transition list \<Rightarrow> profile" where
  "sample_profile trs =
    \<lparr> pr_Version = SupportedVersion, pr_ID = ''sample'', pr_Seed = 1, pr_GenerationHash = [],
      pr_RolePolicy = \<lparr> rp_ClientRole = ''client'', rp_ServerRole = ''server'' \<rparr>,
      pr_Carrier = \<lparr> cs_Type = ''lab_tcp'' \<rparr>,
      pr_States = [\<lparr> state_ID = ''start'', state_Role = RoleShared, state_Terminal = False \<rparr>,
        \<lparr> state_ID = ''ready'', state_Role = RoleShared, state_Terminal = True \<rparr>],
      pr_Transitions = trs,
      pr_FirstContact = \<lparr> fc_PatternID = ''p'', fc_StartState = ''start'', fc_RelayReadyState = ''ready'',
        fc_Steps = [\<lparr> step_Role = RoleClient, step_Direction = ''client_to_server'', step_Message = ''go'',
          step_WireSymbol = ''zz'', step_FromState = ''start'', step_ToState = ''ready'',
          step_PayloadSize = 8, step_Proof = True, step_Decoy = False \<rparr>] \<rparr>,
      pr_Messages = sample_messages,
      pr_FrameGrammar = \<lparr> fg_LengthMode = ''varint_prefix'', fg_TypeMode = ''explicit_generated_tag'',
        fg_HeaderOrder = [''length'', ''type'', ''stream'', ''flags''],
        fg_FragmentationMode = ''fixed_size_chunks'', fg_ChecksumMode = ''crc32'',
        fg_PaddingPlacement = ''none'' \<rparr>,
      pr_Auth = \<lparr> auth_Mode = ''hmac-sha256-transcript-test-only'', auth_KeyID = ''k'',
        auth_TestKeyHex = ''00'', auth_NonceBytes = 8, auth_ProofMessage = ''go'' \<rparr>,
      pr_Scheduler = \<lparr> sched_Mode = ''balanced'', sched_MaxBatchBytes = 1024, sched_FlushIntervalMs = 5,
        sched_MaxInFlightFrames = 4, sched_PriorityMode = ''fifo'' \<rparr>,
      pr_Stream = \<lparr> str_IDStrategy = ''varint_ids'', str_IDEncodingMode = ''varint'',
        str_MaxConcurrentStreams = 2, str_InitialStreamWindowBytes = 16384,
        str_InitialSessionWindowBytes = 16384, str_WindowUpdatePolicy = ''threshold_update'',
        str_PriorityPolicy = ''fifo'', str_ClosePolicy = ''half_close'',
        str_ResetPolicy = ''immediate_reset'', str_MaxStreamID = 1024 \<rparr>,
      pr_ProxySemantics = \<lparr> proxy_RelayIntentEncoding = ''split_descriptor'',
        proxy_TargetDescriptorEncoding = ''compact_enum'', proxy_RequestClassEncoding = ''bulk'',
        proxy_ResponseModeEncoding = ''chunked'', proxy_TargetErrorPolicy = ''metadata_error'',
        proxy_TargetClosePolicy = ''explicit_close'', proxy_TargetResetPolicy = ''delayed_reset'',
        proxy_TargetMetadataPolicy = ''none'', proxy_RelayOpenOrderingPolicy = ''intent_before_stream'',
        proxy_RelayIntentPaddingPolicy = ''none'', proxy_TargetClassMapping = ''bucketed'',
        proxy_TargetClasses = [''echo''], proxy_MaxRequestBytes = 1024, proxy_MaxResponseBytes = 1024 \<rparr>,
      pr_CarrierPolicy = \<lparr> car_CarrierFamily = ''stream_carrier'', car_EnvelopeEncoding = ''single_semantic'',
        car_FlushPolicy = ''flush_each'', car_BatchPolicy = ''no_batch'', car_ChunkingPolicy = ''no_chunk'',
        car_ReliabilityPolicy = ''ordered_only'', car_ReorderPolicy = ''none'',
        car_BackpressurePolicy = ''priority_backpressure'', car_PriorityMappingPolicy = ''direct_priority'',
        car_EnvelopePaddingPolicy = ''none'', car_TimingBucketPolicy = ''none'',
        car_MaxEnvelopeBytes = 1024, car_MaxMessagesPerEnvelope = 1, car_MaxCarrierQueueDepth = 1,
        car_MaxRetryCount = 0 \<rparr>,
      pr_WireShape = sample_wire_shape,
      pr_AdapterPolicy = \<lparr> ap_RequiredCapabilities = [''flow_reset''], ap_FlowLifecyclePolicy = ''strict'',
        ap_RuntimeMappingPolicy = ''one_flow_one_stream'', ap_TracePolicy = ''safe_buckets'',
        ap_ErrorMappingPolicy = ''flow_error'', ap_BackpressurePolicy = ''adapter_queue'',
        ap_MaxFlows = 1, ap_MaxFlowBytes = 1, ap_MaxBufferedBytes = 1, ap_MaxEvents = 1 \<rparr>,
      pr_Security = \<lparr> sec_SecurityVersion = SupportedSecurityVersion, sec_TranscriptMode = ''canonical_v1'',
        sec_KDFSuite = ''kdf_hkdf_sha256'', sec_AEADSuite = ''aead_aes_256_gcm'',
        sec_MACSuite = ''mac_hmac_sha256'', sec_NonceMode = ''directional_counter'',
        sec_ReplayPolicy = ''ordered_only'', sec_ReplayWindowSize = 2,
        sec_DowngradePolicy = ''strict_capabilities'', sec_CapabilityNegotiationPolicy = ''strict_required'',
        sec_ProfileCompatibilityPolicy = ''strict_schema'', sec_KeyRotationPolicy = ''session_only'',
        sec_ConfigValidationPolicy = ''strict_required'',
        sec_SecureEnvelopeMode = ''metadata_authenticated'', sec_MaxSessionMessages = 2,
        sec_MaxKeyLifetimeMessages = 2 \<rparr>,
      pr_Compatibility = \<lparr> cm_SchemaVersion = SupportedVersion,
        cm_CompilerSecurityVersion = SupportedSecurityVersion,
        cm_MinimumRuntimeVersion = SupportedSecurityVersion,
        cm_SupportedSecuritySuites = [SecuritySuiteString], cm_RequiredCapabilities = [''replay_window''],
        cm_SupportedCarrierFamilies = [''stream_carrier''], cm_SupportedProxyFeatures = [],
        cm_SupportedStreamFeatures = [], cm_MaxEnvelopeBytes = 1024, cm_MaxStreamCount = 2,
        cm_MaxReplayWindow = 2 \<rparr>,
      pr_Padding = \<lparr> pad_Mode = ''none'', pad_MinPaddingBytes = 0, pad_MaxPaddingBytes = 0,
        pad_Probability = Finite 0 \<rparr>,
      pr_InvalidInput = \<lparr> inv_UnknownFirstMessage = ''silent_close'', inv_MalformedFrame = ''close'',
        inv_FailedAuth = ''close'', inv_Replay = ''close'', inv_DelayMsMin = 0, inv_DelayMsMax = 0 \<rparr>,
      pr_Limits = \<lparr> lim_MaxFrameBytes = 65536, lim_MaxPayloadBytes = 65536, lim_MaxStates = 8,
        lim_MaxTransitions = 8, lim_MaxSessionMillis = 1000 \<rparr> \<rparr>"

definition arrow :: "string \<Rightarrow> string \<Rightarrow> string \<Rightarrow> string \<Rightarrow> ir_transition" where
  "arrow s t role message = \<lparr> tr_From = s, tr_To = t, tr_Role = role, tr_OnMessage = message,
    tr_EmitsMessage = [], tr_RequiresAuth = True, tr_Description = [] \<rparr>"

definition plain_profile :: profile where
  "plain_profile = sample_profile [arrow ''start'' ''ready'' RoleClient ''go'', arrow ''ready'' ''start'' RoleServer ''back'']"

text \<open>The second transition has the source and the message of the first.\<close>

definition shadowed_profile :: profile where
  "shadowed_profile = sample_profile [arrow ''start'' ''start'' RoleClient ''go'',
    arrow ''start'' ''ready'' RoleClient ''go'', arrow ''ready'' ''start'' RoleServer ''back'']"

lemma sample_profile_parts [simp]:
  "pr_Transitions (sample_profile trs) = trs"
  "map state_ID (pr_States (sample_profile trs)) = [''start'', ''ready'']"
  "fc_StartState (pr_FirstContact (sample_profile trs)) = ''start''"
  "fc_RelayReadyState (pr_FirstContact (sample_profile trs)) = ''ready''"
  by (simp_all add: sample_profile_def)

lemma arrow_parts [simp]:
  "tr_From (arrow s t r m) = s" "tr_To (arrow s t r m) = t" "tr_Role (arrow s t r m) = r"
  "tr_OnMessage (arrow s t r m) = m" "tr_RequiresAuth (arrow s t r m)"
  by (simp_all add: arrow_def)

lemma plain_profile_valid: "Validate sample_ir_env (Some plain_profile) = None"
  by code_simp

lemma shadowed_profile_valid: "Validate sample_ir_env (Some shadowed_profile) = None"
  by code_simp

text \<open>
  The hash functions enter validation only through the hash of the wire-shape policy, when the
  profile has no generation hash: under other hash functions the same profile with the hash
  recomputed is valid.
\<close>

definition with_policy_hash :: "string \<Rightarrow> profile \<Rightarrow> profile" where
  "with_policy_hash h p = p\<lparr>pr_WireShape := (pr_WireShape p)\<lparr>ws_PolicyHash := h\<rparr>\<rparr>"

lemma with_policy_hash_parts [simp]:
  "pr_Transitions (with_policy_hash h p) = pr_Transitions p"
  "pr_States (with_policy_hash h p) = pr_States p"
  "pr_FirstContact (with_policy_hash h p) = pr_FirstContact p"
  by (simp_all add: with_policy_hash_def)

lemma wire_shape_rehash:
  assumes "validateWireShapePolicy env w = None" "wireShapePolicyHash env' w = Inr h" "h \<noteq> []"
  shows "validateWireShapePolicy env' (w\<lparr>ws_PolicyHash := h\<rparr>) = None"
proof -
  have hash: "wireShapePolicyHash env' (w\<lparr>ws_PolicyHash := h\<rparr>) = Inr h"
    using assms(2) by (simp add: wireShapePolicyHash_def)
  show ?thesis
    using assms(1,3) unfolding validateWireShapePolicy_def hash
    by (simp del: oneOf_iff add: or_else_None_iff)
qed

lemma Validate_rehash:
  assumes "Validate env (Some p) = None" "pr_GenerationHash p = []"
    and "wireShapePolicyHash env' (pr_WireShape p) = Inr h" "h \<noteq> []"
  shows "Validate env' (Some (with_policy_hash h p)) = None"
proof -
  have "validateWireShapePolicy env (pr_WireShape p) = None"
    using assms(1) by (simp add: Validate_def or_else_None_iff)
  then have wire: "validateWireShapePolicy env' (pr_WireShape (with_policy_hash h p)) = None"
    using wire_shape_rehash assms(3,4) by (simp add: with_policy_hash_def)
  have same: "validateSupportedVersionTupleV1 (with_policy_hash h p) = validateSupportedVersionTupleV1 p"
    "validateLimits (with_policy_hash h p) = validateLimits p"
    "validateStates (with_policy_hash h p) = validateStates p"
    "validateMessages (with_policy_hash h p) = validateMessages p"
    "validateFrameGrammar (with_policy_hash h p) = validateFrameGrammar p"
    by (simp_all add: with_policy_hash_def validateSupportedVersionTupleV1_def validateLimits_def
      validateStates_def validateMessages_def validateFrameGrammar_def
      cong: sum.case_cong option.case_cong prod.case_cong list.case_cong)
  show ?thesis
    using assms(1,2) wire unfolding Validate_def same option.case
    by (simp add: or_else_None_iff with_policy_hash_def SupportedVersion_def NextSchemaVersionV1_def)
qed

lemma shadowed_stays:
  assumes "contact_step (both (with_policy_hash h shadowed_profile) ''start'') m = Inr is'"
  shows "is' = both (with_policy_hash h shadowed_profile) ''start''"
  using assms
  by (cases m) (auto simp: both_def ApplyAuthenticated_def SetStateForPeer_def shadowed_profile_def
    result_simps RoleClient_def RoleServer_def split: if_splits)

lemma shadowed_run:
  assumes "contact_run (both (with_policy_hash h shadowed_profile) ''start'') ms = Inr is'"
  shows "is' = both (with_policy_hash h shadowed_profile) ''start''"
  using assms by (induction ms) (auto simp: result_simps dest: shadowed_stays)

text \<open>The dry run of the single step, from any interpreters of the two roles.\<close>

lemma shadowed_steps:
  "run_steps (fc_Steps (pr_FirstContact shadowed_profile))
    \<lparr>it_profile = with_policy_hash h shadowed_profile, it_role = RoleClient, it_state = ''start''\<rparr> server path =
    Inr (\<lparr>it_profile = with_policy_hash h shadowed_profile, it_role = RoleClient, it_state = ''ready''\<rparr>,
      server\<lparr>it_state := ''ready''\<rparr>, path @ [''ready''])"
  by (simp add: shadowed_profile_def sample_profile_def [THEN arg_cong, of pr_FirstContact] ApplyAuthenticated_def)

section \<open>Properties\<close>

text \<open>
  C37: An interpreter only moves as its profile allows: after any sequence of messages and peer
  updates from \<open>New\<close> it still has its profile and role and is in a declared state, and a message
  it accepts is taken by a transition of the profile that leaves the current state, belongs to
  its role and, when it requires authentication, was presented as authenticated.
\<close>

theorem interpreter_guarded:
  assumes "reach (\<lambda>i. New_interpreter env (Some p) role = Inr i) fsm_step i"
    and "ApplyAuthenticated i message authenticated = Inr i'"
  shows "it_profile i = p \<and> it_role i = role \<and> {it_state i, it_state i'} \<subseteq> declared p
    \<and> (\<exists>tr \<in> set (pr_Transitions p). tr_From tr = it_state i \<and> tr_OnMessage tr = message
        \<and> tr_Role tr = role \<and> (\<not> tr_RequiresAuth tr \<or> authenticated) \<and> i' = i\<lparr>it_state := tr_To tr\<rparr>)"
proof -
  have "reach (\<lambda>i. New_interpreter env (Some p) role = Inr i) fsm_step i'"
    using assms by (blast intro: reach.intros fsm_step.intros)
  then show ?thesis
    using fsm_system.reach_inv [OF assms(1)] fsm_system.reach_inv ApplyAuthenticated_takes [OF assms(2)]
    unfolding takes_def by fastforce
qed

theorem interpreter_guarded_witness:
  "\<exists>i i'. New_interpreter sample_ir_env (Some plain_profile) RoleClient = Inr i
    \<and> ApplyAuthenticated i ''go'' True = Inr i' \<and> it_state i' \<in> declared plain_profile"
proof -
  let ?i = "fst (both plain_profile ''start'')"
  have new: "New_interpreter sample_ir_env (Some plain_profile) RoleClient = Inr ?i"
    using plain_profile_valid by (simp add: New_interpreter_Inr both_def plain_profile_def)
  have app: "ApplyAuthenticated ?i ''go'' True = Inr (?i\<lparr>it_state := ''ready''\<rparr>)"
    by (simp add: ApplyAuthenticated_def both_def plain_profile_def)
  have "reach (\<lambda>i. New_interpreter sample_ir_env (Some plain_profile) RoleClient = Inr i) fsm_step ?i"
    using new by (rule reach.intros)
  from interpreter_guarded [OF this app]
  have "it_state (?i\<lparr>it_state := ''ready''\<rparr>) \<in> declared plain_profile"
    by simp
  then show ?thesis
    using new app by - (rule exI [of _ ?i], rule exI [of _ "?i\<lparr>it_state := ''ready''\<rparr>"], simp)
qed

text \<open>
  C38: Relay-ready can be attained: in every validated profile in which no two transitions share
  source and message, some sequence of authenticated messages, each applied by its role and
  followed by the peer, brings both interpreters from their initial state to the relay-ready one.
\<close>

theorem relay_ready_attainable:
  assumes "Validate env (Some p) = None" "deterministic p"
  shows "\<exists>client server moves client' server'.
    New_interpreter env (Some p) RoleClient = Inr client
    \<and> New_interpreter env (Some p) RoleServer = Inr server
    \<and> contact_run (client, server) moves = Inr (client', server')
    \<and> RelayReady client' \<and> RelayReady server'"
proof -
  let ?s = "fc_StartState (pr_FirstContact p)" and ?t = "fc_RelayReadyState (pr_FirstContact p)"
  have v: "validateStates p = None"
    by (rule Validate_states [OF assms(1)])
  have "(?s, ?t) \<in> (transition_rel (pr_Transitions p))\<^sup>*"
    using validateStates_sound [OF v] by simp
  from contact_run_reachable [OF v assms(2) this]
  obtain ms where ms: "contact_run (both p ?s) ms = Inr (both p ?t)" ..
  have "RelayReady (fst (both p ?t)) \<and> RelayReady (snd (both p ?t))"
    by (simp add: RelayReady_def both_def)
  moreover have "New_interpreter env (Some p) RoleClient = Inr (fst (both p ?s))"
    "New_interpreter env (Some p) RoleServer = Inr (snd (both p ?s))"
    using assms(1) by (simp_all add: New_interpreter_Inr both_def)
  ultimately show ?thesis
    using ms by (metis prod.collapse)
qed

theorem relay_ready_attainable_witness:
  "\<exists>client server moves client' server'.
    New_interpreter sample_ir_env (Some plain_profile) RoleClient = Inr client
    \<and> New_interpreter sample_ir_env (Some plain_profile) RoleServer = Inr server
    \<and> contact_run (client, server) moves = Inr (client', server')
    \<and> RelayReady client' \<and> RelayReady server'"
proof -
  have "deterministic plain_profile"
    by (simp add: deterministic_def plain_profile_def)
  from relay_ready_attainable [OF plain_profile_valid this] show ?thesis .
qed

text \<open>
  C39: Without that condition neither validation nor the dry run shows that relay-ready can be
  attained: a profile in which a transition is shadowed by an earlier one with the same source
  and message passes validation, the dry run of its first contact returns a path that ends
  relay-ready, and yet no sequence of messages brings the interpreters there. This holds for
  any JSON encoder and any SHA-256 with digests of 32 bytes, the policy hash of the profile
  computed with them.
\<close>

theorem shadowed_relay_ready:
  assumes "wireShapePolicyHash env sample_wire_shape = Inr h" "\<forall>b. length (sha256 env b) = 32"
    and "p = with_policy_hash h shadowed_profile"
  shows "Validate env (Some p) = None
    \<and> RunFirstContactPath env (Some p) = Inr [''start'', ''ready'']
    \<and> fc_RelayReadyState (pr_FirstContact p) = ''ready''
    \<and> (case contact_run (both p ''start'') moves of
         Inl _ \<Rightarrow> True | Inr (client, server) \<Rightarrow> \<not> RelayReady client \<and> \<not> RelayReady server)"
proof -
  have "h \<noteq> []"
    using assms(1,2) by (auto simp: wireShapePolicyHash_def split: option.splits)
      (metis length_hex_encode list.size(3) mult_is_0 zero_neq_numeral)
  moreover have "pr_GenerationHash shadowed_profile = []" "pr_WireShape shadowed_profile = sample_wire_shape"
    by (simp_all add: shadowed_profile_def sample_profile_def)
  ultimately have valid: "Validate env (Some p) = None"
    using Validate_rehash [OF shadowed_profile_valid] assms(1,3) by simp
  have start: "fc_StartState (pr_FirstContact p) = ''start''"
    and ready: "fc_RelayReadyState (pr_FirstContact p) = ''ready''"
    and steps: "fc_Steps (pr_FirstContact p) = fc_Steps (pr_FirstContact shadowed_profile)"
    by (simp_all add: assms(3) shadowed_profile_def)
  have new: "New_interpreter env (Some p) role = Inr \<lparr>it_profile = p, it_role = role, it_state = ''start''\<rparr>"
    if "role \<in> {RoleClient, RoleServer}" for role
    using that by (auto simp: New_interpreter_def valid start)
  have path: "RunFirstContactPath env (Some p) = Inr [''start'', ''ready'']"
    by (simp add: RunFirstContactPath_def new steps start ready RelayReady_def
      shadowed_steps [of h, folded assms(3)])
  have "case contact_run (both p ''start'') moves of
      Inl _ \<Rightarrow> True | Inr (client, server) \<Rightarrow> \<not> RelayReady client \<and> \<not> RelayReady server"
  proof (cases "contact_run (both p ''start'') moves")
    case (Inr is')
    then have "is' = both p ''start''"
      using shadowed_run assms(3) by blast
    then show ?thesis
      using Inr ready by (simp add: RelayReady_def both_def)
  qed simp
  then show ?thesis
    using valid path ready by blast
qed

theorem shadowed_relay_ready_witness:
  "\<exists>p. Validate sample_ir_env (Some p) = None
    \<and> RunFirstContactPath sample_ir_env (Some p) = Inr [''start'', ''ready'']
    \<and> (case contact_run (both p ''start'') [Contact RoleClient ''go'' True] of
         Inl _ \<Rightarrow> True | Inr (client, server) \<Rightarrow> \<not> RelayReady client \<and> \<not> RelayReady server)"
proof -
  have "wireShapePolicyHash sample_ir_env sample_wire_shape = Inr (hex_encode (replicate 32 1))"
    "\<forall>b. length (sha256 sample_ir_env b) = 32"
    by (simp_all add: wireShapePolicyHash_def sample_ir_env_def)
  from shadowed_relay_ready [OF this refl, of "[Contact RoleClient ''go'' True]"] show ?thesis
    by blast
qed

end
