(* ===== verification/Security_Context.thy ===== *)
theory Security_Context
  imports Envelope_V1
begin

text \<open>
  The session contexts of \<open>internal/crypto/security/context.go\<close>, the configuration checks of
  \<open>config.go\<close>, the runtime compatibility of \<open>compatibility.go\<close>, the trace scan of
  \<open>invariants.go\<close> and the codec \<open>EnvelopeCodec\<close> of \<open>envelope.go\<close> that runs on such a context.
  JSON marshalling and SHA-256 come from \<^typ>\<open>sec_env\<close>, the marshaller of the associated data
  is the argument \<open>marshal\<close>, and AES-GCM is the parameter \<^typ>\<open>aead\<close>. A comparison in constant
  time is an equality. Errors keep their sentinel and drop their texts; an identity error keeps
  its field and reason. \<open>RedactConfig\<close> builds a value for JSON output and is left out.
\<close>

section \<open>Context identity\<close>

datatype context_field = ContextIdentityProfileID | ContextIdentityProfileHash
  | ContextIdentitySessionID | ContextIdentityTranscriptHash | ContextIdentityCapabilityHash
  | ContextIdentityCarrier | ContextIdentityStream | ContextIdentityProxy | ContextIdentitySuite
  | ContextIdentityDirection | ContextIdentitySemantic

datatype context_error = ContextIdentityError context_field string | ContextCause transcript_error
  | ContextSec sec_error | OpenFailed

record security_context =
  sc_ProfileID :: string
  sc_ProfileHash :: string
  sc_SessionID :: string
  sc_TranscriptHash :: string
  sc_CapabilityHash :: string
  sc_CarrierBinding :: string
  sc_StreamBinding :: string
  sc_ProxyBinding :: string
  sc_Suite :: suite

definition identityEqual :: "string \<Rightarrow> string \<Rightarrow> bool" where
  "identityEqual a b \<longleftrightarrow> a = b"

definition validateHashIdentity :: "context_field \<Rightarrow> string \<Rightarrow> context_error option" where
  "validateHashIdentity field v =
    (if v = [] then Some (ContextIdentityError field ''empty'')
     else if length v \<noteq> 64 then Some (ContextIdentityError field ''wrong_length'')
     else (case hex_decode v of
         None \<Rightarrow> Some (ContextIdentityError field ''malformed'')
       | Some raw \<Rightarrow>
           if length raw \<noteq> 32 then Some (ContextIdentityError field ''malformed'')
           else if \<not> identityEqual v (hex_encode raw) then Some (ContextIdentityError field ''malformed'')
           else if foldl (OR) 0 raw = 0 then Some (ContextIdentityError field ''all_zero'')
           else None))"

definition identity_char :: "char \<Rightarrow> bool" where
  "identity_char c \<longleftrightarrow> \<not> ((of_char c :: nat) < 0x21 \<or> (of_char c :: nat) > 0x7e)"

definition validateIdentityText :: "context_field \<Rightarrow> string \<Rightarrow> context_error option" where
  "validateIdentityText field v =
    (if v = [] then Some (ContextIdentityError field ''empty'')
     else if length v > 512 then Some (ContextIdentityError field ''wrong_length'')
     else if \<not> list_all identity_char v then Some (ContextIdentityError field ''malformed'')
     else None)"

fun identity_loop :: "(context_field \<Rightarrow> string \<Rightarrow> context_error option) \<Rightarrow> (context_field \<times> string) list \<Rightarrow> context_error option" where
  "identity_loop check [] = None"
| "identity_loop check ((field, v) # rest) = or_else (check field v) (identity_loop check rest)"

definition session_parts :: "security_context \<Rightarrow> string list" where
  "session_parts ctx =
    [''kurdistan-session-v1'', sc_ProfileID ctx, sc_ProfileHash ctx, sc_TranscriptHash ctx,
     sc_CapabilityHash ctx, sc_CarrierBinding ctx, sc_StreamBinding ctx, sc_ProxyBinding ctx,
     suite_KDF (sc_Suite ctx), suite_AEAD (sc_Suite ctx), suite_MAC (sc_Suite ctx),
     suite_Transcript (sc_Suite ctx)]"

definition contextSessionID :: "sec_env \<Rightarrow> security_context \<Rightarrow> transcript_error + string" where
  "contextSessionID env ctx = hashStrings env (session_parts ctx)"

definition ValidateContextIdentity :: "sec_env \<Rightarrow> security_context \<Rightarrow> context_error option" where
  "ValidateContextIdentity env ctx =
    or_else (validateIdentityText ContextIdentityProfileID (sc_ProfileID ctx))
    (or_else (identity_loop validateHashIdentity
       [(ContextIdentityProfileHash, sc_ProfileHash ctx), (ContextIdentitySessionID, sc_SessionID ctx),
        (ContextIdentityTranscriptHash, sc_TranscriptHash ctx),
        (ContextIdentityCapabilityHash, sc_CapabilityHash ctx)])
    (or_else (identity_loop validateIdentityText
       [(ContextIdentityCarrier, sc_CarrierBinding ctx), (ContextIdentityStream, sc_StreamBinding ctx),
        (ContextIdentityProxy, sc_ProxyBinding ctx)])
    (if \<not> SuiteSupported (sc_Suite ctx) then Some (ContextIdentityError ContextIdentitySuite ''unknown'')
     else (case contextSessionID env ctx of
         Inl _ \<Rightarrow> Some (ContextIdentityError ContextIdentitySessionID ''unavailable'')
       | Inr want \<Rightarrow>
           if \<not> identityEqual (sc_SessionID ctx) want
           then Some (ContextIdentityError ContextIdentitySessionID ''inconsistent'') else None))))"

definition lift_cause :: "transcript_error + 'a \<Rightarrow> context_error + 'a" where
  "lift_cause r = (case r of Inl e \<Rightarrow> Inl (ContextCause e) | Inr v \<Rightarrow> Inr v)"

definition BuildContext :: "sec_env \<Rightarrow> transcript_input \<Rightarrow> context_error + security_context" where
  "BuildContext env input =
    guard_result (validateIdentityText ContextIdentityProfileID (ti_ProfileID input))
    (guard_result (validateHashIdentity ContextIdentityProfileHash (ti_ProfileHash input))
    (guard_result (identity_loop validateIdentityText
       [(ContextIdentityCarrier, ti_CarrierPolicy input), (ContextIdentityStream, ti_StreamPolicy input),
        (ContextIdentityProxy, ti_ProxyPolicy input)])
    (if \<not> SuiteSupported (ti_Suite input) then Inl (ContextIdentityError ContextIdentitySuite ''unknown'')
     else bind_result (lift_cause (TranscriptHash env input)) (\<lambda>transcriptHash.
       bind_result (lift_cause (CapabilitySet_Hash env (ti_Capabilities input))) (\<lambda>capabilityHash.
         let ctx = \<lparr> sc_ProfileID = ti_ProfileID input, sc_ProfileHash = ti_ProfileHash input,
               sc_SessionID = [], sc_TranscriptHash = transcriptHash, sc_CapabilityHash = capabilityHash,
               sc_CarrierBinding = ti_CarrierPolicy input, sc_StreamBinding = ti_StreamPolicy input,
               sc_ProxyBinding = ti_ProxyPolicy input, sc_Suite = ti_Suite input \<rparr>
         in bind_result (lift_cause (contextSessionID env ctx)) (\<lambda>sessionID.
              let ctx' = ctx\<lparr>sc_SessionID := sessionID\<rparr>
              in guard_result (ValidateContextIdentity env ctx') (Inr ctx')))))))"

section \<open>Configuration\<close>

record security_config =
  cf_ProfileID :: string
  cf_ProfileHash :: string
  cf_InputSecret :: bytes
  cf_Suite :: suite
  cf_ReplayWindow :: int
  cf_MaxEnvelopeBytes :: int
  cf_QueueDepth :: int
  cf_Capabilities :: "string list"
  cf_TranscriptHash :: string
  cf_CapabilityHash :: string
  cf_Debug :: bool

definition ValidateConfig :: "security_config \<Rightarrow> sec_error option" where
  "ValidateConfig cfg =
    or_else (first_error [
      (cf_ProfileID cfg = [] \<or> cf_ProfileHash cfg = [], ErrInvalidConfig),
      (cf_InputSecret cfg = [], ErrInvalidConfig),
      (cf_InputSecret cfg = replicate (length (cf_InputSecret cfg)) 0, ErrInvalidConfig),
      (\<not> SuiteSupported (cf_Suite cfg), ErrInvalidSuite),
      (cf_ReplayWindow cfg \<le> 1 \<or> cf_ReplayWindow cfg > 4096, ErrInvalidConfig),
      (cf_MaxEnvelopeBytes cfg \<le> 0 \<or> cf_MaxEnvelopeBytes cfg > 1048576, ErrInvalidConfig),
      (cf_QueueDepth cfg \<le> 0 \<or> cf_QueueDepth cfg > 1024, ErrInvalidConfig),
      (cf_Debug cfg, ErrInvalidConfig)])
    (case canonicalCapabilities (cf_Capabilities cfg) of Inl e \<Rightarrow> Some e | Inr _ \<Rightarrow> None)"

record policy_bound_config =
  pb_config :: security_config
  pb_policy :: effective_security_policy

definition BindEffectivePolicy ::
    "ir_env \<Rightarrow> security_config \<Rightarrow> effective_security_policy \<Rightarrow> sec_error + policy_bound_config" where
  "BindEffectivePolicy env cfg policy =
    guard_result (ValidateConfig cfg)
     (if ValidateEffectiveSecurityPolicy env policy \<noteq> None then Inl ErrInvalidConfig
      else if cf_ProfileID cfg \<noteq> eff_ProfileID policy \<or> cf_ProfileHash cfg \<noteq> eff_ProfileHash policy \<or>
          cf_ReplayWindow cfg \<noteq> eff_ReplayWindowSize policy
        then Inl ErrInvalidConfig
      else if suite_KDF (cf_Suite cfg) \<noteq> eff_KDFSuite policy \<or> suite_AEAD (cf_Suite cfg) \<noteq> eff_AEADSuite policy \<or>
          suite_MAC (cf_Suite cfg) \<noteq> eff_MACSuite policy
        then Inl ErrInvalidConfig
      else (case canonicalCapabilities (cf_Capabilities cfg) of
          Inl _ \<Rightarrow> Inl ErrInvalidConfig
        | Inr capabilities \<Rightarrow>
            if capabilities \<noteq> eff_SelectedCapabilities policy then Inl ErrInvalidConfig
            else Inr \<lparr> pb_config = cfg, pb_policy = policy \<rparr>))"

section \<open>Runtime compatibility\<close>

record runtime_compatibility =
  rc_SchemaVersion :: string
  rc_CompilerSecurityVersion :: string
  rc_SupportedSecuritySuites :: "string list"
  rc_RequiredCapabilities :: "string list"
  rc_SupportedCarrierFamilies :: "string list"
  rc_SupportedProxyFeatures :: "string list"
  rc_SupportedStreamFeatures :: "string list"
  rc_MaxEnvelopeBytes :: int
  rc_MaxStreamCount :: int
  rc_MaxReplayWindow :: int

definition suiteString :: "suite \<Rightarrow> string" where
  "suiteString s = suite_KDF s @ ''/'' @ suite_AEAD s @ ''/'' @ suite_MAC s @ ''/'' @ suite_Transcript s"

definition contains_value :: "string list \<Rightarrow> string \<Rightarrow> bool" where
  "contains_value vs want \<longleftrightarrow> list_ex (\<lambda>v. v = want) vs"

definition DefaultRuntimeCompatibility :: runtime_compatibility where
  "DefaultRuntimeCompatibility =
    \<lparr> rc_SchemaVersion = SupportedVersion, rc_CompilerSecurityVersion = SupportedSecurityVersion,
      rc_SupportedSecuritySuites = [''kdf_hkdf_sha256'' @ ''/'' @ ''aead_aes_256_gcm'' @ ''/'' @
        ''mac_hmac_sha256'' @ ''/'' @ ''transcript_sha256_v1''],
      rc_RequiredCapabilities = DefaultCapabilities, rc_SupportedCarrierFamilies = CarrierFamilies,
      rc_SupportedProxyFeatures = ProxySemantics,
      rc_SupportedStreamFeatures = [''open_stream'', ''data'', ''close_stream'', ''reset_stream'',
        ''window_update'', ''session_close''],
      rc_MaxEnvelopeBytes = 64 * 1024, rc_MaxStreamCount = 16, rc_MaxReplayWindow = 4096 \<rparr>"

definition CheckProfileCompatibility :: "profile option \<Rightarrow> runtime_compatibility \<Rightarrow> sec_error option" where
  "CheckProfileCompatibility profile runtime =
    (case profile of
       None \<Rightarrow> Some ErrCompatibility
     | Some p \<Rightarrow>
         let c = pr_Compatibility p in
         or_else (first_error [
           (cm_SchemaVersion c \<noteq> rc_SchemaVersion runtime, ErrCompatibility),
           (cm_CompilerSecurityVersion c = [] \<or> cm_MinimumRuntimeVersion c = [], ErrCompatibility),
           (\<not> contains_value (cm_SupportedSecuritySuites c) (suiteString DefaultSuite), ErrCompatibility),
           (\<not> contains_value (rc_SupportedSecuritySuites runtime) (suiteString DefaultSuite), ErrCompatibility)])
         (or_else (RequireCapabilities (cm_RequiredCapabilities c) (rc_RequiredCapabilities runtime))
         (first_error [
           (\<not> contains_value (rc_SupportedCarrierFamilies runtime) (car_CarrierFamily (pr_CarrierPolicy p)),
            ErrCompatibility),
           (cm_MaxEnvelopeBytes c \<le> 0 \<or> cm_MaxEnvelopeBytes c > rc_MaxEnvelopeBytes runtime, ErrCompatibility),
           (cm_MaxStreamCount c \<le> 0 \<or> cm_MaxStreamCount c > rc_MaxStreamCount runtime, ErrCompatibility),
           (cm_MaxReplayWindow c \<le> 0 \<or> cm_MaxReplayWindow c > rc_MaxReplayWindow runtime,
            ErrCompatibility)])))"

section \<open>Trace scan\<close>

definition match_at :: "bytes \<Rightarrow> bytes \<Rightarrow> nat \<Rightarrow> bool" where
  "match_at raw needle i \<longleftrightarrow> list_all (\<lambda>j. raw ! (i + j) = needle ! j) [0 ..< length needle]"

definition containsBytes :: "bytes \<Rightarrow> bytes \<Rightarrow> bool" where
  "containsBytes raw needle =
    (if needle = [] \<or> length raw < length needle then False
     else list_ex (match_at raw needle) [0 ..< length raw - length needle + 1])"

definition TraceHasSecretCandidate :: "bytes \<Rightarrow> bytes list \<Rightarrow> bool" where
  "TraceHasSecretCandidate raw forbidden = list_ex (\<lambda>item. item \<noteq> [] \<and> containsBytes raw item) forbidden"

section \<open>The envelope codec of a context\<close>

record secure_envelope =
  se_Sequence :: u64
  se_StreamID :: u64
  se_Semantic :: string
  se_CarrierFamily :: string
  se_TranscriptHash :: string
  se_CapabilityHash :: string
  se_Nonce :: bytes
  se_Ciphertext :: bytes
  se_CiphertextBytes :: int
  se_AuthTagBytes :: int
  se_MetadataClass :: string

record envelope_metadata =
  em_StreamID :: u64
  em_Semantic :: string
  em_CarrierFamily :: string
  em_MetadataClass :: string

record context_codec =
  cc_ctx :: security_context
  cc_key :: bytes
  cc_nonces :: nonce_manager
  cc_replay :: legacy_window

text \<open>The fields that \<open>envelopeAAD\<close> marshals; the nonce size of \<open>cipher.NewGCM\<close> is twelve bytes.\<close>

record aad_fields =
  af_Sequence :: u64
  af_StreamID :: u64
  af_Semantic :: string
  af_CarrierFamily :: string
  af_TranscriptHash :: string
  af_CapabilityHash :: string
  af_MetadataClass :: string

definition gcm_nonce_size :: nat where "gcm_nonce_size = 12"

definition envelopeAAD :: "(aad_fields \<Rightarrow> bytes) \<Rightarrow> secure_envelope \<Rightarrow> bytes" where
  "envelopeAAD marshal e = marshal
    \<lparr> af_Sequence = se_Sequence e, af_StreamID = se_StreamID e, af_Semantic = se_Semantic e,
      af_CarrierFamily = se_CarrierFamily e, af_TranscriptHash = se_TranscriptHash e,
      af_CapabilityHash = se_CapabilityHash e, af_MetadataClass = se_MetadataClass e \<rparr>"

definition NewEnvelopeCodec ::
    "sec_env \<Rightarrow> security_context \<Rightarrow> key_schedule \<Rightarrow> string \<Rightarrow> context_error + context_codec" where
  "NewEnvelopeCodec env ctx keys direction =
    guard_result (ValidateContextIdentity env ctx)
     (if \<not> SuiteSupported (ks_Suite keys) \<or> ks_Suite keys \<noteq> sc_Suite ctx
      then Inl (ContextIdentityError ContextIdentitySuite ''inconsistent'')
      else if direction \<noteq> ''server'' \<and> direction \<noteq> ''client''
      then Inl (ContextIdentityError ContextIdentityDirection ''unknown'')
      else
        let key = (if direction = ''server'' then ks_ServerWriteKey keys else ks_ClientWriteKey keys);
            base = (if direction = ''server'' then ks_ServerNonceBase keys else ks_ClientNonceBase keys)
        in if length key \<noteq> 32 then Inl (ContextSec ErrInvalidConfig)
           else Inr \<lparr> cc_ctx = ctx, cc_key = key,
             cc_nonces = NewNonceManager (se_sha256 env) direction base ''directional_counter'',
             cc_replay = NewReplayWindow ''windowed_replay'' 64 \<rparr>)"

definition Seal ::
    "sec_env \<Rightarrow> (aad_fields \<Rightarrow> bytes) \<Rightarrow> aead \<Rightarrow> context_codec \<Rightarrow> envelope_metadata \<Rightarrow> bytes \<Rightarrow>
      (context_error + secure_envelope) \<times> context_codec" where
  "Seal env marshal gcm c meta plaintext =
    (case or_else (validateIdentityText ContextIdentitySemantic (em_Semantic meta))
        (validateIdentityText ContextIdentityCarrier (em_CarrierFamily meta)) of
       Some e \<Rightarrow> (Inl e, c)
     | None \<Rightarrow>
         (case Next (se_sha256 env) (cc_nonces c) of
            (Inl e, n) \<Rightarrow> (Inl (ContextSec e), c\<lparr>cc_nonces := n\<rparr>)
          | (Inr (nonce, seq), n) \<Rightarrow>
              (let e = \<lparr> se_Sequence = seq, se_StreamID = em_StreamID meta, se_Semantic = em_Semantic meta,
                     se_CarrierFamily = em_CarrierFamily meta,
                     se_TranscriptHash = sc_TranscriptHash (cc_ctx c),
                     se_CapabilityHash = sc_CapabilityHash (cc_ctx c), se_Nonce = nonce,
                     se_Ciphertext = [], se_CiphertextBytes = 0,
                     se_AuthTagBytes = int (aead_Overhead gcm), se_MetadataClass = em_MetadataClass meta \<rparr>;
                   sealed = aead_seal gcm (cc_key c) nonce plaintext (envelopeAAD marshal e)
               in (Inr (e\<lparr>se_Ciphertext := sealed, se_CiphertextBytes := int (length sealed)\<rparr>),
                   c\<lparr>cc_nonces := n\<rparr>))))"

definition Open ::
    "(aad_fields \<Rightarrow> bytes) \<Rightarrow> aead \<Rightarrow> context_codec \<Rightarrow> secure_envelope \<Rightarrow>
      (context_error + bytes) \<times> context_codec" where
  "Open marshal gcm c e =
    (case or_else (validateHashIdentity ContextIdentityTranscriptHash (se_TranscriptHash e))
        (or_else (validateHashIdentity ContextIdentityCapabilityHash (se_CapabilityHash e))
        (or_else (validateIdentityText ContextIdentitySemantic (se_Semantic e))
        (or_else (validateIdentityText ContextIdentityCarrier (se_CarrierFamily e))
        (first_error [
          (\<not> identityEqual (se_TranscriptHash e) (sc_TranscriptHash (cc_ctx c)), ContextSec ErrTranscriptMismatch),
          (\<not> identityEqual (se_CapabilityHash e) (sc_CapabilityHash (cc_ctx c)), ContextSec ErrCapabilityMismatch),
          (length (se_Nonce e) \<noteq> gcm_nonce_size \<or> se_Ciphertext e = [], ContextSec ErrEnvelopeRejected)])))) of
       Some err \<Rightarrow> (Inl err, c)
     | None \<Rightarrow>
         (case precheck (cc_replay c) (se_Sequence e) of
            Some err \<Rightarrow> (Inl (ContextSec err), c)
          | None \<Rightarrow>
              (case aead_open gcm (cc_key c) (se_Nonce e) (se_Ciphertext e) (envelopeAAD marshal e) of
                 None \<Rightarrow> (Inl OpenFailed, c)
               | Some plaintext \<Rightarrow>
                   (case commit (cc_replay c) (se_Sequence e) of
                      Inl err \<Rightarrow> (Inl (ContextSec err), c)
                    | Inr r \<Rightarrow> (Inr plaintext, c\<lparr>cc_replay := r\<rparr>)))))"

section \<open>The scan finds exactly the factors\<close>

lemma match_at_iff:
  assumes "i + length needle \<le> length raw"
  shows "match_at raw needle i \<longleftrightarrow> take (length needle) (drop i raw) = needle"
proof -
  have "take (length needle) (drop i raw) = needle \<longleftrightarrow> (\<forall>j < length needle. raw ! (i + j) = needle ! j)"
    using assms by (subst list_eq_iff_nth_eq) auto
  then show ?thesis
    by (auto simp: match_at_def list_all_iff)
qed

lemma containsBytes_iff: "containsBytes raw needle \<longleftrightarrow> needle \<noteq> [] \<and> (\<exists>a b. raw = a @ needle @ b)"
proof
  assume c: "containsBytes raw needle"
  then obtain i where "i \<in> set [0 ..< length raw - length needle + 1]" "match_at raw needle i"
    "needle \<noteq> []" "length needle \<le> length raw"
    by (auto simp: containsBytes_def list_ex_iff simp del: upt_Suc set_upt split: if_splits)
  then have i: "i + length needle \<le> length raw" "match_at raw needle i" "needle \<noteq> []"
    by auto
  then have "raw = take i raw @ needle @ drop (i + length needle) raw"
    using append_take_drop_id [of i raw] append_take_drop_id [of "length needle" "drop i raw"]
    by (simp add: match_at_iff add.commute)
  then show "needle \<noteq> [] \<and> (\<exists>a b. raw = a @ needle @ b)"
    using i(3) by blast
next
  assume "needle \<noteq> [] \<and> (\<exists>a b. raw = a @ needle @ b)"
  then obtain a b where ab: "needle \<noteq> []" "raw = a @ needle @ b" by blast
  then have "match_at raw needle (length a)"
    by (simp add: match_at_iff)
  then show "containsBytes raw needle"
    using ab by (auto simp: containsBytes_def list_ex_iff intro!: bexI [of _ "length a"])
qed

section \<open>Validated profiles and the runtime\<close>

lemma default_suite_string: "suiteString DefaultSuite = SecuritySuiteString"
  by code_simp

text \<open>
  The default runtime accepts every validated profile but those whose envelope limit exceeds
  the one of the runtime.
\<close>

lemma validated_profile_compatible:
  assumes "Validate env (Some p) = None"
  shows "CheckProfileCompatibility (Some p) DefaultRuntimeCompatibility =
    (if cm_MaxEnvelopeBytes (pr_Compatibility p) > 65536 then Some ErrCompatibility else None)"
proof -
  let ?c = "pr_Compatibility p"
  have v: "validateCompatibility ?c (pr_Security p) (pr_Stream p) (pr_CarrierPolicy p) (pr_Limits p) = None"
    "validateSupportedVersionTupleV1 p = None" "validateCarrierPolicy (pr_CarrierPolicy p) (pr_Limits p) = None"
    using assms by (simp_all add: Validate_def result_simps)
  have caps: "set (cm_RequiredCapabilities ?c) \<subseteq> set SecurityCapabilities"
    using v(1) by (simp add: validateCompatibility_def result_simps check_known_distinct_None)
  have "SecurityCapabilities = DefaultCapabilities"
    by (simp add: SecurityCapabilities_def DefaultCapabilities_def)
  then have req: "RequireCapabilities (cm_RequiredCapabilities ?c) DefaultCapabilities = None"
    using caps by (auto simp: RequireCapabilities_def list_ex_iff)
  have suite: "contains_value (cm_SupportedSecuritySuites ?c) (suiteString DefaultSuite)"
    using v(1) by (auto simp: validateCompatibility_def result_simps contains_value_def list_ex_iff default_suite_string)
  have own: "contains_value (rc_SupportedSecuritySuites DefaultRuntimeCompatibility) (suiteString DefaultSuite)"
    by code_simp
  have family: "contains_value CarrierFamilies (car_CarrierFamily (pr_CarrierPolicy p))"
    using v(3) by (auto simp: validateCarrierPolicy_def result_simps contains_value_def list_ex_iff)
  have limits: "0 < cm_MaxEnvelopeBytes ?c" "0 < cm_MaxStreamCount ?c" "cm_MaxStreamCount ?c \<le> 16"
    "0 < cm_MaxReplayWindow ?c" "cm_MaxReplayWindow ?c \<le> 4096"
    using v(1) by (auto simp: validateCompatibility_def result_simps)
  have versions: "cm_SchemaVersion ?c = SupportedVersion" "cm_CompilerSecurityVersion ?c \<noteq> []"
    "cm_MinimumRuntimeVersion ?c \<noteq> []"
    using v(1) by (auto simp: validateCompatibility_def result_simps)
  show ?thesis
    using req suite own family limits versions
    by (simp add: CheckProfileCompatibility_def DefaultRuntimeCompatibility_def Let_def first_error.simps)
qed

section \<open>Sealing and opening under one context\<close>

lemma validateHashIdentity_field: "validateHashIdentity f v = None \<longleftrightarrow> validateHashIdentity g v = None"
  by (auto simp: validateHashIdentity_def split: option.splits)

definition codecs_in_step :: "context_codec \<Rightarrow> context_codec \<Rightarrow> nat \<Rightarrow> bool" where
  "codecs_in_step c r k \<longleftrightarrow> cc_ctx r = cc_ctx c \<and> cc_key r = cc_key c \<and> length (cc_key c) = 32 \<and>
    validateHashIdentity ContextIdentityTranscriptHash (sc_TranscriptHash (cc_ctx c)) = None \<and>
    validateHashIdentity ContextIdentityCapabilityHash (sc_CapabilityHash (cc_ctx c)) = None \<and>
    length (nm_Base (cc_nonces c)) = 12 \<and> nm_Mode (cc_nonces c) = ''directional_counter'' \<and>
    unat (nm_Counter (cc_nonces c)) \<le> k \<and> lw_highest (cc_replay r) = nm_Counter (cc_nonces c) \<and>
    lw_Policy (cc_replay r) = ''windowed_replay'' \<and> lw_WindowSize (cc_replay r) = 64 \<and>
    (\<forall>s \<in> set (lw_seen (cc_replay r)). s \<le> nm_Counter (cc_nonces c))"

lemma next_checked:
  assumes "lw_Policy r = ''windowed_replay''" "lw_WindowSize r = 64"
    and "\<forall>s \<in> set (lw_seen r). s \<le> lw_highest r" "unat (lw_highest r) + 65 < 2 ^ 64"
  shows "checkLocked r (lw_highest r + 1) = None"
proof -
  let ?n = "lw_highest r"
  have "?n \<noteq> - 1"
    using assms(4) by (auto simp: unat_max_u64)
  then have one: "unat (?n + 1) = unat ?n + 1"
    by (rule unat_Suc_u64)
  have win: "unat (?n + 64) = unat ?n + 64" "unat (?n + 1 + 64) = unat ?n + 65"
    using assms(4) one by (simp_all add: unat_word_ariths)
  have "?n + 1 \<noteq> 0" "?n + 1 \<notin> set (lw_seen r)"
    using assms(3) one by (auto simp: word_le_nat_alt unat_eq_0 simp flip: unat_eq_zero)
  moreover have "\<not> ?n + 1 > ?n + 64" "\<not> ?n + 1 + 64 \<le> ?n"
    using one win by (simp_all add: word_le_nat_alt word_less_nat_alt)
  ultimately show ?thesis
    using assms(1,2) by (simp add: checkLocked_def Let_def)
qed

lemma commit_next:
  assumes "checkLocked r s = None" "lw_highest r \<le> s" "\<forall>t \<in> set (lw_seen r). t \<le> lw_highest r"
  shows "\<exists>r'. commit r s = Inr r' \<and> lw_highest r' = s \<and> lw_Policy r' = lw_Policy r
    \<and> lw_WindowSize r' = lw_WindowSize r \<and> (\<forall>t \<in> set (lw_seen r'). t \<le> s)"
  using assms by (fastforce simp: commit_def Let_def)

definition seal_item ::
    "sec_env \<Rightarrow> (aad_fields \<Rightarrow> bytes) \<Rightarrow> aead \<Rightarrow> context_codec \<Rightarrow> envelope_metadata \<times> bytes \<Rightarrow>
      (context_error + secure_envelope) \<times> context_codec" where
  "seal_item env marshal gcm c item = Seal env marshal gcm c (fst item) (snd item)"

lemma seal_refused:
  assumes "codecs_in_step c r k" "Suc k < 2 ^ 64" "seal_item env marshal gcm c m = (Inl e, c')"
  shows "c' = c"
proof -
  have "nm_Counter (cc_nonces c) \<noteq> - 1"
    using assms(1,2) by (auto simp: codecs_in_step_def unat_max_u64)
  then have "\<exists>q n. Next (se_sha256 env) (cc_nonces c) = (Inr q, n)"
    using assms(1) by (simp add: Next_def nonceForLocked_def codecs_in_step_def Let_def)
  then show ?thesis
    using assms(3) by (auto simp: seal_item_def Seal_def Let_def split: option.splits prod.splits sum.splits)
qed

lemma seal_delivered:
  assumes "codecs_in_step c r k" "k + 66 < 2 ^ 64" "aead_correct gcm" "aead_Overhead gcm = 16"
    and "seal_item env marshal gcm c m = (Inr e, c')"
  shows "\<exists>r'. Open marshal gcm r e = (Inr (snd m), r') \<and> codecs_in_step c' r' (Suc k)"
proof -
  let ?n = "nm_Counter (cc_nonces c)" and ?w = "cc_replay r"
  note st = assms(1) [unfolded codecs_in_step_def]
  have ne: "?n \<noteq> - 1"
    using st assms(2) by (auto simp: unat_max_u64)
  have texts: "validateIdentityText ContextIdentitySemantic (em_Semantic (fst m)) = None"
    "validateIdentityText ContextIdentityCarrier (em_CarrierFamily (fst m)) = None"
    using assms(5) by (auto simp: seal_item_def Seal_def result_simps split: option.splits)
  obtain nonce where nonce: "nonceForLocked (se_sha256 env) (cc_nonces c) (?n + 1) = Inr nonce" "length nonce = 12"
    using st by (auto simp: nonceForLocked_def Let_def)
  have nxt: "Next (se_sha256 env) (cc_nonces c) = (Inr (nonce, ?n + 1), (cc_nonces c)\<lparr>nm_Counter := ?n + 1\<rparr>)"
    using ne nonce(1) by (simp add: Next_def Let_def)
  let ?e0 = "\<lparr> se_Sequence = ?n + 1, se_StreamID = em_StreamID (fst m), se_Semantic = em_Semantic (fst m),
    se_CarrierFamily = em_CarrierFamily (fst m), se_TranscriptHash = sc_TranscriptHash (cc_ctx c),
    se_CapabilityHash = sc_CapabilityHash (cc_ctx c), se_Nonce = nonce, se_Ciphertext = [], se_CiphertextBytes = 0,
    se_AuthTagBytes = int (aead_Overhead gcm), se_MetadataClass = em_MetadataClass (fst m) \<rparr>"
  let ?sealed = "aead_seal gcm (cc_key c) nonce (snd m) (envelopeAAD marshal ?e0)"
  have e: "e = ?e0\<lparr>se_Ciphertext := ?sealed, se_CiphertextBytes := int (length ?sealed)\<rparr>"
    "c' = c\<lparr>cc_nonces := (cc_nonces c)\<lparr>nm_Counter := ?n + 1\<rparr>\<rparr>"
    using assms(5) texts nxt by (simp_all add: seal_item_def Seal_def Let_def)
  have aad: "envelopeAAD marshal e = envelopeAAD marshal ?e0"
    by (simp add: e(1) envelopeAAD_def)
  have gcm: "length ?sealed = length (snd m) + 16" "aead_open gcm (cc_key c) nonce ?sealed (envelopeAAD marshal ?e0) = Some (snd m)"
    using assms(3,4) st nonce(2) by (simp_all add: aead_correct_def)
  have check: "checkLocked ?w (?n + 1) = None"
    using next_checked [of ?w] st assms(2) by simp
  have "?n \<le> ?n + 1"
    using ne by (simp add: word_le_nat_alt unat_Suc_u64)
  then obtain w' where w': "commit ?w (?n + 1) = Inr w'" "lw_highest w' = ?n + 1" "lw_Policy w' = lw_Policy ?w"
    "lw_WindowSize w' = lw_WindowSize ?w" "\<forall>t \<in> set (lw_seen w'). t \<le> ?n + 1"
    using commit_next [OF check] st by auto
  have "?sealed \<noteq> []"
    using gcm(1) by auto
  then have "Open marshal gcm r e = (Inr (snd m), r\<lparr>cc_replay := w'\<rparr>)"
    using st texts check w'(1) gcm(2) nonce(2) aad
    by (simp add: Open_def e(1) identityEqual_def precheck_def gcm_nonce_size_def first_error.simps)
  moreover have "codecs_in_step c' (r\<lparr>cc_replay := w'\<rparr>) (Suc k)"
    using st w' e(2) ne by (simp add: codecs_in_step_def unat_Suc_u64)
  ultimately show ?thesis by blast
qed

lemma context_codec_run:
  assumes "codecs_in_step c r k" "k + length ms + 66 < 2 ^ 64" "aead_correct gcm" "aead_Overhead gcm = 16"
    and "pairs = sealed_pairs ms (fst (alloc_run (seal_item env marshal gcm) c ms))"
  shows "fst (alloc_run (Open marshal gcm) r (map snd pairs)) = map (\<lambda>(m, e). Inr (snd m)) pairs"
  using assms(1,2) unfolding assms(5)
proof (induction ms arbitrary: c r k)
  case Nil
  then show ?case by (simp add: sealed_pairs_def)
next
  case (Cons m ms)
  obtain q c' where seal: "seal_item env marshal gcm c m = (q, c')" by fastforce
  show ?case
  proof (cases q)
    case (Inl e)
    have "c' = c"
      using seal_refused [OF Cons.prems(1)] seal Inl Cons.prems(2) by simp
    then show ?thesis
      using Cons.IH [OF Cons.prems(1)] Cons.prems(2) seal Inl
      by (simp add: alloc_run_Cons_eq sealed_pairs_def del: alloc_run.simps(2))
  next
    case (Inr e)
    obtain r' where r': "Open marshal gcm r e = (Inr (snd m), r')" "codecs_in_step c' r' (Suc k)"
      using seal_delivered [OF Cons.prems(1) _ assms(3,4)] seal Inr Cons.prems(2) by fastforce
    then show ?thesis
      using Cons.IH [OF r'(2)] Cons.prems(2) seal Inr
      by (simp add: alloc_run_Cons_eq sealed_pairs_def del: alloc_run.simps(2))
  qed
qed

lemma new_codecs_in_step:
  assumes "NewEnvelopeCodec env ctx keys direction = Inr c" "\<forall>b. length (se_sha256 env b) = 32"
  shows "codecs_in_step c c 0"
  using assms
  by (auto simp: NewEnvelopeCodec_def ValidateContextIdentity_def NewNonceManager_def NewReplayWindow_def
    codecs_in_step_def result_simps Let_def split: if_splits)

text \<open>The session identifier is the hash of the other identities, so that these determine a context.\<close>

lemma valid_context_session:
  assumes "ValidateContextIdentity env ctx = None"
  shows "contextSessionID env ctx = Inr (sc_SessionID ctx) \<and> sc_Suite ctx = DefaultSuite"
  using assms
  by (cases "contextSessionID env ctx")
    (auto simp: ValidateContextIdentity_def SuiteSupported_def identityEqual_def result_simps split: if_splits)

lemma built_context_valid:
  assumes "BuildContext env input = Inr ctx"
  shows "ValidateContextIdentity env ctx = None \<and> sc_ProfileID ctx = ti_ProfileID input
    \<and> sc_ProfileHash ctx = ti_ProfileHash input \<and> sc_CarrierBinding ctx = ti_CarrierPolicy input"
  using assms by (auto simp: BuildContext_def result_simps Let_def split: if_splits)

lemma context_determined:
  assumes "ValidateContextIdentity env ctx = None" "ValidateContextIdentity env ctx' = None"
    and "session_parts ctx = session_parts ctx'"
  shows "ctx = ctx'"
proof -
  have "sc_SessionID ctx = sc_SessionID ctx'" "sc_Suite ctx = sc_Suite ctx'"
    using assms(3) valid_context_session [OF assms(1)] valid_context_session [OF assms(2)]
    by (simp_all add: contextSessionID_def)
  then show ?thesis
    using assms(3) by (cases ctx; cases ctx') (simp add: session_parts_def)
qed

section \<open>Properties\<close>

definition sample_session_context :: security_context where
  "sample_session_context =
    \<lparr> sc_ProfileID = ''sample'', sc_ProfileHash = hex_encode (replicate 32 1),
      sc_SessionID = hex_encode (replicate 32 1), sc_TranscriptHash = hex_encode (replicate 32 1),
      sc_CapabilityHash = hex_encode (replicate 32 1), sc_CarrierBinding = ''carrier'',
      sc_StreamBinding = ''stream'', sc_ProxyBinding = ''proxy'', sc_Suite = DefaultSuite \<rparr>"

lemma sample_context_codec:
  "is_ok (NewEnvelopeCodec sample_sec_env sample_session_context sample_schedule ''client'')"
  by code_simp

text \<open>
  C40: The context-bound codec delivers: for a codec pair of one context, key schedule and
  direction, opening the envelopes that were sealed from any sequence of items, in order, returns
  every payload, also when items in between were refused, for all but the last 66 values of the
  64-bit sequence counter.
\<close>

theorem context_codec_round_trip:
  assumes "NewEnvelopeCodec env ctx keys direction = Inr c"
    and "aead_correct gcm" "aead_Overhead gcm = 16" "\<forall>b. length (se_sha256 env b) = 32"
    and "length ms + 66 < 2 ^ 64"
    and "pairs = sealed_pairs ms (fst (alloc_run (seal_item env marshal gcm) c ms))"
  shows "fst (alloc_run (Open marshal gcm) c (map snd pairs)) = map (\<lambda>(m, e). Inr (snd m)) pairs"
  using context_codec_run [OF new_codecs_in_step [OF assms(1,4)] _ assms(2,3,6)] assms(5) by simp

theorem context_codec_round_trip_witness:
  "\<exists>c pairs. NewEnvelopeCodec sample_sec_env sample_session_context sample_schedule ''client'' = Inr c
    \<and> pairs = sealed_pairs [(\<lparr> em_StreamID = 1, em_Semantic = ''data'', em_CarrierFamily = ''c'', em_MetadataClass = [] \<rparr>, [1, 2])]
        (fst (alloc_run (seal_item sample_sec_env (\<lambda>_. []) sample_aead) c
          [(\<lparr> em_StreamID = 1, em_Semantic = ''data'', em_CarrierFamily = ''c'', em_MetadataClass = [] \<rparr>, [1, 2])]))
    \<and> fst (alloc_run (Open (\<lambda>_. []) sample_aead) c (map snd pairs)) = map (\<lambda>(m, e). Inr (snd m)) pairs"
proof -
  obtain c where c: "NewEnvelopeCodec sample_sec_env sample_session_context sample_schedule ''client'' = Inr c"
    using sample_context_codec unfolding is_ok_iff by blast
  have "aead_Overhead sample_aead = 16" "\<forall>b. length (se_sha256 sample_sec_env b) = 32"
    by (simp_all add: sample_aead_def se_sha256_def sample_sec_env_def sample_ir_env_def)
  then show ?thesis
    using c context_codec_round_trip [OF c sample_aead_correct _ _ _ refl, of
      "[(\<lparr> em_StreamID = 1, em_Semantic = ''data'', em_CarrierFamily = ''c'', em_MetadataClass = [] \<rparr>, [1, 2])]" "\<lambda>_. []"]
    by simp
qed

end
