(* ===== verification/Live_Program.thy ===== *)
theory Live_Program
  imports Framing_Codec "HOL-Library.List_Lexorder" "HOL-Library.Char_ord"
begin

text \<open>
  The live programs of \<open>internal/protocol/liveprogram/program_v1.go\<close>, the part of a profile that
  a release runtime decodes, with their validation, and the projection of a program into a codec
  specification (\<open>codecSpecFromLiveProgram\<close> in \<open>framing/codec_spec_v1.go\<close>). SHA-256 is the
  argument \<open>sha\<close>. Cloning has no effect on values and is left out. The lemmas show that the
  specification of a validated program meets the conditions of the frame codec.
\<close>

section \<open>Data\<close>

datatype live_error = ErrorInvalid | ErrorSize | ErrorSchema | ErrorNonCanonical | ErrorUnsupported

definition SchemaV1 :: string where "SchemaV1 = ''kurd-live-program-v1''"

record live_message =
  lm_Semantic :: string
  lm_WireSymbol :: string
  lm_Direction :: string
  lm_MinPayloadBytes :: int
  lm_MaxPayloadBytes :: int

record compiled_framing =
  cpf_DataTypeTag :: bytes
  cpf_PaddingTypeTag :: bytes
  cpf_ProfileXORStreamMask :: u32
  cpf_TableStreamMask :: u32
  cpf_CRC32PrefixState :: u32

record live_frame =
  lf_LengthMode :: string
  lf_TypeMode :: string
  lf_HeaderOrder :: "string list"
  lf_FragmentationMode :: string
  lf_ChecksumMode :: string
  lf_PaddingPlacement :: string
  lf_Compiled :: compiled_framing

record live_scheduler =
  ls_Mode :: string
  ls_PriorityMode :: string
  ls_MaxBatchBytes :: int
  ls_FlushIntervalMs :: int
  ls_MaxInFlightFrames :: int

record live_stream =
  lst_IDEncodingMode :: string
  lst_MaxConcurrentStreams :: int

record live_padding =
  lpd_Mode :: string
  lpd_MinPaddingBytes :: int
  lpd_MaxPaddingBytes :: int
  lpd_Probability :: float64

record live_policy =
  lpol_SecurityVersion :: string
  lpol_TranscriptMode :: string
  lpol_KDFSuite :: string
  lpol_AEADSuite :: string
  lpol_MACSuite :: string
  lpol_NonceMode :: string
  lpol_ReplayPolicy :: string
  lpol_ReplayWindowSize :: int
  lpol_DowngradePolicy :: string
  lpol_CapabilityNegotiationPolicy :: string
  lpol_ProfileCompatibilityPolicy :: string
  lpol_KeyRotationPolicy :: string
  lpol_ConfigValidationPolicy :: string
  lpol_SecureEnvelopeMode :: string
  lpol_MaxSessionMessages :: int
  lpol_MaxKeyLifetimeMessages :: int

record live_security =
  lsec_CompilerSecurityVersion :: string
  lsec_MinimumRuntimeVersion :: string
  lsec_Policy :: live_policy
  lsec_ClientMandatoryCapabilities :: "string list"
  lsec_RelayMandatoryCapabilities :: "string list"
  lsec_SelectedCapabilities :: "string list"

record live_limits =
  ll_MaxFrameBytes :: int
  ll_MaxPayloadBytes :: int
  ll_MaxSessionMillis :: int
  ll_MaxSessionMessages :: int
  ll_MaxKeyLifetimeMessages :: int

record live_program =
  lp_Schema :: string
  lp_ProgramID :: bytes
  lp_SourceSchemaVersion :: string
  lp_SourceGenerationHash :: bytes
  lp_Messages :: "live_message list"
  lp_Frame :: live_frame
  lp_Scheduler :: live_scheduler
  lp_Stream :: live_stream
  lp_Padding :: live_padding
  lp_Security :: live_security
  lp_Limits :: live_limits

section \<open>Validation\<close>

definition DeriveProgramIDV1 :: "(bytes \<Rightarrow> bytes) \<Rightarrow> bytes \<Rightarrow> bytes" where
  "DeriveProgramIDV1 sha source = take 16 (sha (string_bytes SchemaV1 @ [0] @ source))"

definition allZero :: "bytes \<Rightarrow> bool" where
  "allZero v \<longleftrightarrow> foldl (OR) 0 v = 0"

definition safeToken :: "string \<Rightarrow> bool" where
  "safeToken v =
    (if v = [] \<or> length v > 96 then False
     else if list_ex (contains_string (to_lower v))
         [''test'', ''lab'', ''key'', ''seed'', ''path'', ''endpoint'', ''secret'', ''auth'']
     then False
     else list_all wire_token_char v)"

definition IsSafeWireSymbolV1 :: "string \<Rightarrow> bool" where
  "IsSafeWireSymbolV1 v = safeToken v"

definition exactSet :: "string list \<Rightarrow> string list \<Rightarrow> bool" where
  "exactSet vs expected \<longleftrightarrow> length vs = length expected \<and> sort vs = sort expected"

definition knownCapability :: "string \<Rightarrow> bool" where
  "knownCapability v = oneOf v [''multi_stream'', ''proxy_semantics'', ''carrier_abstraction'',
    ''adapter_interface'', ''carrier_loss_recovery'', ''carrier_backpressure'', ''generated_backend'',
    ''transcript_binding'', ''replay_window'', ''nonce_schedule'']"

fun capability_order :: "string option \<Rightarrow> string list \<Rightarrow> bool" where
  "capability_order previous [] = True"
| "capability_order previous (v # vs) =
    (if \<not> knownCapability v \<or> (case previous of None \<Rightarrow> False | Some u \<Rightarrow> u \<ge> v) then False
     else capability_order (Some v) vs)"

definition program_canonicalCapabilities :: "string list \<Rightarrow> bool" where
  "program_canonicalCapabilities vs =
    (if vs = [] \<or> length vs > 32 then False else capability_order None vs)"

definition validateSecurity :: "live_security \<Rightarrow> live_error option" where
  "validateSecurity v =
    (let p = lsec_Policy v in first_error [
      (lsec_CompilerSecurityVersion v = [] \<or> lsec_MinimumRuntimeVersion v = [] \<or> lpol_SecurityVersion p = [] \<or>
       \<not> oneOf (lpol_TranscriptMode p) [''canonical_v1'', ''canonical_with_capabilities_v1'',
         ''canonical_with_carrier_binding_v1'', ''canonical_full_binding_v1''] \<or>
       lpol_KDFSuite p \<noteq> ''kdf_hkdf_sha256'' \<or> lpol_AEADSuite p \<noteq> ''aead_aes_256_gcm'' \<or>
       lpol_MACSuite p \<noteq> ''mac_hmac_sha256'' \<or>
       \<not> oneOf (lpol_NonceMode p) [''counter_xor_base'', ''counter_append_base'',
         ''directional_counter'', ''stream_partitioned_counter''] \<or>
       \<not> oneOf (lpol_ReplayPolicy p) [''ordered_only'', ''bounded_reorder'', ''windowed_replay''] \<or>
       lpol_ReplayWindowSize p \<le> 1 \<or> lpol_ReplayWindowSize p > 4096 \<or>
       \<not> oneOf (lpol_DowngradePolicy p) [''strict_suite_and_capabilities'', ''strict_capabilities'',
         ''suite_bound_transcript''] \<or>
       \<not> oneOf (lpol_CapabilityNegotiationPolicy p) [''strict_required'',
         ''intersection_with_required'', ''profile_declared_required''] \<or>
       \<not> oneOf (lpol_ProfileCompatibilityPolicy p) [''strict_schema'', ''schema_and_feature'',
         ''full_policy_binding''] \<or>
       \<not> oneOf (lpol_KeyRotationPolicy p) [''session_only'', ''message_lifetime_bound'',
         ''profile_lifetime_bound''] \<or>
       \<not> oneOf (lpol_ConfigValidationPolicy p) [''strict_required'', ''strict_with_redaction'',
         ''strict_profile_bound''] \<or>
       \<not> oneOf (lpol_SecureEnvelopeMode p) [''metadata_authenticated'', ''synthetic_aead_test'',
         ''full_context_bound_envelope''] \<or>
       lpol_MaxSessionMessages p < 1 \<or> lpol_MaxSessionMessages p > 16777216 \<or>
       lpol_MaxKeyLifetimeMessages p < 1 \<or> lpol_MaxKeyLifetimeMessages p > lpol_MaxSessionMessages p,
       ErrorInvalid),
      (list_ex (\<lambda>capabilities. \<not> program_canonicalCapabilities capabilities)
         [lsec_ClientMandatoryCapabilities v, lsec_RelayMandatoryCapabilities v, lsec_SelectedCapabilities v],
       ErrorInvalid),
      (list_ex (\<lambda>floor. list_ex (\<lambda>capability. capability \<notin> set (lsec_SelectedCapabilities v)) floor)
         [lsec_ClientMandatoryCapabilities v, lsec_RelayMandatoryCapabilities v],
       ErrorInvalid)])"

fun message_errors :: "live_limits \<Rightarrow> string list \<Rightarrow> live_message list \<Rightarrow> live_error option" where
  "message_errors limits seenWire [] = None"
| "message_errors limits seenWire (m # ms) =
    (if \<not> IsSafeWireSymbolV1 (lm_WireSymbol m) \<or> lm_Direction m \<noteq> ''bidirectional'' \<or>
        lm_MinPayloadBytes m < 0 \<or> lm_MaxPayloadBytes m < lm_MinPayloadBytes m \<or>
        lm_MaxPayloadBytes m > ll_MaxPayloadBytes limits then Some ErrorInvalid
     else if lm_WireSymbol m \<in> set seenWire then Some ErrorSchema
     else message_errors limits (lm_WireSymbol m # seenWire) ms)"

definition messages_shape :: "live_message list \<Rightarrow> bool" where
  "messages_shape ms \<longleftrightarrow> map lm_Semantic ms = [''data'', ''padding'']"

definition frame_invalid :: "live_frame \<Rightarrow> bool" where
  "frame_invalid f \<longleftrightarrow>
    \<not> oneOf (lf_LengthMode f) [''varint_prefix'', ''fixed_2_prefix'', ''fixed_4_prefix'', ''length_suffix_lab''] \<or>
    \<not> oneOf (lf_TypeMode f) [''explicit_generated_tag'', ''derived_from_state'',
      ''derived_from_header_order'', ''table_indexed_symbol''] \<or>
    \<not> oneOf (lf_FragmentationMode f) [''no_fragmentation_for_small_payloads'', ''fixed_size_chunks'',
      ''bounded_variable_chunks'', ''scheduler_controlled_chunks''] \<or>
    \<not> oneOf (lf_ChecksumMode f) [''none'', ''crc32''] \<or>
    \<not> oneOf (lf_PaddingPlacement f) [''none'', ''prefix'', ''suffix'', ''inter_frame'', ''probabilistic''] \<or>
    \<not> exactSet (lf_HeaderOrder f) [''length'', ''type'', ''stream'', ''flags'']"

definition tags_invalid :: "compiled_framing \<Rightarrow> bool" where
  "tags_invalid c \<longleftrightarrow>
    cpf_DataTypeTag c = [] \<or> length (cpf_DataTypeTag c) > 255 \<or>
    cpf_PaddingTypeTag c = [] \<or> length (cpf_PaddingTypeTag c) > 255 \<or>
    cpf_DataTypeTag c = cpf_PaddingTypeTag c"

definition padding_invalid :: "live_padding \<Rightarrow> live_limits \<Rightarrow> bool" where
  "padding_invalid q limits \<longleftrightarrow>
    \<not> oneOf (lpd_Mode q) [''none'', ''bounded'', ''probabilistic'', ''fixed'', ''inter_frame''] \<or>
    lpd_MinPaddingBytes q < 0 \<or> lpd_MaxPaddingBytes q < lpd_MinPaddingBytes q \<or>
    lpd_MaxPaddingBytes q > ll_MaxFrameBytes limits \<or>
    lpd_Probability q = NaN \<or> lpd_Probability q \<in> {PosInf, NegInf} \<or>
    float_less (lpd_Probability q) (Finite 0) \<or> float_less (Finite 1) (lpd_Probability q) \<or>
    (lpd_Mode q = ''none'' \<and> (lpd_MinPaddingBytes q \<noteq> 0 \<or> lpd_MaxPaddingBytes q \<noteq> 0 \<or>
      \<not> float_eq (lpd_Probability q) (Finite 0)))"

definition ValidateV1 :: "(bytes \<Rightarrow> bytes) \<Rightarrow> live_program \<Rightarrow> live_error option" where
  "ValidateV1 sha p =
    or_else (first_error [
      (lp_Schema p \<noteq> SchemaV1 \<or> lp_ProgramID p \<noteq> DeriveProgramIDV1 sha (lp_SourceGenerationHash p) \<or>
       lp_SourceSchemaVersion p = [] \<or> allZero (lp_SourceGenerationHash p), ErrorInvalid),
      (\<not> messages_shape (lp_Messages p), ErrorSchema)])
    (or_else (message_errors (lp_Limits p) [] (lp_Messages p))
    (or_else (first_error [
      (frame_invalid (lp_Frame p), ErrorInvalid),
      (tags_invalid (lf_Compiled (lp_Frame p)), ErrorInvalid),
      (\<not> oneOf (ls_Mode (lp_Scheduler p)) [''max_speed'', ''balanced'', ''interactive_first'', ''bulk_first''] \<or>
       ls_MaxBatchBytes (lp_Scheduler p) < 1 \<or> ls_MaxBatchBytes (lp_Scheduler p) > 32768 \<or>
       ls_FlushIntervalMs (lp_Scheduler p) < 0 \<or> ls_FlushIntervalMs (lp_Scheduler p) > 1000 \<or>
       \<not> oneOfInt (ls_MaxInFlightFrames (lp_Scheduler p)) [4, 8, 16, 32] \<or>
       ls_PriorityMode (lp_Scheduler p) = [], ErrorInvalid),
      (\<not> oneOf (lst_IDEncodingMode (lp_Stream p)) [''fixed32_be'', ''profile_xor32'', ''table_mapped32_le'', ''varint''] \<or>
       \<not> oneOfInt (lst_MaxConcurrentStreams (lp_Stream p)) [2, 4, 8, 16], ErrorInvalid),
      (padding_invalid (lp_Padding p) (lp_Limits p), ErrorInvalid)])
    (or_else (validateSecurity (lp_Security p))
    (let l = lp_Limits p; q = lsec_Policy (lp_Security p) in first_error [
      (ll_MaxFrameBytes l < 1 \<or> ll_MaxFrameBytes l > 1048576 \<or> ll_MaxPayloadBytes l < 1 \<or>
       ll_MaxPayloadBytes l > 8388608 \<or> ll_MaxSessionMillis l < 1 \<or> ll_MaxSessionMessages l < 1 \<or>
       ll_MaxKeyLifetimeMessages l < 1 \<or> ll_MaxKeyLifetimeMessages l > ll_MaxSessionMessages l \<or>
       ll_MaxSessionMessages l \<noteq> lpol_MaxSessionMessages q \<or>
       ll_MaxKeyLifetimeMessages l \<noteq> lpol_MaxKeyLifetimeMessages q, ErrorInvalid)]))))"

section \<open>The codec specification of a program\<close>

definition program_spec :: "live_program \<Rightarrow> codec_spec" where
  "program_spec p =
    (let f = lp_Frame p; c = lf_Compiled f; q = lp_Padding p in
     \<lparr> sp_messages =
         [\<lparr> cm_semantic = lm_Semantic (lp_Messages p ! 0), cm_wireSymbol = lm_WireSymbol (lp_Messages p ! 0),
            cm_typeTag = cpf_DataTypeTag c \<rparr>,
          \<lparr> cm_semantic = lm_Semantic (lp_Messages p ! 1), cm_wireSymbol = lm_WireSymbol (lp_Messages p ! 1),
            cm_typeTag = cpf_PaddingTypeTag c \<rparr>],
       sp_lengthMode = lf_LengthMode f, sp_checksumMode = lf_ChecksumMode f,
       sp_headerOrder = lf_HeaderOrder f, sp_fragmentationMode = lf_FragmentationMode f,
       sp_paddingPlacement = lf_PaddingPlacement f,
       sp_padding = \<lparr> pad_Mode = lpd_Mode q, pad_MinPaddingBytes = lpd_MinPaddingBytes q,
         pad_MaxPaddingBytes = lpd_MaxPaddingBytes q, pad_Probability = lpd_Probability q \<rparr>,
       sp_maxFrameBytes = ll_MaxFrameBytes (lp_Limits p), sp_maxPayloadBytes = ll_MaxPayloadBytes (lp_Limits p),
       sp_maxBatchBytes = ls_MaxBatchBytes (lp_Scheduler p),
       sp_streamEncodingMode = lst_IDEncodingMode (lp_Stream p),
       sp_profileXORStreamMask = cpf_ProfileXORStreamMask c, sp_tableStreamMask = cpf_TableStreamMask c,
       sp_crc32PrefixState = cpf_CRC32PrefixState c \<rparr>)"

definition codecSpecFromLiveProgram :: "(bytes \<Rightarrow> bytes) \<Rightarrow> live_program \<Rightarrow> framing_error + codec_spec" where
  "codecSpecFromLiveProgram sha p =
    (if ValidateV1 sha p \<noteq> None then Inl (FrErr ''live program framing rejected'') else Inr (program_spec p))"

section \<open>Specifications of validated programs\<close>

lemma exactSet_iff:
  assumes d: "distinct expected"
  shows "exactSet vs expected \<longleftrightarrow> set vs = set expected \<and> distinct vs"
proof
  assume "exactSet vs expected"
  then have "sort vs = sort expected" by (simp add: exactSet_def)
  then show "set vs = set expected \<and> distinct vs"
    using d by (metis set_sort distinct_sort)
next
  assume s: "set vs = set expected \<and> distinct vs"
  then have "sort vs = sort expected"
    using d sort_set_eq [of vs] sort_set_eq [of expected] by simp
  moreover have "length vs = length expected"
    using s d by (metis distinct_card)
  ultimately show "exactSet vs expected"
    using s by (simp add: exactSet_def)
qed

text \<open>What the frame codec needs of the specification of a live program.\<close>

definition live_spec_ok :: "codec_spec \<Rightarrow> bool" where
  "live_spec_ok spec \<longleftrightarrow> (\<exists>d q. sp_messages spec = [d, q] \<and> cm_semantic d = ''data'' \<and>
      cm_typeTag d \<noteq> cm_typeTag q \<and> length (cm_typeTag d) \<le> 255) \<and>
    set (sp_headerOrder spec) = {''length'', ''type'', ''stream'', ''flags''} \<and> distinct (sp_headerOrder spec) \<and>
    sp_lengthMode spec \<in> {''varint_prefix'', ''fixed_2_prefix'', ''fixed_4_prefix'', ''length_suffix_lab''} \<and>
    sp_streamEncodingMode spec \<in> {''fixed32_be'', ''profile_xor32'', ''table_mapped32_le'', ''varint''} \<and>
    0 \<le> pad_MinPaddingBytes (sp_padding spec) \<and>
    pad_MinPaddingBytes (sp_padding spec) \<le> pad_MaxPaddingBytes (sp_padding spec) \<and>
    pad_MaxPaddingBytes (sp_padding spec) \<le> sp_maxFrameBytes spec \<and>
    1 \<le> sp_maxBatchBytes spec \<and> 1 \<le> sp_maxFrameBytes spec \<and> sp_maxFrameBytes spec \<le> 1048576 \<and>
    1 \<le> sp_maxPayloadBytes spec \<and> sp_maxPayloadBytes spec \<le> 8388608"

lemma program_spec_ok:
  assumes "codecSpecFromLiveProgram sha p = Inr spec"
  shows "live_spec_ok spec \<and> spec = program_spec p \<and> length (lp_Messages p) = 2 \<and>
    0 \<le> lm_MinPayloadBytes (lp_Messages p ! 0)"
proof -
  have v: "ValidateV1 sha p = None" and spec: "spec = program_spec p"
    using assms by (simp_all add: codecSpecFromLiveProgram_def split: if_splits)
  obtain d q where ms: "lp_Messages p = [d, q]" "lm_Semantic d = ''data''"
    using v by (auto simp: ValidateV1_def messages_shape_def result_simps map_eq_Cons_conv)
  have "message_errors (lp_Limits p) [] (lp_Messages p) = None" "\<not> frame_invalid (lp_Frame p)"
    "\<not> tags_invalid (lf_Compiled (lp_Frame p))" "\<not> padding_invalid (lp_Padding p) (lp_Limits p)"
    using v by (simp_all add: ValidateV1_def result_simps)
  moreover have "1 \<le> ls_MaxBatchBytes (lp_Scheduler p)" "1 \<le> ll_MaxFrameBytes (lp_Limits p)"
    "ll_MaxFrameBytes (lp_Limits p) \<le> 1048576" "1 \<le> ll_MaxPayloadBytes (lp_Limits p)"
    "ll_MaxPayloadBytes (lp_Limits p) \<le> 8388608"
    "oneOf (lst_IDEncodingMode (lp_Stream p)) [''fixed32_be'', ''profile_xor32'', ''table_mapped32_le'', ''varint'']"
    using v by (auto simp: ValidateV1_def result_simps Let_def simp del: oneOf_iff)
  ultimately show ?thesis
    using ms spec
    by (auto simp: live_spec_ok_def program_spec_def Let_def frame_invalid_def tags_invalid_def padding_invalid_def
      exactSet_iff split: if_splits)
qed

end
