(* ===== verification/Spec2Isabelle.thy ===== *)
theory Spec2Isabelle
  imports Stream_Session Wire_V1 Framing_Properties Envelope_V1 Authenticated_Context
    FSM_Interpreter Security_Context Live_Program
begin

text \<open>
  A verification development for the data path of the protocol compiler, the Go code under
  \<open>src/internal/protocol\<close> and \<open>src/internal/crypto/security\<close>.

  \<^bold>\<open>The program.\<close> A compiler derives profiles: descriptions of a wire protocol with its states,
  messages, frame grammar, padding, scheduling and security policy. A profile is validated
  (\<open>ir/validate.go\<close>) and then interpreted. The first contact of two peers runs over the states of
  the profile (\<open>fsm/interpreter.go\<close>). Data travels in streams of a session (\<open>stream/session.go\<close>);
  a planner orders and batches what is queued and cuts payloads into fragments
  (\<open>scheduler/scheduler.go\<close>); the frame codec turns an operation into frames of the profile's
  grammar, with padding (\<open>padding/padding.go\<close>) and a checksum, and reassembles them
  (\<open>framing/codec.go\<close>). On the secure path both peers negotiate capabilities
  (\<open>security/capabilities.go\<close>), agree on a transcript and a context hash
  (\<open>transcript.go\<close>, \<open>authenticated_context.go\<close>), derive keys per epoch (\<open>keyschedule.go\<close>) and
  exchange records: an envelope codec (\<open>envelope.go\<close>) seals under nonces it allocates
  (\<open>nonce.go\<close>) and opens under the nonces it expects, guarded by replay windows (\<open>replay.go\<close>). The
  outer record around all of it is the frame of \<open>wirev1/codec.go\<close>.

  \<^bold>\<open>How the code is modelled.\<close> A struct is a record and an enumeration a datatype; a method takes
  the receiver and returns it updated with the results. Go's \<open>int\<close> is \<open>int\<close> with the wrap to 64 bits
  (\<open>int64\<close>) where the code adds or subtracts without a bound; \<open>uint16\<close>, \<open>uint32\<close> and \<open>uint64\<close> are
  words. A result with an error is a sum with the error on the left; a function that only returns
  an error gives an option; a panic is an error value. Loops are structural recursions or functions
  with a measure. Maps whose entries are counted or iterated are association lists with distinct
  keys. Mutexes are left out where each method holds its lock throughout. What comes from the Go
  library and is not computed here is a parameter: SHA-256 and the JSON marshallers (\<open>ir_env\<close>,
  \<open>sec_env\<close>), HKDF (\<open>kdf_env\<close>), AES-GCM (\<open>aead\<close>), \<open>math/rand\<close> (\<open>rng\<close>) and the sizes of structs
  (\<open>storage_sizes\<close>). What the properties rely on is a named hypothesis: \<open>aead_correct\<close> (opening what
  was sealed returns it), \<open>rng_ok\<close> (the range of \<open>Intn\<close>), digests of 32 bytes.

  \<^bold>\<open>The theories\<close>, each with the code it models and what its lemmas show.

  \<^item> \<open>Prelude\<close>: results, big- and little-endian numbers, variable-length integers, buffers, stable
    sorting, association lists, and the interfaces \<open>strict_weak_order\<close> (a comparator that
    \<open>sort.SliceStable\<close> orders by), \<open>invariant_system\<close> (reachability and its invariants),
    \<open>byte_codec\<close> and its extension \<open>canonical_codec\<close> (round trips). Every interface is interpreted on
    the definitions of the components below.

  \<^item> \<open>Stream_Session\<close> (\<open>stream/*.go\<close>): \<open>session\<close> is \<open>Session\<close>, one definition per method. Over all
    sequences of calls: the structure of the stream table, exact flow control, exact delivery,
    terminal streams, the content and the order of the schedule. Two defects are proved: the unguarded
    addition in \<open>WindowUpdate\<close>, and the stream ids. \<open>allocateID\<close> wraps in exactly one accepted
    configuration; \<open>safe_ids\<close> is its complement, \<open>session_fresh_ids\<close> shows that it is exactly the
    condition for ids that are never repeated, and the theorems that need it say so.

  \<^item> \<open>Flush_Scheduler\<close> (\<open>scheduler/scheduler.go\<close>): plans lose and duplicate nothing and respect the
    limits, the round robin equals a reference interleaving, fragment sizes are exact.

  \<^item> \<open>IR_Profile\<close>, \<open>IR_Validate\<close> and \<open>Effective_Policy\<close> (\<open>ir/*.go\<close>): the profile data, every
    validator in the order of its checks, with the search for reachable states shown sound and
    complete, the effective security policy and the version tuples.

  \<^item> \<open>FSM_Interpreter\<close> (\<open>fsm/interpreter.go\<close>): interpreters only move as the profile allows;
    relay-ready is attainable when no transition is shadowed; and a shadowed transition defeats
    validation and the dry run.

  \<^item> \<open>Padding_Engine\<close> (\<open>padding/padding.go\<close>): both generators agree; the bound that makes one panic.

  \<^item> \<open>Crc32\<close>, \<open>Framing_Spec\<close>, \<open>Framing_Metadata\<close>, \<open>Framing_Codec\<close> and \<open>Framing_Properties\<close>
    (\<open>framing/codec.go\<close>, \<open>codec_buffer_helpers.go\<close>, \<open>codec_spec_v1.go\<close>): the checksum against the
    bitwise register, specifications, headers and length wrappers, metadata, frames, fragments and
    the stream reader; round trips of operations, which fragments are accepted, which damage is
    detected, and three truncations: of fragment counts, of metadata counts, and of the frames the
    suffix reader can return.

  \<^item> \<open>Live_Program\<close> (\<open>liveprogram/program_v1.go\<close>): the compiled program, its validation, and that the
    codec specification of a validated program meets what the frame codec needs.

  \<^item> \<open>Wire_V1\<close> (\<open>wirev1/*.go\<close>): the outer record is a canonical codec; encoding a payload that lies in
    the destination buffer.

  \<^item> \<open>Security_Base\<close>, \<open>Capabilities\<close>, \<open>Transcript_Encoding\<close> and \<open>Authenticated_Context\<close>: the
    sentinels (errors are compared by sentinel, their texts are left out), the symmetric and sound
    selection of capabilities, and injective encodings up to the context hash.

  \<^item> \<open>Key_Schedule\<close> (\<open>keyschedule.go\<close>), \<open>Nonce_Owner\<close> (\<open>nonce.go\<close>) and \<open>Replay_Window\<close>
    (\<open>replay.go\<close>): well-formed epochs and separated inputs; the interface \<open>nonce_source\<close>, under which
    no nonce is repeated; the interface \<open>replay_backend\<close>, which both storages of the window provide,
    so that they agree with each other and with the verdict the history determines.

  \<^item> \<open>Envelope_V1\<close> (\<open>envelope.go\<close>, \<open>envelope_buffers_v3.go\<close>, \<open>bounded_storage_v3.go\<close>): the codec of a
    role on top of the three; what one role seals the other opens, the channel makes progress, no
    record opens twice, and the associated data binds a record to its place.

  \<^item> \<open>Security_Context\<close> (\<open>context.go\<close>, \<open>config.go\<close>, \<open>compatibility.go\<close>, \<open>invariants.go\<close>): contexts and
    their identities, configurations, compatibility, and the context-bound codec at the end of
    \<open>envelope.go\<close>.

  \<^bold>\<open>Bounds and fuel.\<close> The only fuel is that of the JSON scan in \<open>Effective_Policy\<close>:
  \<open>2 * length + 2\<close> for a token list, and \<open>strictJSONV1_fuel\<close> shows that more does not change the
  result. All other loops are total functions. Numeric bounds in the theorems are those of the
  code's integer types: credit below \<open>2 ^ 63\<close>, sequences below \<open>2 ^ 64\<close>, fragment numbers below
  \<open>2 ^ 16\<close>; where a bound is not checked by the code, a theorem shows what happens beyond it.

  \<^bold>\<open>Not modelled.\<close> In the components above: file access of profiles, copying configurations out of a
  profile (\<open>ConfigFromProfile\<close>), redaction for logs (\<open>RedactConfig\<close>), error texts, the bytes of
  borrowed destinations, the caller-buffer codec of live programs
  (\<open>framing/live_data_buffer_v3.go\<close>) and the CBOR form of a program (\<open>liveprogram/codec_v1.go\<close>).
  Outside them: the profile compiler, whose output depends on \<open>math/rand\<close> and is judged by the
  validation modelled here; the handshakes, relays, runtimes and transports, which are sockets,
  goroutines and timers around these components; signatures and HPKE, which are calls into the Go
  library; code generation, platform bridges, command line tools and release evidence.
\<close>

end
